(* ===== verification/Prelude.thy ===== *)
theory Prelude
  imports Complex_Main "HOL-Library.AList"
begin

text \<open>
  Shared material of the development.

  \<^item> Association lists stand for Python dictionaries: \<open>AList.update\<close> overwrites a key in
    place and otherwise appends at the end, which is the insertion order a Python
    \<open>dict\<close> iterates in; \<open>AList.delete\<close> is \<open>dict.pop\<close>.
  \<^item> \<open>take_last\<close> and the locale \<open>bounded_buffer\<close> are the interface of every
    "drop the oldest" buffer of the program: \<open>collections.deque(maxlen=..)\<close> of the latency
    tracker, the per-client queues of the event bus and the lock trace of the
    observability module.
  \<^item> The locale \<open>guarded_machine\<close> is the interface of every component that is driven by
    a list of operations: one law (a permitted operation keeps the invariant) gives the
    invariant of every run.
\<close>

named_theorems component_defs \<open>definitions of the operations of a component\<close>
named_theorems ledger_intros \<open>rules that bound the drift of a floating-point ledger\<close>

section \<open>Lists and association lists\<close>

definition take_last :: "nat \<Rightarrow> 'a list \<Rightarrow> 'a list" where
  "take_last n xs = drop (length xs - n) xs"

lemma length_take_last [simp]: "length (take_last n xs) = min n (length xs)"
  by (simp add: take_last_def)

lemma take_last_all [simp]: "length xs \<le> n \<Longrightarrow> take_last n xs = xs"
  by (simp add: take_last_def)

lemma set_take_last: "set (take_last n xs) \<subseteq> set xs"
  by (simp add: take_last_def set_drop_subset)

lemma take_last_append: "n \<le> length ys \<Longrightarrow> take_last n (xs @ ys) = take_last n ys"
  by (simp add: take_last_def)

lemma take_last_snoc: "take_last n (take_last n xs @ [x]) = take_last n (xs @ [x])"
proof (cases "length xs \<le> n")
  case False
  then show ?thesis
    by (cases n) (simp_all add: take_last_def Suc_diff_Suc)
qed simp

lemma take_last_append_take_last:
  "take_last n (take_last n xs @ ys) = take_last n (xs @ ys)"
proof (induction ys rule: rev_induct)
  case Nil
  then show ?case by (simp add: take_last_def)
next
  case (snoc y ys)
  then show ?case by (metis append_assoc take_last_snoc)
qed

lemma map_of_SomeD_fst: "map_of al k = Some v \<Longrightarrow> k \<in> fst ` set al"
  by (force dest: map_of_SomeD)

lemma map_of_None_fst: "map_of al k = None \<longleftrightarrow> k \<notin> fst ` set al"
  by (simp add: map_of_eq_None_iff)

lemma alist_update_fresh: "k \<notin> fst ` set al \<Longrightarrow> AList.update k v al = al @ [(k, v)]"
  by (induction al) auto

lemma alist_delete_set:
  "distinct (map fst al) \<Longrightarrow> set (AList.delete k al) = {p \<in> set al. fst p \<noteq> k}"
  by (auto simp: AList.delete_eq)

lemma alist_delete_absent: "k \<notin> fst ` set al \<Longrightarrow> AList.delete k al = al"
  by (induction al) auto

lemma alist_length_delete:
  "distinct (map fst al) \<Longrightarrow> map_of al k = Some v \<Longrightarrow>
     length al = Suc (length (AList.delete k al))"
proof (induction al)
  case (Cons p al)
  show ?case
  proof (cases "fst p = k")
    case True
    with Cons.prems have "AList.delete k al = al"
      by (intro alist_delete_absent) auto
    with True show ?thesis by (cases p) (simp add: AList.delete_eq)
  next
    case False
    with Cons show ?thesis by (cases p) (simp add: AList.delete_eq)
  qed
qed simp

lemma sum_list_delete:
  fixes f :: "'k \<times> 'v \<Rightarrow> rat"
  shows "distinct (map fst al) \<Longrightarrow> map_of al k = Some v \<Longrightarrow>
     sum_list (map f al) = f (k, v) + sum_list (map f (AList.delete k al))"
proof (induction al)
  case (Cons p al)
  show ?case
  proof (cases "fst p = k")
    case True
    with Cons.prems have "AList.delete k al = al"
      by (intro alist_delete_absent) auto
    with True Cons.prems show ?thesis by (cases p) (simp add: AList.delete_eq)
  next
    case False
    with Cons show ?thesis by (cases p) (simp add: AList.delete_eq)
  qed
qed simp

section \<open>Buffers that drop their oldest entry\<close>

locale bounded_buffer =
  fixes push :: "'a \<Rightarrow> 'b \<Rightarrow> 'b"
    and contents :: "'b \<Rightarrow> 'a list"
    and cap :: "'b \<Rightarrow> nat"
  assumes contents_push:
      "length (contents b) \<le> cap b \<Longrightarrow> contents (push x b) = take_last (cap b) (contents b @ [x])"
    and cap_push: "cap (push x b) = cap b"
begin

lemma length_push: "length (contents b) \<le> cap b \<Longrightarrow> length (contents (push x b)) \<le> cap b"
  by (simp add: contents_push)

lemma cap_pushes: "cap (fold push xs b) = cap b"
  by (induction xs arbitrary: b) (simp_all add: cap_push)

lemma contents_pushes:
  "length (contents b) \<le> cap b \<Longrightarrow>
     contents (fold push xs b) = take_last (cap b) (contents b @ xs)"
proof (induction xs arbitrary: b)
  case Nil
  then show ?case by simp
next
  case (Cons x xs)
  from Cons.prems have "contents (fold push xs (push x b)) =
      take_last (cap b) (contents (push x b) @ xs)"
    by (simp add: Cons.IH length_push cap_push)
  also have "\<dots> = take_last (cap b) (contents b @ x # xs)"
    using Cons.prems by (simp add: contents_push take_last_append_take_last)
  finally show ?case by simp
qed

lemma length_pushes:
  "length (contents b) \<le> cap b \<Longrightarrow> length (contents (fold push xs b)) \<le> cap b"
  by (simp add: contents_pushes)

text \<open>Old entries are gone after \<open>cap\<close> pushes, and the newest ones are never lost.\<close>

lemma contents_evicted:
  "length (contents b) \<le> cap b \<Longrightarrow> cap b \<le> length xs \<Longrightarrow>
     contents (fold push xs b) = take_last (cap b) xs"
  by (simp add: contents_pushes take_last_append)

lemma contents_recent:
  "length (contents b) \<le> cap b \<Longrightarrow> length xs \<le> cap b \<Longrightarrow>
     \<exists>zs. contents (fold push xs b) = zs @ xs"
  by (simp add: contents_pushes take_last_def)

end

section \<open>Components driven by operations\<close>

fun run :: "('s \<Rightarrow> 'e \<Rightarrow> 's) \<Rightarrow> 's \<Rightarrow> 'e list \<Rightarrow> 's" where
  "run step s [] = s"
| "run step s (e # es) = run step (step s e) es"

fun permitted :: "('s \<Rightarrow> 'e \<Rightarrow> bool) \<Rightarrow> ('s \<Rightarrow> 'e \<Rightarrow> 's) \<Rightarrow> 's \<Rightarrow> 'e list \<Rightarrow> bool" where
  "permitted ok step s [] = True"
| "permitted ok step s (e # es) = (ok s e \<and> permitted ok step (step s e) es)"

lemma run_append: "run step s (es @ fs) = run step (run step s es) fs"
  by (induction es arbitrary: s) auto

lemma permitted_append:
  "permitted ok step s (es @ fs) \<longleftrightarrow>
     permitted ok step s es \<and> permitted ok step (run step s es) fs"
  by (induction es arbitrary: s) auto

locale guarded_machine =
  fixes step :: "'s \<Rightarrow> 'e \<Rightarrow> 's"
    and ok :: "'s \<Rightarrow> 'e \<Rightarrow> bool"
    and inv :: "'s \<Rightarrow> bool"
  assumes inv_step: "inv s \<Longrightarrow> ok s e \<Longrightarrow> inv (step s e)"
begin

lemma inv_run: "inv s \<Longrightarrow> permitted ok step s es \<Longrightarrow> inv (run step s es)"
  by (induction es arbitrary: s) (auto intro: inv_step)

end

end
