(* ===== verification/PyFloat.thy ===== *)
theory PyFloat
  imports Prelude "HOL-Library.Log_Nat"
begin

text \<open>
  Python's \<open>float\<close>: IEEE 754 binary64 arithmetic over the rationals.

  A finite double is a rational, and every arithmetic operation of the source is the exact
  operation followed by \<open>rnd\<close>: round to nearest, ties to even, 53 significant bits,
  gradual underflow below \<open>2 powi (- 1022)\<close> (the grid never gets finer than
  \<open>2 powi (- 1074)\<close>).  Infinities, NaN and overflow beyond \<open>1.8e308\<close> are
  not modelled, and the two zeros are one value: no operation modelled here tells them
  apart.

  \<open>rnd\<close> computes, so closed terms evaluate by \<open>code_simp\<close>.  The lemmas show that
  it is a correct rounding: monotone, odd, idempotent, exact on every representable value, and
  off by at most half a unit in the last place.  The locale \<open>rounding\<close> is the part of
  this that the float ledgers of the components rely on.
\<close>

type_synonym flt = rat

section \<open>Round to nearest, ties to even\<close>

definition expo :: "rat \<Rightarrow> int" where
  "expo x =
     (case quotient_of \<bar>x\<bar> of (p, q) \<Rightarrow>
        let e = bitlen p - bitlen q
        in if (2::rat) powi e \<le> \<bar>x\<bar> then e else e - 1)"

definition ulp_exp :: "rat \<Rightarrow> int" where
  "ulp_exp x = max (expo x - 52) (- 1074)"

definition half_even :: "rat \<Rightarrow> int" where
  "half_even y =
     (let n = \<lfloor>y\<rfloor>; d = y - of_int n
      in if d < 1 / 2 then n
         else if 1 / 2 < d then n + 1
         else if even n then n else n + 1)"

definition rnd :: "rat \<Rightarrow> flt" where
  "rnd x =
     (if x = 0 then 0
      else let u = (2::rat) powi (ulp_exp x) in of_int (half_even (x / u)) * u)"

lemma powi2_pos [simp]: "0 < (2::rat) powi k"
  by (simp add: zero_less_power_int)

lemma powi2_nz [simp]: "(2::rat) powi k \<noteq> 0"
  using powi2_pos [of k] by simp

lemma powi2_mono: "k \<le> l \<Longrightarrow> (2::rat) powi k \<le> 2 powi l"
  by (rule power_int_increasing) auto

lemma powi2_less_iff: "(2::rat) powi k < 2 powi l \<longleftrightarrow> k < l"
  by (meson not_le power_int_strict_increasing powi2_mono one_less_numeral_iff semiring_norm(76))

lemma powi2_add: "(2::rat) powi (k + l) = 2 powi k * 2 powi l"
  by (rule power_int_add) simp

lemma powi2_diff: "(2::rat) powi (k - l) = 2 powi k / 2 powi l"
  by (rule power_int_diff) simp

lemma powi2_nat: "0 \<le> k \<Longrightarrow> (2::rat) powi k = of_int (2 ^ nat k)"
  by (simp add: power_int_def)

lemma expo_bounds:
  assumes "x \<noteq> 0"
  shows "2 powi (expo x) \<le> \<bar>x\<bar>" and "\<bar>x\<bar> < 2 powi (expo x + 1)"
proof -
  obtain p q where pq: "quotient_of \<bar>x\<bar> = (p, q)" by force
  have q0: "0 < q" using pq by (rule quotient_of_denom_pos)
  have x: "\<bar>x\<bar> = of_int p / of_int q" using pq by (rule quotient_of_div)
  with assms q0 have p0: "0 < p"
    by (metis abs_of_nonneg abs_not_less_zero divide_eq_0_iff divide_less_0_iff linorder_neqE_linordered_idom of_int_0_less_iff of_int_0 of_int_less_0_iff abs_0_eq)
  let ?e = "bitlen p - bitlen q"
  have bp: "1 \<le> bitlen p" and bq: "1 \<le> bitlen q"
    using p0 q0 bitlen_nonneg [of p] bitlen_nonneg [of q]
      bitlen_eq_zero_iff [of p] bitlen_eq_zero_iff [of q] by linarith+
  have P: "(2::rat) powi (bitlen p - 1) \<le> of_int p" "of_int p < (2::rat) powi bitlen p"
    using bitlen_bounds [OF p0] bp by (simp_all only: powi2_nat of_int_le_iff of_int_less_iff diff_ge_0_iff_ge)
  have Q: "(2::rat) powi (bitlen q - 1) \<le> of_int q" "of_int q < (2::rat) powi bitlen q"
    using bitlen_bounds [OF q0] bq by (simp_all only: powi2_nat of_int_le_iff of_int_less_iff diff_ge_0_iff_ge)
  have hi: "\<bar>x\<bar> < 2 powi (?e + 1)"
  proof -
    have "of_int p < (2::rat) powi (?e + 1) * 2 powi (bitlen q - 1)"
      using P(2) by (simp flip: powi2_add)
    also have "\<dots> \<le> 2 powi (?e + 1) * of_int q"
      using Q(1) by (intro mult_left_mono) (auto intro: less_imp_le)
    finally show ?thesis using x q0 by (simp add: divide_less_eq)
  qed
  have lo: "2 powi (?e - 1) \<le> \<bar>x\<bar>"
  proof -
    have "(2::rat) powi (?e - 1) * of_int q \<le> 2 powi (?e - 1) * 2 powi bitlen q"
      using Q(2) by (intro mult_left_mono) (auto intro: less_imp_le)
    also have "\<dots> \<le> of_int p"
      using P(1) by (simp flip: powi2_add add: algebra_simps)
    finally show ?thesis using x q0 by (simp add: le_divide_eq)
  qed
  show "2 powi (expo x) \<le> \<bar>x\<bar>" and "\<bar>x\<bar> < 2 powi (expo x + 1)"
    using hi lo by (auto simp: expo_def pq Let_def)
qed

lemma expo_le: "x \<noteq> 0 \<Longrightarrow> \<bar>x\<bar> < 2 powi (e + 1) \<Longrightarrow> expo x \<le> e"
  using expo_bounds(1) [of x] powi2_less_iff [of "expo x" "e + 1"] by linarith

lemma expo_ge: "x \<noteq> 0 \<Longrightarrow> 2 powi e \<le> \<bar>x\<bar> \<Longrightarrow> e \<le> expo x"
  using expo_bounds(2) [of x] powi2_less_iff [of e "expo x + 1"] by linarith

lemma expo_minus [simp]: "expo (- x) = expo x"
  by (simp add: expo_def)

lemma ulp_exp_minus [simp]: "ulp_exp (- x) = ulp_exp x"
  by (simp add: ulp_exp_def)

lemma half_even_cases:
  obtains n d where "n = \<lfloor>y\<rfloor>" "y = of_int n + d" "0 \<le> d" "d < 1"
    "half_even y = (if d < 1 / 2 then n else if 1 / 2 < d then n + 1
                    else if even n then n else n + 1)"
proof
  show "\<lfloor>y\<rfloor> = \<lfloor>y\<rfloor>" ..
  show "y = of_int \<lfloor>y\<rfloor> + (y - of_int \<lfloor>y\<rfloor>)" by simp
  show "0 \<le> y - of_int \<lfloor>y\<rfloor>" by simp
  show "y - of_int \<lfloor>y\<rfloor> < 1" by linarith
qed (simp add: half_even_def Let_def)

lemma half_even_error: "\<bar>of_int (half_even y) - y\<bar> \<le> 1 / 2"
  by (rule half_even_cases [of y]) auto

lemma half_even_of_int [simp]: "half_even (of_int n) = n"
  by (simp add: half_even_def)

lemma half_even_mono:
  assumes "x \<le> y" shows "half_even x \<le> half_even y"
proof -
  obtain n d where x: "n = \<lfloor>x\<rfloor>" "x = of_int n + d" "0 \<le> d" "d < 1"
    "half_even x = (if d < 1 / 2 then n else if 1 / 2 < d then n + 1
                    else if even n then n else n + 1)"
    by (rule half_even_cases)
  obtain m c where y: "m = \<lfloor>y\<rfloor>" "y = of_int m + c" "0 \<le> c" "c < 1"
    "half_even y = (if c < 1 / 2 then m else if 1 / 2 < c then m + 1
                    else if even m then m else m + 1)"
    by (rule half_even_cases)
  have "n \<le> m" using assms x(1) y(1) by (simp add: floor_mono)
  moreover have "n = m \<Longrightarrow> d \<le> c" using assms x(2) y(2) by simp
  ultimately show ?thesis using x(5) y(5) by (cases "n = m") auto
qed

lemma half_even_unique:
  assumes "\<bar>of_int n - y\<bar> < 1 / 2" shows "half_even y = n"
proof -
  have "\<bar>of_int (half_even y) - (of_int n :: rat)\<bar> < 1"
    using assms half_even_error [of y] by linarith
  then have "\<bar>half_even y - n\<bar> < 1"
    by (metis of_int_1 of_int_abs of_int_diff of_int_less_iff)
  then show ?thesis by linarith
qed

lemma half_even_tie: "half_even (of_int n + 1 / 2) = (if even n then n else n + 1)"
proof -
  have "\<lfloor>of_int n + 1 / 2 :: rat\<rfloor> = n" by (rule floor_unique) auto
  then show ?thesis by (simp add: half_even_def Let_def)
qed

lemma half_even_minus: "half_even (- y) = - half_even y"
proof -
  obtain n d where y: "n = \<lfloor>y\<rfloor>" "y = of_int n + d" "0 \<le> d" "d < 1"
    "half_even y = (if d < 1 / 2 then n else if 1 / 2 < d then n + 1
                    else if even n then n else n + 1)"
    by (rule half_even_cases)
  show ?thesis
  proof (cases "d = 1 / 2")
    case True
    with y(2) have "- y = of_int (- n - 1) + 1 / 2" by simp
    then have "half_even (- y) = (if even (- n - 1) then - n - 1 else - n)"
      by (metis half_even_tie diff_add_cancel)
    then show ?thesis using y(5) True by auto
  next
    case False
    have "\<bar>of_int (- half_even y) - (- y)\<bar> < 1 / 2"
      using y(2-5) False by (auto split: if_splits)
    then show ?thesis by (rule half_even_unique)
  qed
qed

lemma rnd_0 [simp]: "rnd 0 = 0"
  by (simp add: rnd_def)

lemma rnd_minus: "rnd (- x) = - rnd x"
  by (simp add: rnd_def half_even_minus Let_def)

lemma rnd_abs_error: "\<bar>rnd x - x\<bar> \<le> 2 powi (ulp_exp x) / 2"
proof (cases "x = 0")
  case False
  let ?u = "(2::rat) powi (ulp_exp x)"
  have "\<bar>rnd x - x\<bar> = \<bar>of_int (half_even (x / ?u)) - x / ?u\<bar> * ?u"
    using False abs_mult [of "of_int (half_even (x / ?u)) - x / ?u" ?u]
    by (simp add: rnd_def Let_def left_diff_distrib abs_of_pos)
  also have "\<dots> \<le> 1 / 2 * ?u"
    by (intro mult_right_mono half_even_error) (auto intro: less_imp_le)
  finally show ?thesis by simp
qed (simp)

definition tiny :: rat where "tiny = 2 powi (- 1075)"

lemma rnd_error: "\<bar>rnd x - x\<bar> \<le> \<bar>x\<bar> / 2 ^ 53 + tiny"
proof (cases "x = 0")
  case False
  have s: "(2::rat) powi (-1074) / 2 = tiny"
    unfolding tiny_def by (simp add: power_int_minus field_simps flip: power_Suc)
  show ?thesis
  proof (cases "ulp_exp x = expo x - 52")
    case True
    have "(2::rat) powi (expo x - 52) / 2 = 2 powi (expo x) / 2 ^ 53"
      using powi2_add [of "expo x" "- 52"] by (simp add: power_int_minus field_simps)
    also have "\<dots> \<le> \<bar>x\<bar> / 2 ^ 53"
      using expo_bounds(1) [OF False] by (intro divide_right_mono) auto
    finally show ?thesis using rnd_abs_error [of x] True
      by (simp add: tiny_def add_increasing2)
  next
    case False
    then have "ulp_exp x = - 1074" by (auto simp: ulp_exp_def)
    then show ?thesis using rnd_abs_error [of x] s
      by (simp add: add_increasing)
  qed
qed (simp add: tiny_def)


definition is_float :: "rat \<Rightarrow> bool" where
  "is_float x \<longleftrightarrow> rnd x = x"

lemma rnd_representable:
  assumes x: "x = of_int m * 2 powi k" and m: "\<bar>m\<bar> < 2 ^ 53" and k: "- 1074 \<le> k"
  shows "rnd x = x"
proof (cases "m = 0")
  case False
  have nz: "x \<noteq> 0" using x False by simp
  have "of_int \<bar>m\<bar> < (of_int (2 ^ 53) :: rat)"
    using m by (simp only: of_int_less_iff)
  then have "of_int \<bar>m\<bar> * (2::rat) powi k < of_int (2 ^ 53) * 2 powi k"
    by (rule mult_strict_right_mono) simp
  moreover have "\<bar>x\<bar> = of_int \<bar>m\<bar> * 2 powi k"
    by (simp add: x abs_mult abs_of_pos)
  moreover have "(2::rat) powi (53 + k) = of_int (2 ^ 53) * 2 powi k"
    unfolding powi2_add by (simp add: powi2_nat)
  ultimately have "\<bar>x\<bar> < 2 powi (53 + k)" by simp
  then have "expo x \<le> k + 52" using nz by (intro expo_le) (simp_all add: add.commute)
  with k have le: "ulp_exp x \<le> k" by (simp add: ulp_exp_def)
  have "x / 2 powi (ulp_exp x) = of_int m * (2 powi k / 2 powi (ulp_exp x))"
    by (subst (1) x) simp
  also have "\<dots> = of_int m * 2 powi (k - ulp_exp x)"
    by (simp only: powi2_diff)
  also have "\<dots> = of_int (m * 2 ^ nat (k - ulp_exp x))"
    using le by (simp add: powi2_nat)
  finally have q: "x / 2 powi (ulp_exp x) = of_int (m * 2 ^ nat (k - ulp_exp x))" .
  have "rnd x = of_int (half_even (x / 2 powi (ulp_exp x))) * 2 powi (ulp_exp x)"
    using nz by (simp add: rnd_def Let_def)
  also have "\<dots> = x / 2 powi (ulp_exp x) * 2 powi (ulp_exp x)"
    unfolding q half_even_of_int ..
  finally show ?thesis by simp
qed (simp add: x)

lemma rnd_representable_le:
  assumes x: "x = of_int m * 2 powi k" and m: "\<bar>m\<bar> \<le> 2 ^ 53" and k: "- 1074 \<le> k"
  shows "rnd x = x"
proof (cases "\<bar>m\<bar> = 2 ^ 53")
  case True
  then have "m = sgn m * 2 ^ 52 * 2" by (auto simp: abs_if sgn_if split: if_splits)
  then have "of_int m = (of_int (sgn m * 2 ^ 52) * 2 :: rat)"
    by (metis of_int_mult of_int_numeral)
  then have "x = of_int (sgn m * 2 ^ 52) * 2 powi (k + 1)"
    unfolding x powi2_add by simp
  then show ?thesis by (rule rnd_representable) (use k in \<open>auto simp: abs_mult sgn_if\<close>)
next
  case False
  with m x k show ?thesis by (intro rnd_representable) auto
qed

lemma half_even_bound:
  assumes "\<bar>y\<bar> \<le> of_int n" shows "\<bar>half_even y\<bar> \<le> n"
proof -
  have "half_even y \<le> half_even (of_int n)" "half_even (- y) \<le> half_even (of_int n)"
    using assms by (auto intro!: half_even_mono simp del: half_even_of_int)
  then show ?thesis unfolding half_even_of_int half_even_minus by linarith
qed

lemma ulp_ratio: "x \<noteq> 0 \<Longrightarrow> \<bar>x / 2 powi (ulp_exp x)\<bar> < 2 powi 53"
proof -
  assume "x \<noteq> 0"
  then have "\<bar>x\<bar> < 2 powi (expo x + 1)" by (rule expo_bounds)
  also have "\<dots> \<le> 2 powi (53 + ulp_exp x)"
    by (rule powi2_mono) (simp add: ulp_exp_def)
  finally have "\<bar>x\<bar> < 2 powi 53 * 2 powi (ulp_exp x)" unfolding powi2_add .
  then show ?thesis by (simp add: abs_of_pos divide_less_eq)
qed

lemma rnd_shape:
  obtains m where "rnd x = of_int m * 2 powi (ulp_exp x)" "\<bar>m\<bar> \<le> 2 ^ 53"
proof (cases "x = 0")
  case True
  then show ?thesis using that [of 0] by simp
next
  case False
  have "\<bar>half_even (x / 2 powi (ulp_exp x))\<bar> \<le> 2 ^ 53"
    using ulp_ratio [OF False] by (intro half_even_bound) simp
  with False show ?thesis
    using that [of "half_even (x / 2 powi (ulp_exp x))"] by (simp add: rnd_def Let_def)
qed

lemma rnd_idem [simp]: "rnd (rnd x) = rnd x"
proof (rule rnd_shape [of x])
  fix m assume "rnd x = of_int m * 2 powi (ulp_exp x)" "\<bar>m\<bar> \<le> 2 ^ 53"
  then show ?thesis by (rule rnd_representable_le) (simp add: ulp_exp_def)
qed

lemma is_float_rnd [simp, intro]: "is_float (rnd x)"
  by (simp add: is_float_def)

lemma is_float_0 [simp, intro]: "is_float 0"
  by (simp add: is_float_def)

lemma rnd_of_int [simp]: "\<bar>n\<bar> \<le> 2 ^ 53 \<Longrightarrow> rnd (of_int n) = of_int n"
  by (rule rnd_representable_le [where k = 0]) auto

lemma rnd_numeral [simp]: "numeral n \<le> (2 ^ 53 :: int) \<Longrightarrow> rnd (numeral n) = numeral n"
  using rnd_of_int [of "numeral n"] by simp

lemma rnd_1 [simp]: "rnd 1 = 1"
  using rnd_of_int [of 1] by simp

lemma rnd_mono_pos:
  assumes "0 < x" "x \<le> y" shows "rnd x \<le> rnd y"
proof -
  let ?u = "\<lambda>z. (2::rat) powi (ulp_exp z)"
  have y: "0 < y" using assms by simp
  have R: "rnd x = of_int (half_even (x / ?u x)) * ?u x"
    "rnd y = of_int (half_even (y / ?u y)) * ?u y"
    using assms y by (simp_all add: rnd_def Let_def)
  have "expo x \<le> expo y"
    using assms y expo_bounds(1) [of x] by (intro expo_ge) auto
  then have le: "ulp_exp x \<le> ulp_exp y" by (simp add: ulp_exp_def)
  show ?thesis
  proof (cases "ulp_exp x = ulp_exp y")
    case True
    have "half_even (x / ?u x) \<le> half_even (y / ?u y)"
      using assms True by (intro half_even_mono) (simp add: divide_right_mono less_imp_le)
    then show ?thesis unfolding R True by (intro mult_right_mono) (auto intro: less_imp_le)
  next
    case False
    with le have ey: "ulp_exp y = expo y - 52" and lt: "ulp_exp x + 1 \<le> ulp_exp y"
      by (auto simp: ulp_exp_def)
    have "half_even (x / ?u x) \<le> 2 ^ 53"
      using ulp_ratio [of x] assms half_even_bound [of "x / ?u x" "2 ^ 53"] by auto
    then have "rnd x \<le> of_int (2 ^ 53) * ?u x"
      unfolding R by (intro mult_right_mono) (auto intro: less_imp_le simp: of_int_le_iff [symmetric] simp del: of_int_le_iff)
    also have "\<dots> = 2 powi (53 + ulp_exp x)" unfolding powi2_add by (simp add: powi2_nat)
    also have "\<dots> \<le> 2 powi (52 + ulp_exp y)" using lt by (intro powi2_mono) simp
    also have "\<dots> = of_int (2 ^ 52) * ?u y" unfolding powi2_add by (simp add: powi2_nat)
    also have "\<dots> \<le> rnd y"
    proof -
      have "2 powi (52 + ulp_exp y) \<le> y"
        using expo_bounds(1) [of y] y ey by simp
      then have "of_int (2 ^ 52) \<le> y / ?u y"
        unfolding powi2_add by (simp add: le_divide_eq powi2_nat)
      then have "half_even (of_int (2 ^ 52)) \<le> half_even (y / ?u y)" by (rule half_even_mono)
      then have "2 ^ 52 \<le> half_even (y / ?u y)" by (simp only: half_even_of_int)
      then show ?thesis unfolding R
        by (intro mult_right_mono) (auto intro: less_imp_le simp: of_int_le_iff [symmetric] simp del: of_int_le_iff)
    qed
    finally show ?thesis .
  qed
qed

lemma rnd_nonneg [simp]: "0 \<le> x \<Longrightarrow> 0 \<le> rnd x"
proof -
  assume "0 \<le> x"
  then have "0 \<le> x / 2 powi (ulp_exp x)" by (simp add: less_imp_le)
  then have "half_even 0 \<le> half_even (x / 2 powi (ulp_exp x))" by (rule half_even_mono)
  then have "0 \<le> half_even (x / 2 powi (ulp_exp x))" using half_even_of_int [of 0] by simp
  then show ?thesis by (simp add: rnd_def Let_def less_imp_le)
qed

lemma rnd_mono: "x \<le> y \<Longrightarrow> rnd x \<le> rnd y"
proof -
  assume le: "x \<le> y"
  consider "0 < x" | "x \<le> 0" "0 \<le> y" | "y < 0" by linarith
  then show ?thesis
  proof cases
    case 1
    then show ?thesis using le by (rule rnd_mono_pos)
  next
    case 2
    then have "0 \<le> rnd (- x)" "0 \<le> rnd y" by simp_all
    then show ?thesis by (simp add: rnd_minus)
  next
    case 3
    then have "rnd (- y) \<le> rnd (- x)" using le by (intro rnd_mono_pos) auto
    then show ?thesis by (simp add: rnd_minus)
  qed
qed


section \<open>The operations of the source\<close>

definition fadd :: "flt \<Rightarrow> flt \<Rightarrow> flt" where "fadd a b = rnd (a + b)"
definition fsub :: "flt \<Rightarrow> flt \<Rightarrow> flt" where "fsub a b = rnd (a - b)"
definition fmul :: "flt \<Rightarrow> flt \<Rightarrow> flt" where "fmul a b = rnd (a * b)"
definition fdiv :: "flt \<Rightarrow> flt \<Rightarrow> flt" where "fdiv a b = rnd (a / b)"

text \<open>
  \<open>math.isclose(a, b, abs_tol=t)\<close> with its default relative tolerance, as the C
  source of the standard library computes it.
\<close>

definition isclose :: "flt \<Rightarrow> flt \<Rightarrow> flt \<Rightarrow> bool" where
  "isclose a b t =
     (a = b \<or>
      (let d = \<bar>fsub b a\<bar>; rel = rnd (1 / 10 ^ 9)
       in d \<le> \<bar>fmul rel b\<bar> \<or> d \<le> \<bar>fmul rel a\<bar> \<or> d \<le> t))"

text \<open>The tolerances \<open>1e-12\<close> and \<open>1e-9\<close> of the source, as the doubles they are.\<close>

definition eps12 :: flt where "eps12 = rnd (1 / 10 ^ 12)"
definition eps9 :: flt where "eps9 = rnd (1 / 10 ^ 9)"

lemma eps_pos [simp]: "0 < eps12" "0 < eps9" and eps_small: "eps12 < 1 / 100000000000" "eps9 < 1 / 100000000"
  by code_simp+

lemma eps_nonneg [simp]: "0 \<le> eps12" "0 \<le> eps9"
  by (simp_all add: less_imp_le)

lemma is_float_ops [simp, intro]:
  "is_float (fadd a b)" "is_float (fsub a b)" "is_float (fmul a b)" "is_float (fdiv a b)"
  "is_float eps12" "is_float eps9"
  by (simp_all add: fadd_def fsub_def fmul_def fdiv_def eps12_def eps9_def)

lemma fops_zero [simp]:
  "is_float a \<Longrightarrow> fadd a 0 = a" "is_float a \<Longrightarrow> fadd 0 a = a" "is_float a \<Longrightarrow> fsub a 0 = a"
  "fsub a a = 0" "fmul 0 a = 0" "fmul a 0 = 0" "is_float a \<Longrightarrow> fmul 1 a = a" "is_float a \<Longrightarrow> fmul a 1 = a"
  by (simp_all add: fadd_def fsub_def fmul_def is_float_def)

lemma fops_nonneg [intro]:
  "0 \<le> a \<Longrightarrow> 0 \<le> b \<Longrightarrow> 0 \<le> fadd a b" "b \<le> a \<Longrightarrow> 0 \<le> fsub a b"
  "0 \<le> a \<Longrightarrow> 0 \<le> b \<Longrightarrow> 0 \<le> fmul a b"
  by (simp_all add: fadd_def fsub_def fmul_def)

lemma fadd_mono: "a \<le> c \<Longrightarrow> b \<le> d \<Longrightarrow> fadd a b \<le> fadd c d"
  by (simp add: fadd_def rnd_mono)

lemma fsub_mono: "a \<le> c \<Longrightarrow> d \<le> b \<Longrightarrow> fsub a b \<le> fsub c d"
  by (simp add: fsub_def rnd_mono)

lemma fmul_mono: "0 \<le> a \<Longrightarrow> 0 \<le> b \<Longrightarrow> a \<le> c \<Longrightarrow> b \<le> d \<Longrightarrow> fmul a b \<le> fmul c d"
  by (simp add: fmul_def rnd_mono mult_mono)

lemma le_fadd: "is_float a \<Longrightarrow> 0 \<le> b \<Longrightarrow> a \<le> fadd a b"
  using fadd_mono [of a a 0 b] by simp

lemma fsub_le: "is_float a \<Longrightarrow> 0 \<le> b \<Longrightarrow> fsub a b \<le> a"
  using fsub_mono [of a a 0 b] by simp

text \<open>Gradual underflow: the difference of two distinct doubles does not round to zero.\<close>

lemma float_grid: "is_float x \<Longrightarrow> \<exists>m. x = of_int m * 2 powi (- 1074)"
proof (rule rnd_shape [of x])
  fix m assume f: "is_float x" and m: "rnd x = of_int m * 2 powi (ulp_exp x)"
  have k: "0 \<le> ulp_exp x + 1074" by (simp add: ulp_exp_def)
  have "(2::rat) powi (ulp_exp x) = 2 powi (ulp_exp x + 1074) * 2 powi (- 1074)"
    unfolding powi2_add [symmetric] by (simp only: add.assoc) simp
  also have "\<dots> = of_int (2 ^ nat (ulp_exp x + 1074)) * 2 powi (- 1074)"
    by (simp only: powi2_nat [OF k])
  finally have "x = of_int m * (of_int (2 ^ nat (ulp_exp x + 1074)) * 2 powi (- 1074))"
    using f m by (simp only: is_float_def)
  then show ?thesis unfolding mult.assoc [symmetric] of_int_mult [symmetric] by blast
qed

lemma fsub_pos:
  assumes "is_float a" "is_float b" "b < a" shows "0 < fsub a b"
proof -
  define u where "u = (2::rat) powi (- 1074)"
  have u: "0 < u" unfolding u_def by (rule powi2_pos)
  obtain m n where mn: "a = of_int m * u" "b = of_int n * u"
    using float_grid [OF assms(1)] float_grid [OF assms(2)] unfolding u_def by blast
  then have "1 \<le> m - n" using assms(3) u by simp
  then have "of_int 1 * u \<le> of_int (m - n) * u"
    using u by (intro mult_right_mono) (simp_all only: of_int_le_iff less_imp_le)
  then have "u \<le> a - b" using mn by (simp add: left_diff_distrib)
  then have "rnd u \<le> fsub a b" unfolding fsub_def by (rule rnd_mono)
  moreover have "rnd u = u"
    by (rule rnd_representable [where m = 1 and k = "- 1074"]) (simp_all add: u_def del: power_int_minus)
  ultimately show ?thesis using u by linarith
qed

lemma fmul_ge: "is_float a \<Longrightarrow> 0 \<le> a \<Longrightarrow> 1 \<le> b \<Longrightarrow> a \<le> fmul a b"
  using fmul_mono [of a 1 a b] by simp

text \<open>Closed float terms over small numbers evaluate with \<open>float_eval\<close>.\<close>

lemma is_float_numeral [simp]: "numeral n \<le> (2 ^ 53 :: int) \<Longrightarrow> is_float (numeral n)" "is_float 1"
  by (simp_all add: is_float_def)

lemma rnd_dyadic: "\<bar>m\<bar> < 2 ^ 53 \<Longrightarrow> k \<le> 1074 \<Longrightarrow> rnd (of_int m / 2 ^ k) = of_int m / 2 ^ k"
  by (rule rnd_representable [where m = m and k = "- int k"])
     (simp_all add: power_int_minus power_int_of_nat field_simps)

lemma rnd_quarters [simp]: "rnd (1 / 2) = 1 / 2" "rnd (1 / 4) = 1 / 4" "rnd (3 / 4) = 3 / 4"
  using rnd_dyadic [of 1 1] rnd_dyadic [of 1 2] rnd_dyadic [of 3 2] by simp_all

lemma le_fadd_eps9: "is_float b \<Longrightarrow> a \<le> b \<Longrightarrow> a \<le> fadd b eps9"
  using le_fadd [of b eps9] by (simp add: less_imp_le)

lemma fadd_eps9_less: "fadd b 1 < a \<Longrightarrow> fadd b eps9 < a"
  using fadd_mono [of b b eps9 1] eps_small by simp

lemmas float_eval = fadd_def fsub_def fmul_def

section \<open>Rounding as an interface: the drift of a ledger\<close>

text \<open>
  A ledger keeps a running float \<open>r\<close> beside the exact sum \<open>S\<close> of the amounts it
  currently holds.  Each time an amount is added or returned, \<open>r\<close> moves away from
  \<open>S\<close> by at most \<open>err B\<close>, where \<open>B\<close> bounds the magnitudes; clamping at zero never
  moves it away.
\<close>

locale rounding =
  fixes rd :: "rat \<Rightarrow> rat" and u :: rat and t :: rat
  assumes rd_mono: "x \<le> y \<Longrightarrow> rd x \<le> rd y"
    and rd_error: "\<bar>rd x - x\<bar> \<le> \<bar>x\<bar> * u + t"
    and u_nonneg: "0 \<le> u" and t_nonneg: "0 \<le> t"
begin

lemma rd_bounded: "\<bar>x\<bar> \<le> B \<Longrightarrow> \<bar>rd x - x\<bar> \<le> B * u + t"
  using rd_error [of x] mult_right_mono [OF _ u_nonneg, of "\<bar>x\<bar>" B] by linarith

lemma ledger_add:
  "\<bar>r - S\<bar> \<le> e \<Longrightarrow> \<bar>r + x\<bar> \<le> B \<Longrightarrow> \<bar>rd (r + x) - (S + x)\<bar> \<le> e + (B * u + t)"
  using rd_bounded [of "r + x" B] by linarith

lemma ledger_remove:
  "\<bar>r - S\<bar> \<le> e \<Longrightarrow> \<bar>r - x\<bar> \<le> B \<Longrightarrow> \<bar>rd (r - x) - (S - x)\<bar> \<le> e + (B * u + t)"
  using rd_bounded [of "r - x" B] by linarith

lemma ledger_remove_clamped:
  "\<bar>r - S\<bar> \<le> e \<Longrightarrow> \<bar>r - x\<bar> \<le> B \<Longrightarrow> x \<le> S \<Longrightarrow>
     \<bar>max 0 (rd (r - x)) - (S - x)\<bar> \<le> e + (B * u + t)"
  using ledger_remove [of r S e x B] by linarith

end

interpretation f64: rounding rnd "1 / 2 ^ 53" tiny
proof
  show "\<bar>rnd x - x\<bar> \<le> \<bar>x\<bar> * (1 / 2 ^ 53) + tiny" for x
    using rnd_error [of x] by simp
qed (auto intro: rnd_mono simp: tiny_def)

text \<open>\<open>half_ulp B\<close> bounds the error of one operation whose exact result is at most \<open>B\<close>.\<close>

definition half_ulp :: "rat \<Rightarrow> rat" where
  "half_ulp B = B * (1 / 2 ^ 53) + tiny"

lemma half_ulp_nonneg: "0 \<le> B \<Longrightarrow> 0 \<le> half_ulp B"
  by (simp add: half_ulp_def tiny_def)

lemma half_ulp_le: "half_ulp B \<le> (B + 1) / 2 ^ 53"
proof -
  have "tiny \<le> 2 powi (- 53)" unfolding tiny_def by (rule powi2_mono) simp
  also have "(2::rat) powi (- 53) = 1 / 2 ^ 53" by (simp add: power_int_minus field_simps)
  finally show ?thesis by (simp add: half_ulp_def add_divide_distrib)
qed

lemma fadd_error: "\<bar>a + b\<bar> \<le> B \<Longrightarrow> \<bar>fadd a b - (a + b)\<bar> \<le> half_ulp B"
  and fsub_error: "\<bar>a - b\<bar> \<le> B \<Longrightarrow> \<bar>fsub a b - (a - b)\<bar> \<le> half_ulp B"
  and fmul_error: "\<bar>a * b\<bar> \<le> B \<Longrightarrow> \<bar>fmul a b - a * b\<bar> \<le> half_ulp B"
  by (simp_all only: fadd_def fsub_def fmul_def half_ulp_def f64.rd_bounded)

lemma ledger_fadd [ledger_intros]:
  "\<bar>r - S\<bar> \<le> e \<Longrightarrow> \<bar>r + x\<bar> \<le> B \<Longrightarrow> \<bar>fadd r x - (S + x)\<bar> \<le> e + half_ulp B"
  by (simp only: fadd_def half_ulp_def f64.ledger_add)

lemma ledger_fsub [ledger_intros]:
  "\<bar>r - S\<bar> \<le> e \<Longrightarrow> \<bar>r - x\<bar> \<le> B \<Longrightarrow> \<bar>fsub r x - (S - x)\<bar> \<le> e + half_ulp B"
  by (simp only: fsub_def half_ulp_def f64.ledger_remove)

lemma ledger_fsub_clamped [ledger_intros]:
  "\<bar>r - S\<bar> \<le> e \<Longrightarrow> \<bar>r - x\<bar> \<le> B \<Longrightarrow> x \<le> S \<Longrightarrow>
     \<bar>max 0 (fsub r x) - (S - x)\<bar> \<le> e + half_ulp B"
  by (simp only: fsub_def half_ulp_def f64.ledger_remove_clamped)

end
