(* ===== verification/Models.thy ===== *)
theory Models
  imports PyFloat
begin

text \<open>
  The data contracts of \<open>app/models.py\<close>, the enumeration of
  \<open>app/complexity_classifier.py\<close>, the exceptions the modules raise, and the
  tunables of \<open>app/config.py\<close>.

  Prompts and identifiers are HOL strings; classification reads a character as the code
  point below 256 it stands for.  A Python exception is a value of \<open>exc\<close>, and a function that may raise returns
  \<open>exc + 'a\<close>.
\<close>

section \<open>Enumerations\<close>

datatype complexity_tier = FAST | QUALITY

datatype route_decision = LOCAL | REMOTE | QUEUE_LOCAL | FAIL_FAST

fun route_value :: "route_decision \<Rightarrow> string" where
  "route_value LOCAL = ''LOCAL''"
| "route_value REMOTE = ''REMOTE''"
| "route_value QUEUE_LOCAL = ''QUEUE_LOCAL''"
| "route_value FAIL_FAST = ''FAIL_FAST''"

fun tier_value :: "complexity_tier \<Rightarrow> string" where
  "tier_value FAST = ''FAST''"
| "tier_value QUALITY = ''QUALITY''"

lemma route_value_inject [simp]: "route_value r = route_value s \<longleftrightarrow> r = s"
  by (cases r; cases s) simp_all

section \<open>Exceptions\<close>

text \<open>
  \<open>ActualCostExceeded\<close> and \<open>ActualLatencyExceeded\<close> carry the two numbers their
  messages print; \<open>HttpUnreachable\<close> (\<open>httpx.TimeoutException\<close> and
  \<open>httpx.ConnectError\<close>) and \<open>OtherException\<close> carry the name of the class and the
  message.  \<open>CancelledError\<close> is the one exception here that is not an \<open>Exception\<close> in Python (it
  derives from \<open>BaseException\<close>).
\<close>

datatype exc =
    ValueError string
  | RuntimeError string
  | InvalidReservationState string
  | ActualCostExceeded flt flt
  | ActualLatencyExceeded flt flt
  | KeyError string
  | RemoteInferenceError string
  | TransientRemoteError string
  | RetryError string
  | HttpUnreachable string string
  | OtherException string string
  | CancelledError

section \<open>HTTP schemas and snapshots\<close>

record inference_request =
  request_id :: string
  prompt :: string
  latency_budget_ms :: flt
  req_complexity_tier :: "complexity_tier option"

definition validate_request :: "inference_request \<Rightarrow> bool" where
  "validate_request r \<longleftrightarrow> 1 \<le> length (prompt r) \<and> 0 < latency_budget_ms r"

record backend_result =
  br_actual_cost :: flt
  br_actual_latency_ms :: flt
  br_prompt_tokens :: int
  br_completion_tokens :: int
  br_cache_read_tokens :: int
  br_cache_write_tokens :: int
  br_result :: string

record inference_response =
  resp_request_id :: string
  resp_route :: route_decision
  resp_complexity_tier :: complexity_tier
  resp_actual_cost :: flt
  resp_actual_latency_ms :: flt
  resp_prompt_tokens :: int
  resp_completion_tokens :: int
  resp_cache_read_tokens :: int
  resp_cache_write_tokens :: int
  resp_result :: string
  resp_budget_remaining :: flt

record budget_snapshot =
  snap_cumulative_cost :: flt
  snap_reserved :: flt
  snap_remaining :: flt
  snap_cumulative_latency_ms :: flt
  snap_reserved_latency_ms :: flt

record resource_state =
  remote_budget_max :: flt
  remote_budget_spent :: flt
  remote_budget_reserved :: flt
  remote_budget_remaining :: flt
  latency_max_ms :: flt
  latency_committed_ms :: flt
  latency_reserved_ms :: flt
  latency_remaining_ms :: flt
  local_capacity_max :: int
  local_capacity_active :: int
  local_capacity_available :: int
  estimated_local_latency_ms :: flt
  estimated_remote_latency_ms :: flt
  active_reservation_total :: nat

section \<open>Configuration\<close>

record config =
  MAX_REMOTE_BUDGET :: flt
  COST_PER_REMOTE_REQUEST :: flt
  MAX_CUMULATIVE_LATENCY_MS :: flt
  AVG_LOCAL_LATENCY_MS :: flt
  AVG_REMOTE_LATENCY_MS :: flt
  LOCAL_QUEUE_CAPACITY :: int
  EMA_ALPHA :: flt
  LATENCY_WINDOW_SIZE :: nat
  RESERVATION_TTL_SECONDS :: flt
  REAPER_INTERVAL_SECONDS :: flt
  OLLAMA_BASE_URL :: string
  OLLAMA_MODEL :: string
  OLLAMA_TIMEOUT_SECONDS :: flt
  REMOTE_LLM_API_KEY :: string
  REMOTE_LLM_BASE_URL :: string
  REMOTE_LLM_MODEL :: string
  REMOTE_LLM_TIMEOUT_SECONDS :: flt
  REMOTE_LLM_INPUT_PRICE_PER_TOKEN :: flt
  REMOTE_LLM_OUTPUT_PRICE_PER_TOKEN :: flt
  REMOTE_LLM_CACHE_READ_PRICE_PER_TOKEN :: flt
  REMOTE_LLM_CACHE_WRITE_PRICE_PER_TOKEN :: flt
  BACKEND_MODE :: string

text \<open>
  The values when no environment variable is set.  A decimal literal is the double nearest to
  it; \<open>10.00 / 1_000_000\<close> is a float division, and printing and re-reading it
  through \<open>str\<close> and \<open>float\<close> gives the same double.
\<close>

definition default_config :: config where
  "default_config =
     \<lparr> MAX_REMOTE_BUDGET = 5,
       COST_PER_REMOTE_REQUEST = rnd (15 / 100),
       MAX_CUMULATIVE_LATENCY_MS = 600000,
       AVG_LOCAL_LATENCY_MS = 250,
       AVG_REMOTE_LATENCY_MS = 800,
       LOCAL_QUEUE_CAPACITY = 8,
       EMA_ALPHA = 1 / 4,
       LATENCY_WINDOW_SIZE = 5,
       RESERVATION_TTL_SECONDS = 45,
       REAPER_INTERVAL_SECONDS = 5,
       OLLAMA_BASE_URL = ''http://localhost:11434'',
       OLLAMA_MODEL = ''my-nemotron:latest'',
       OLLAMA_TIMEOUT_SECONDS = 120,
       REMOTE_LLM_API_KEY = [],
       REMOTE_LLM_BASE_URL = ''https://api.tokenrouter.com/v1'',
       REMOTE_LLM_MODEL = ''qwen/qwen3.8-max-free'',
       REMOTE_LLM_TIMEOUT_SECONDS = 30,
       REMOTE_LLM_INPUT_PRICE_PER_TOKEN = fdiv 10 1000000,
       REMOTE_LLM_OUTPUT_PRICE_PER_TOKEN = fdiv 50 1000000,
       REMOTE_LLM_CACHE_READ_PRICE_PER_TOKEN = fdiv 1 1000000,
       REMOTE_LLM_CACHE_WRITE_PRICE_PER_TOKEN = fdiv (25 / 2) 1000000,
       BACKEND_MODE = ''real'' \<rparr>"

end
