(* ===== verification/Observability.thy ===== *)
theory Observability
  imports Models "HOL-Library.Multiset"
begin

text \<open>
  The state of \<open>app/observability.py\<close>: the in-process trace of lock events, a list
  capped at 4096 entries, and the clipping of floating-point noise.  Budget operations
  return the \<open>(id, phase, action)\<close> triples of the \<open>lock_event\<close> calls they
  make, in order; \<open>record_events\<close> stamps and stores them.
\<close>

datatype phase = Reserve_phase | Settle_phase
datatype action = Acquire | Release

type_synonym lock_call = "string \<times> phase \<times> action"
type_synonym lock_entry = "flt \<times> lock_call"

definition clip :: "flt \<Rightarrow> flt" where
  "clip v = (if \<bar>v\<bar> < eps9 then 0 else v)"

definition MAX_TRACE_ENTRIES :: nat where
  "MAX_TRACE_ENTRIES = 4096"

text \<open>\<open>lock_event\<close>: drop the oldest entry when the list is full, then append.\<close>

definition lock_event :: "lock_entry \<Rightarrow> lock_entry list \<Rightarrow> lock_entry list" where
  "lock_event e trace =
     (let trace' = (if MAX_TRACE_ENTRIES \<le> length trace then tl trace else trace)
      in trace' @ [e])"

definition get_lock_trace :: "lock_entry list \<Rightarrow> lock_entry list" where
  "get_lock_trace trace = sort_key fst trace"

definition clear_lock_trace :: "lock_entry list \<Rightarrow> lock_entry list" where
  "clear_lock_trace trace = []"

interpretation lock_trace: bounded_buffer lock_event "\<lambda>tr. tr" "\<lambda>_. MAX_TRACE_ENTRIES"
proof
  fix b :: "lock_entry list" and x
  assume "length b \<le> MAX_TRACE_ENTRIES"
  then show "lock_event x b = take_last MAX_TRACE_ENTRIES (b @ [x])"
    by (cases "length b = MAX_TRACE_ENTRIES")
       (auto simp: lock_event_def take_last_def MAX_TRACE_ENTRIES_def tl_def drop_Suc
             split: list.splits)
qed simp

section \<open>Properties\<close>

text \<open>
  C26: The lock trace keeps the newest events.  After any sequence of lock events since the trace was
  cleared, \<open>/trace\<close> shows exactly the last 4096 of them, in the order of their timestamps; when the
  clock did not go backwards that is the order in which they happened.
\<close>

theorem trace_keeps_newest:
  assumes "tr = get_lock_trace (fold lock_event events (clear_lock_trace old))"
  shows "sorted (map fst tr) \<and> mset tr = mset (take_last MAX_TRACE_ENTRIES events) \<and>
         (sorted (map fst events) \<longrightarrow> tr = take_last MAX_TRACE_ENTRIES events)"
proof -
  have c: "fold lock_event events (clear_lock_trace old) = take_last MAX_TRACE_ENTRIES events"
    using lock_trace.contents_pushes [of "[]" events] by (simp add: clear_lock_trace_def)
  have "sorted (map fst (take_last MAX_TRACE_ENTRIES events))" if "sorted (map fst events)"
    using that by (simp add: take_last_def sorted_wrt_drop flip: drop_map)
  then show ?thesis
    by (auto simp: assms get_lock_trace_def c sorted_sort_key sort_key_id_if_sorted)
qed

theorem trace_keeps_newest_witness:
  "get_lock_trace (fold lock_event [(1, ''a'', Reserve_phase, Acquire), (2, ''a'', Reserve_phase, Release)] []) =
     [(1, ''a'', Reserve_phase, Acquire), (2, ''a'', Reserve_phase, Release)]"
  using trace_keeps_newest [of _ "[(1, ''a'', Reserve_phase, Acquire), (2, ''a'', Reserve_phase, Release)]" "[]", OF refl]
  by (simp add: clear_lock_trace_def MAX_TRACE_ENTRIES_def)

end
