(* ===== verification/Budget_Manager.thy ===== *)
theory Budget_Manager
  imports Observability
begin

text \<open>
  \<open>app/budget_manager.py\<close>: the two-phase reservation protocol.

  Every critical section of the class runs under one \<open>asyncio.Lock\<close> and contains no
  suspension point, so each operation is one atomic function on the state.  The dictionary
  of active reservations maps an identifier to a \<^emph>\<open>reference\<close> into the store of
  \<open>Reservation\<close> objects: the caller of \<open>try_reserve\<close> holds the same object as the
  manager, and sees the manager change its \<open>_state\<close>.  Objects are never freed, so
  \<open>objects\<close> also counts the reservations ever made.

  Each operation returns the new state, its result or exception, and the
  \<open>lock_event\<close> calls it makes.  The clock readings (\<open>time.monotonic\<close>) and the
  fresh identifier (\<open>uuid.uuid4\<close>) are arguments.
\<close>

section \<open>State\<close>

datatype res_state = Pending | Committed | RolledBack

record reservation =
  reserved_cost :: flt
  reserved_latency_ms :: flt
  ttl_seconds :: flt
  res_id :: string
  created_at :: flt
  res_state :: res_state

record bm =
  max_remote_budget :: flt
  max_cumulative_latency_ms :: flt
  reservation_ttl_seconds :: flt
  cumulative_remote_cost :: flt
  reserved_for_execution :: flt
  cumulative_actual_latency_ms :: flt
  bm_reserved_latency_ms :: flt
  active_reservations :: "(string \<times> nat) list"
  objects :: "reservation list"

definition init_bm :: "flt \<Rightarrow> flt \<Rightarrow> flt \<Rightarrow> exc + bm" where
  "init_bm mb ml ttl =
     (if mb \<le> 0 then Inl (ValueError ''max_remote_budget must be strictly positive'')
      else Inr \<lparr> max_remote_budget = mb, max_cumulative_latency_ms = ml,
                 reservation_ttl_seconds = ttl, cumulative_remote_cost = 0,
                 reserved_for_execution = 0, cumulative_actual_latency_ms = 0,
                 bm_reserved_latency_ms = 0, active_reservations = [], objects = [] \<rparr>)"

definition is_expired :: "flt \<Rightarrow> reservation \<Rightarrow> bool" where
  "is_expired now r \<longleftrightarrow> ttl_seconds r < fsub now (created_at r)"

definition remaining_budget :: "bm \<Rightarrow> flt" where
  "remaining_budget b = max 0 (fsub (max_remote_budget b) (cumulative_remote_cost b))"

definition liquid_budget :: "bm \<Rightarrow> flt" where
  "liquid_budget b =
     max 0 (fsub (fsub (max_remote_budget b) (cumulative_remote_cost b)) (reserved_for_execution b))"

definition active_reservation_count :: "bm \<Rightarrow> nat" where
  "active_reservation_count b = length (active_reservations b)"

text \<open>The assignment \<open>reservation._state = s\<close> on the object at \<open>ref\<close>.\<close>

definition set_state :: "nat \<Rightarrow> res_state \<Rightarrow> bm \<Rightarrow> bm" where
  "set_state ref s b = b\<lparr>objects := (objects b)[ref := (objects b ! ref)\<lparr>res_state := s\<rparr>]\<rparr>"

section \<open>Phase 1: reserve\<close>

definition try_reserve ::
  "flt \<Rightarrow> string \<Rightarrow> string \<Rightarrow> flt \<Rightarrow> flt \<Rightarrow> bm
     \<Rightarrow> bm \<times> (exc + nat option) \<times> lock_call list" where
  "try_reserve now uuid req cost lat b =
     (if cost < 0 \<or> lat < 0 then
        (b, Inl (ValueError ''cost and projected_latency_ms must be non-negative''), [])
      else if cost = 0 \<and> lat = 0 then
        (b, Inl (ValueError ''At least one of cost or projected_latency_ms must be > 0''), [])
      else
        let calls = [(req, Reserve_phase, Acquire), (req, Reserve_phase, Release)];
            liquid = fsub (fsub (max_remote_budget b) (cumulative_remote_cost b))
                          (reserved_for_execution b);
            latency_remaining =
              fsub (fsub (max_cumulative_latency_ms b) (cumulative_actual_latency_ms b))
                   (bm_reserved_latency_ms b)
        in if liquid < fsub cost eps12 \<or> latency_remaining < fsub lat eps12
           then (b, Inr None, calls)
           else
             let ref = length (objects b);
                 r = \<lparr> reserved_cost = cost, reserved_latency_ms = lat,
                       ttl_seconds = reservation_ttl_seconds b, res_id = uuid,
                       created_at = now, res_state = Pending \<rparr>
             in (b\<lparr> reserved_for_execution := fadd (reserved_for_execution b) cost,
                    bm_reserved_latency_ms := fadd (bm_reserved_latency_ms b) lat,
                    active_reservations := AList.update uuid ref (active_reservations b),
                    objects := objects b @ [r] \<rparr>,
                 Inr (Some ref), calls))"

section \<open>Phase 2: settle\<close>

text \<open>
  The two ways the code releases what a reservation holds: the guards of \<open>_commit\<close>
  subtract, every other path subtracts and clamps at zero.
\<close>

definition release_plain :: "string \<Rightarrow> nat \<Rightarrow> bm \<Rightarrow> bm" where
  "release_plain rid ref b =
     (let r = objects b ! ref in
      b\<lparr> active_reservations := AList.delete rid (active_reservations b),
         reserved_for_execution := fsub (reserved_for_execution b) (reserved_cost r),
         bm_reserved_latency_ms := fsub (bm_reserved_latency_ms b) (reserved_latency_ms r) \<rparr>)"

definition release_clamped :: "string \<Rightarrow> nat \<Rightarrow> bm \<Rightarrow> bm" where
  "release_clamped rid ref b =
     (let r = objects b ! ref in
      b\<lparr> active_reservations := AList.delete rid (active_reservations b),
         reserved_for_execution := max 0 (fsub (reserved_for_execution b) (reserved_cost r)),
         bm_reserved_latency_ms := max 0 (fsub (bm_reserved_latency_ms b) (reserved_latency_ms r)) \<rparr>)"

definition settle_calls :: "string \<Rightarrow> lock_call list" where
  "settle_calls rid = [(rid, Settle_phase, Acquire), (rid, Settle_phase, Release)]"

definition commit :: "string \<Rightarrow> flt \<Rightarrow> flt \<Rightarrow> bm \<Rightarrow> bm \<times> (exc + unit) \<times> lock_call list" where
  "commit rid actual_cost actual_latency b =
     (case map_of (active_reservations b) rid of
        None \<Rightarrow> (b, Inl (InvalidReservationState rid), settle_calls rid)
      | Some ref \<Rightarrow>
          let r = objects b ! ref in
          if fadd (reserved_cost r) eps9 < actual_cost then
            (release_plain rid ref (set_state ref RolledBack b),
             Inl (ActualCostExceeded actual_cost (reserved_cost r)), settle_calls rid)
          else if fadd (max_cumulative_latency_ms b) eps9
                  < fadd (cumulative_actual_latency_ms b) actual_latency then
            (release_plain rid ref (set_state ref RolledBack b),
             Inl (ActualLatencyExceeded actual_latency (max_cumulative_latency_ms b)),
             settle_calls rid)
          else
            let b' = release_clamped rid ref (set_state ref Committed b)
            in (b'\<lparr> cumulative_remote_cost := fadd (cumulative_remote_cost b') actual_cost,
                    cumulative_actual_latency_ms :=
                      fadd (cumulative_actual_latency_ms b') actual_latency \<rparr>,
                Inr (), settle_calls rid))"

definition rollback :: "string \<Rightarrow> bm \<Rightarrow> bm \<times> (exc + unit) \<times> lock_call list" where
  "rollback rid b =
     (case map_of (active_reservations b) rid of
        None \<Rightarrow> (b, Inl (InvalidReservationState rid), settle_calls rid)
      | Some ref \<Rightarrow>
          (release_clamped rid ref (set_state ref RolledBack b), Inr (), settle_calls rid))"

text \<open>\<open>Reservation.commit\<close> and \<open>Reservation.rollback\<close> on the object at \<open>ref\<close>.\<close>

definition reservation_commit ::
  "nat \<Rightarrow> flt \<Rightarrow> flt \<Rightarrow> bm \<Rightarrow> bm \<times> (exc + unit) \<times> lock_call list" where
  "reservation_commit ref ac al b = commit (res_id (objects b ! ref)) ac al b"

definition reservation_rollback :: "nat \<Rightarrow> bm \<Rightarrow> bm \<times> (exc + unit) \<times> lock_call list" where
  "reservation_rollback ref b = rollback (res_id (objects b ! ref)) b"

definition snapshot :: "bm \<Rightarrow> budget_snapshot" where
  "snapshot b =
     \<lparr> snap_cumulative_cost = cumulative_remote_cost b,
       snap_reserved = reserved_for_execution b,
       snap_remaining =
         max 0 (fsub (fsub (max_remote_budget b) (cumulative_remote_cost b)) (reserved_for_execution b)),
       snap_cumulative_latency_ms = cumulative_actual_latency_ms b,
       snap_reserved_latency_ms = bm_reserved_latency_ms b \<rparr>"

section \<open>The reaper\<close>

text \<open>
  The loop runs over a copy of the items taken before it starts; \<open>clock i\<close> is the
  reading of \<open>time.monotonic\<close> in its \<open>i\<close>-th round.
\<close>

fun expire_loop :: "(nat \<Rightarrow> flt) \<Rightarrow> nat \<Rightarrow> (string \<times> nat) list \<Rightarrow> bm \<Rightarrow> bm \<times> string list" where
  "expire_loop clock i [] b = (b, [])"
| "expire_loop clock i ((rid, ref) # items) b =
     (if is_expired (clock i) (objects b ! ref)
      then let (b', ids) =
                 expire_loop clock (Suc i) items
                   (release_clamped rid ref (set_state ref RolledBack b))
           in (b', rid # ids)
      else expire_loop clock (Suc i) items b)"

definition expire_stale_reservations :: "(nat \<Rightarrow> flt) \<Rightarrow> bm \<Rightarrow> bm \<times> string list" where
  "expire_stale_reservations clock b = expire_loop clock 0 (active_reservations b) b"

lemmas bm_op_defs [component_defs] =
  try_reserve_def commit_def rollback_def expire_stale_reservations_def

lemmas release_defs = release_plain_def release_clamped_def set_state_def Let_def


section \<open>Operations as a machine\<close>

datatype bm_op =
    Op_reserve flt string string flt flt
  | Op_commit string flt flt
  | Op_rollback string
  | Op_expire "nat \<Rightarrow> flt"

fun bm_step :: "bm \<Rightarrow> bm_op \<Rightarrow> bm" where
  "bm_step b (Op_reserve now uuid req cost lat) = fst (try_reserve now uuid req cost lat b)"
| "bm_step b (Op_commit rid ac al) = fst (commit rid ac al b)"
| "bm_step b (Op_rollback rid) = fst (rollback rid b)"
| "bm_step b (Op_expire clock) = fst (expire_stale_reservations clock b)"

text \<open>What \<open>uuid.uuid4\<close> guarantees: a new identifier is the identifier of no object.\<close>

fun fresh_op :: "bm \<Rightarrow> bm_op \<Rightarrow> bool" where
  "fresh_op b (Op_reserve now uuid req cost lat) = (uuid \<notin> res_id ` set (objects b))"
| "fresh_op b _ = True"

section \<open>The table of active reservations\<close>

text \<open>
  The dictionary and the objects agree: a key is the identifier of the object it refers to, and
  the objects that are pending are exactly those the dictionary refers to.
\<close>

definition wf_table :: "(string \<times> nat) list \<Rightarrow> reservation list \<Rightarrow> bool" where
  "wf_table act objs \<longleftrightarrow>
     distinct (map fst act) \<and> distinct (map res_id objs) \<and>
     (\<forall>(k, ref) \<in> set act. ref < length objs \<and> res_id (objs ! ref) = k) \<and>
     (\<forall>ref < length objs.
        res_state (objs ! ref) = Pending \<longleftrightarrow> (res_id (objs ! ref), ref) \<in> set act)"

definition bm_wf :: "bm \<Rightarrow> bool" where
  "bm_wf b \<longleftrightarrow> wf_table (active_reservations b) (objects b)"

lemma wf_tableD:
  assumes "wf_table act objs"
  shows "distinct (map fst act)" and "distinct (map res_id objs)"
    and "(k, ref) \<in> set act \<Longrightarrow> ref < length objs"
    and "(k, ref) \<in> set act \<Longrightarrow> res_id (objs ! ref) = k"
    and "(k, ref) \<in> set act \<Longrightarrow> res_state (objs ! ref) = Pending"
    and "ref < length objs \<Longrightarrow> res_state (objs ! ref) = Pending \<Longrightarrow> (res_id (objs ! ref), ref) \<in> set act"
  using assms by (auto simp: wf_table_def)

lemma wf_table_Nil [simp]: "wf_table [] []"
  by (simp add: wf_table_def)

lemma wf_table_reserve:
  assumes wf: "wf_table act objs" and fresh: "res_id r \<notin> res_id ` set objs"
    and pend: "res_state r = Pending"
  shows "wf_table (AList.update (res_id r) (length objs) act) (objs @ [r])"
proof -
  have "res_id r \<notin> fst ` set act"
  proof
    assume "res_id r \<in> fst ` set act"
    then obtain ref where mem: "(res_id r, ref) \<in> set act" by auto
    have "ref < length objs" "res_id (objs ! ref) = res_id r"
      using wf_tableD(3,4) [OF wf mem] by auto
    then show False using fresh by (metis image_eqI nth_mem)
  qed
  then have upd: "AList.update (res_id r) (length objs) act = act @ [(res_id r, length objs)]"
    by (rule alist_update_fresh)
  let ?objs = "objs @ [r]" and ?act = "act @ [(res_id r, length objs)]"
  have key: "ref < length ?objs \<and> res_id (?objs ! ref) = k" if "(k, ref) \<in> set ?act" for k ref
    using that wf_tableD(3,4) [OF wf, of k ref] by (auto simp: nth_append)
  have pending: "res_state (?objs ! ref) = Pending \<longleftrightarrow> (res_id (?objs ! ref), ref) \<in> set ?act"
    if ref: "ref < length ?objs" for ref
  proof (cases "ref = length objs")
    case True
    then show ?thesis using pend by simp
  next
    case False
    with ref have "ref < length objs" by simp
    then show ?thesis using wf False by (simp add: wf_table_def nth_append)
  qed
  have "distinct (map fst ?act)" "distinct (map res_id ?objs)"
    using wf_tableD(1,2) [OF wf] fresh \<open>res_id r \<notin> fst ` set act\<close> by auto
  with key pending show ?thesis unfolding wf_table_def upd by blast
qed

lemma wf_table_settle:
  assumes wf: "wf_table act objs" and k: "map_of act k = Some ref" and s: "s \<noteq> Pending"
  shows "wf_table (AList.delete k act) (objs[ref := (objs ! ref)\<lparr>res_state := s\<rparr>])"
proof -
  have mem: "(k, ref) \<in> set act" using k by (rule map_of_SomeD)
  have ref: "ref < length objs" "res_id (objs ! ref) = k"
    using wf_tableD [OF wf] mem by auto
  let ?objs = "objs[ref := (objs ! ref)\<lparr>res_state := s\<rparr>]"
  have id: "res_id (?objs ! i) = res_id (objs ! i)" for i
    using ref by (cases "i = ref") auto
  then have ids: "map res_id ?objs = map res_id objs"
    by (intro nth_equalityI) auto
  have del: "set (AList.delete k act) = {p \<in> set act. fst p \<noteq> k}"
    using wf_tableD(1) [OF wf] by (rule alist_delete_set)
  have "res_state (?objs ! i) = Pending \<longleftrightarrow> (res_id (objs ! i), i) \<in> set (AList.delete k act)"
    if i: "i < length objs" for i
  proof (cases "i = ref")
    case True
    then show ?thesis using ref s by (simp add: del)
  next
    case False
    have "res_id (objs ! i) \<noteq> k"
      using wf_tableD(2) [OF wf] i ref False by (metis length_map nth_eq_iff_index_eq nth_map)
    then show ?thesis using wf i False by (simp add: del wf_table_def)
  qed
  then show ?thesis
    using wf wf_tableD(1) [OF wf] unfolding wf_table_def id ids
    by (auto simp: del distinct_delete)
qed

lemma set_state_simps [simp]:
  "max_remote_budget (set_state ref s b) = max_remote_budget b"
  "max_cumulative_latency_ms (set_state ref s b) = max_cumulative_latency_ms b"
  "reservation_ttl_seconds (set_state ref s b) = reservation_ttl_seconds b"
  "cumulative_remote_cost (set_state ref s b) = cumulative_remote_cost b"
  "reserved_for_execution (set_state ref s b) = reserved_for_execution b"
  "cumulative_actual_latency_ms (set_state ref s b) = cumulative_actual_latency_ms b"
  "bm_reserved_latency_ms (set_state ref s b) = bm_reserved_latency_ms b"
  "active_reservations (set_state ref s b) = active_reservations b"
  "objects (set_state ref s b) = (objects b)[ref := (objects b ! ref)\<lparr>res_state := s\<rparr>]"
  by (simp_all add: set_state_def)

lemma release_simps [simp]:
  "max_remote_budget (release_plain k ref b) = max_remote_budget b"
  "max_remote_budget (release_clamped k ref b) = max_remote_budget b"
  "max_cumulative_latency_ms (release_plain k ref b) = max_cumulative_latency_ms b"
  "max_cumulative_latency_ms (release_clamped k ref b) = max_cumulative_latency_ms b"
  "reservation_ttl_seconds (release_plain k ref b) = reservation_ttl_seconds b"
  "reservation_ttl_seconds (release_clamped k ref b) = reservation_ttl_seconds b"
  "cumulative_remote_cost (release_plain k ref b) = cumulative_remote_cost b"
  "cumulative_remote_cost (release_clamped k ref b) = cumulative_remote_cost b"
  "cumulative_actual_latency_ms (release_plain k ref b) = cumulative_actual_latency_ms b"
  "cumulative_actual_latency_ms (release_clamped k ref b) = cumulative_actual_latency_ms b"
  "active_reservations (release_plain k ref b) = AList.delete k (active_reservations b)"
  "active_reservations (release_clamped k ref b) = AList.delete k (active_reservations b)"
  "objects (release_plain k ref b) = objects b"
  "objects (release_clamped k ref b) = objects b"
  by (simp_all add: release_plain_def release_clamped_def Let_def)

text \<open>One case per exit of \<open>try_reserve\<close> and of \<open>_commit\<close>.\<close>

definition admits :: "flt \<Rightarrow> flt \<Rightarrow> bm \<Rightarrow> bool" where
  "admits cost lat b \<longleftrightarrow>
     fsub cost eps12
       \<le> fsub (fsub (max_remote_budget b) (cumulative_remote_cost b)) (reserved_for_execution b) \<and>
     fsub lat eps12
       \<le> fsub (fsub (max_cumulative_latency_ms b) (cumulative_actual_latency_ms b))
              (bm_reserved_latency_ms b)"

definition with_reservation :: "flt \<Rightarrow> string \<Rightarrow> flt \<Rightarrow> flt \<Rightarrow> bm \<Rightarrow> bm" where
  "with_reservation now uuid cost lat b =
     b\<lparr> reserved_for_execution := fadd (reserved_for_execution b) cost,
        bm_reserved_latency_ms := fadd (bm_reserved_latency_ms b) lat,
        active_reservations := AList.update uuid (length (objects b)) (active_reservations b),
        objects := objects b @
          [\<lparr> reserved_cost = cost, reserved_latency_ms = lat,
             ttl_seconds = reservation_ttl_seconds b, res_id = uuid,
             created_at = now, res_state = Pending \<rparr>] \<rparr>"

lemma try_reserve_cases:
  obtains (invalid) e where "cost < 0 \<or> lat < 0 \<or> cost = 0 \<and> lat = 0"
      "try_reserve now uuid req cost lat b = (b, Inl e, [])"
  | (refused) "0 \<le> cost" "0 \<le> lat" "\<not> admits cost lat b"
      "try_reserve now uuid req cost lat b =
         (b, Inr None, [(req, Reserve_phase, Acquire), (req, Reserve_phase, Release)])"
  | (granted) "0 \<le> cost" "0 \<le> lat" "0 < cost \<or> 0 < lat" "admits cost lat b"
      "try_reserve now uuid req cost lat b =
         (with_reservation now uuid cost lat b, Inr (Some (length (objects b))),
          [(req, Reserve_phase, Acquire), (req, Reserve_phase, Release)])"
proof (cases "cost < 0 \<or> lat < 0 \<or> cost = 0 \<and> lat = 0")
  case True
  then show ?thesis
    by (intro invalid [of "if cost < 0 \<or> lat < 0
          then ValueError ''cost and projected_latency_ms must be non-negative''
          else ValueError ''At least one of cost or projected_latency_ms must be > 0''"])
       (auto simp: try_reserve_def)
next
  case False
  show ?thesis
  proof (cases "admits cost lat b")
    case True
    with False show ?thesis
      by (intro granted)
         (auto simp: try_reserve_def admits_def with_reservation_def Let_def not_less)
  next
    case no: False
    with False show ?thesis
      by (intro refused) (auto simp: try_reserve_def admits_def Let_def not_less)
  qed
qed

lemma commit_cases:
  obtains (missing) "map_of (active_reservations b) rid = None"
      "commit rid ac al b = (b, Inl (InvalidReservationState rid), settle_calls rid)"
  | (refused) ref e where "map_of (active_reservations b) rid = Some ref"
      "commit rid ac al b =
         (release_plain rid ref (set_state ref RolledBack b), Inl e, settle_calls rid)"
      "fadd (reserved_cost (objects b ! ref)) eps9 < ac \<or>
       fadd (max_cumulative_latency_ms b) eps9 < fadd (cumulative_actual_latency_ms b) al"
  | (settled) ref where "map_of (active_reservations b) rid = Some ref"
      "ac \<le> fadd (reserved_cost (objects b ! ref)) eps9"
      "fadd (cumulative_actual_latency_ms b) al \<le> fadd (max_cumulative_latency_ms b) eps9"
      "commit rid ac al b =
         ((release_clamped rid ref (set_state ref Committed b))
            \<lparr> cumulative_remote_cost := fadd (cumulative_remote_cost b) ac,
              cumulative_actual_latency_ms := fadd (cumulative_actual_latency_ms b) al \<rparr>,
          Inr (), settle_calls rid)"
proof (cases "map_of (active_reservations b) rid")
  case None
  then show ?thesis by (intro missing) (simp_all add: commit_def)
next
  case (Some ref)
  show ?thesis
  proof (cases "fadd (reserved_cost (objects b ! ref)) eps9 < ac \<or>
       fadd (max_cumulative_latency_ms b) eps9 < fadd (cumulative_actual_latency_ms b) al")
    case True
    with Some show ?thesis
      by (cases "fadd (reserved_cost (objects b ! ref)) eps9 < ac")
         (auto intro!: refused simp: commit_def Let_def)
  next
    case False
    with Some show ?thesis by (intro settled) (auto simp: commit_def Let_def not_less)
  qed
qed

lemma rollback_cases:
  obtains (missing) "map_of (active_reservations b) rid = None"
      "rollback rid b = (b, Inl (InvalidReservationState rid), settle_calls rid)"
  | (settled) ref where "map_of (active_reservations b) rid = Some ref"
      "rollback rid b =
         (release_clamped rid ref (set_state ref RolledBack b), Inr (), settle_calls rid)"
  by (cases "map_of (active_reservations b) rid") (auto simp: rollback_def)

lemma admitsI:
  "is_float cost \<Longrightarrow> is_float lat \<Longrightarrow>
   cost \<le> fsub (fsub (max_remote_budget b) (cumulative_remote_cost b)) (reserved_for_execution b) \<Longrightarrow>
   lat \<le> fsub (fsub (max_cumulative_latency_ms b) (cumulative_actual_latency_ms b))
              (bm_reserved_latency_ms b) \<Longrightarrow>
   admits cost lat b"
  unfolding admits_def by (meson fsub_le eps_pos less_imp_le order_trans)

lemma admits_latD:
  "admits cost lat b \<Longrightarrow>
     fsub lat 1 \<le> fsub (fsub (max_cumulative_latency_ms b) (cumulative_actual_latency_ms b))
                     (bm_reserved_latency_ms b)"
  using fsub_mono [of lat lat eps12 1] eps_small by (auto simp: admits_def)

lemma try_reserve_granted:
  "0 \<le> cost \<Longrightarrow> 0 \<le> lat \<Longrightarrow> cost \<noteq> 0 \<or> lat \<noteq> 0 \<Longrightarrow> admits cost lat b \<Longrightarrow>
   try_reserve now uuid req cost lat b =
     (with_reservation now uuid cost lat b, Inr (Some (length (objects b))),
      [(req, Reserve_phase, Acquire), (req, Reserve_phase, Release)])"
  by (rule try_reserve_cases [of cost lat now uuid req b]) auto

lemma commit_settled:
  "map_of (active_reservations b) rid = Some ref \<Longrightarrow>
   ac \<le> fadd (reserved_cost (objects b ! ref)) eps9 \<Longrightarrow>
   fadd (cumulative_actual_latency_ms b) al \<le> fadd (max_cumulative_latency_ms b) eps9 \<Longrightarrow>
   commit rid ac al b =
     ((release_clamped rid ref (set_state ref Committed b))
        \<lparr> cumulative_remote_cost := fadd (cumulative_remote_cost b) ac,
          cumulative_actual_latency_ms := fadd (cumulative_actual_latency_ms b) al \<rparr>,
      Inr (), settle_calls rid)"
  by (rule commit_cases [of b rid ac al]) auto

text \<open>
  The reaper is a sequence of roll-backs: every invariant that roll-back keeps, it keeps too.
\<close>

lemma is_expired_set_state [simp]:
  "is_expired now (objects (set_state ref s b) ! i) = is_expired now (objects b ! i)"
  by (cases "i = ref"; cases "ref < length (objects b)") (simp_all add: is_expired_def list_update_beyond)

lemma expire_loop_expired:
  "snd (expire_loop clock i items b) =
     map (fst \<circ> snd) (filter (\<lambda>(j, k, ref). is_expired (clock j) (objects b ! ref)) (enumerate i items))"
proof (induction clock i items b rule: expire_loop.induct)
  case (2 clock i rid ref items b)
  then show ?case
    by (cases "is_expired (clock i) (objects b ! ref)")
       (simp_all add: Let_def split_beta del: set_state_simps)
qed simp

lemma expire_loop_rollbacks:
  "distinct (map fst items) \<Longrightarrow> \<forall>(k, ref) \<in> set items. map_of (active_reservations b) k = Some ref \<Longrightarrow>
     fst (expire_loop clock i items b) =
       run bm_step b (map Op_rollback (snd (expire_loop clock i items b)))"
proof (induction items arbitrary: i b)
  case (Cons p items)
  obtain k ref where p: "p = (k, ref)" by force
  show ?case
  proof (cases "is_expired (clock i) (objects b ! ref)")
    case True
    let ?b = "release_clamped k ref (set_state ref RolledBack b)"
    have "\<forall>(k', ref') \<in> set items. map_of (active_reservations ?b) k' = Some ref'"
      using Cons.prems p by (force simp: delete_conv')
    with Cons.IH [of ?b "Suc i"] Cons.prems p True show ?thesis
      by (simp add: Let_def split_beta rollback_def del: set_state_simps)
  next
    case False
    with Cons p show ?thesis by simp
  qed
qed simp

lemma expire_as_rollbacks:
  "distinct (map fst (active_reservations b)) \<Longrightarrow>
     fst (expire_stale_reservations clock b) =
       run bm_step b (map Op_rollback (snd (expire_stale_reservations clock b)))"
  unfolding expire_stale_reservations_def by (rule expire_loop_rollbacks) auto

lemma expire_preserves:
  assumes step: "\<And>b rid. I b \<Longrightarrow> I (fst (rollback rid b))"
    and wf: "bm_wf b" and I: "I b"
  shows "I (fst (expire_stale_reservations clock b))"
proof -
  have "I (run bm_step b (map Op_rollback ids))" for ids
    using I by (induction ids arbitrary: b) (auto intro: step)
  then show ?thesis
    using expire_as_rollbacks wf_tableD(1) wf by (metis bm_wf_def)
qed

section \<open>Well-formedness is kept by every operation\<close>

lemma bm_wf_init: "init_bm mb ml ttl = Inr b \<Longrightarrow> bm_wf b"
  by (auto simp: init_bm_def bm_wf_def split: if_splits)

lemma bm_wf_release:
  assumes "bm_wf b" "map_of (active_reservations b) rid = Some ref" "s \<noteq> Pending"
    and "active_reservations b' = AList.delete rid (active_reservations b)"
    and "objects b' = (objects b)[ref := (objects b ! ref)\<lparr>res_state := s\<rparr>]"
  shows "bm_wf b'"
  using assms wf_table_settle by (simp add: bm_wf_def)

lemma bm_wf_with_reservation:
  "bm_wf b \<Longrightarrow> uuid \<notin> res_id ` set (objects b) \<Longrightarrow> bm_wf (with_reservation now uuid cost lat b)"
  using wf_table_reserve [of "active_reservations b" "objects b"
      "\<lparr> reserved_cost = cost, reserved_latency_ms = lat, ttl_seconds = reservation_ttl_seconds b,
         res_id = uuid, created_at = now, res_state = Pending \<rparr>"]
  by (simp add: bm_wf_def with_reservation_def)

lemma bm_wf_reserve:
  "bm_wf b \<Longrightarrow> uuid \<notin> res_id ` set (objects b) \<Longrightarrow> bm_wf (fst (try_reserve now uuid req cost lat b))"
  by (rule try_reserve_cases [of cost lat now uuid req b]) (simp_all add: bm_wf_with_reservation)

lemma bm_wf_commit: "bm_wf b \<Longrightarrow> bm_wf (fst (commit rid ac al b))"
  by (rule commit_cases [of b rid ac al]) (auto intro: bm_wf_release)

lemma bm_wf_rollback: "bm_wf b \<Longrightarrow> bm_wf (fst (rollback rid b))"
  by (rule rollback_cases [of b rid]) (auto intro: bm_wf_release)

lemma bm_wf_expire: "bm_wf b \<Longrightarrow> bm_wf (fst (expire_stale_reservations clock b))"
  by (rule expire_preserves [where I = bm_wf]) (auto intro: bm_wf_rollback)

lemma bm_wf_step: "bm_wf b \<Longrightarrow> fresh_op b op \<Longrightarrow> bm_wf (bm_step b op)"
  by (cases op) (auto intro: bm_wf_reserve bm_wf_commit bm_wf_rollback bm_wf_expire)

interpretation budget: guarded_machine bm_step fresh_op bm_wf
  by unfold_locales (rule bm_wf_step)

section \<open>The life of a reservation object\<close>

text \<open>A reservation is pending, then settled one way, for good: the order of its states.\<close>

instantiation res_state :: order
begin

definition less_eq_res_state :: "res_state \<Rightarrow> res_state \<Rightarrow> bool" where
  "less_eq_res_state x y \<longleftrightarrow> x = Pending \<or> x = y"

definition less_res_state :: "res_state \<Rightarrow> res_state \<Rightarrow> bool" where
  "less_res_state x y \<longleftrightarrow> x = Pending \<and> y \<noteq> Pending"

instance
  by standard (auto simp: less_eq_res_state_def less_res_state_def)

end

lemma res_state_le [simp]: "Pending \<le> s" "x \<noteq> Pending \<Longrightarrow> x \<le> y \<longleftrightarrow> y = x"
  by (auto simp: less_eq_res_state_def)

definition evolves :: "reservation list \<Rightarrow> reservation list \<Rightarrow> bool" where
  "evolves objs objs' \<longleftrightarrow>
     length objs \<le> length objs' \<and>
     (\<forall>i < length objs.
        res_state (objs ! i) \<le> res_state (objs' ! i) \<and>
        (objs' ! i)\<lparr>res_state := Pending\<rparr> = (objs ! i)\<lparr>res_state := Pending\<rparr>)"

lemma evolves_refl [simp]: "evolves objs objs"
  by (simp add: evolves_def)

lemma evolves_trans: "evolves xs ys \<Longrightarrow> evolves ys zs \<Longrightarrow> evolves xs zs"
  unfolding evolves_def by (metis order_trans order_less_le_trans)

lemma evolves_append [simp]: "evolves objs (objs @ rs)"
  by (simp add: evolves_def nth_append)

lemma evolves_settle:
  "res_state (objs ! ref) = Pending \<Longrightarrow> evolves objs (objs[ref := (objs ! ref)\<lparr>res_state := s\<rparr>])"
  unfolding evolves_def
proof (intro conjI allI impI)
  fix i
  assume "res_state (objs ! ref) = Pending" "i < length objs"
  then show "res_state (objs ! i) \<le> res_state (objs[ref := (objs ! ref)\<lparr>res_state := s\<rparr>] ! i)"
    and "(objs[ref := (objs ! ref)\<lparr>res_state := s\<rparr>] ! i)\<lparr>res_state := Pending\<rparr> =
         (objs ! i)\<lparr>res_state := Pending\<rparr>"
    by (cases "i = ref"; simp)+
qed simp

lemma active_pending:
  "bm_wf b \<Longrightarrow> map_of (active_reservations b) rid = Some ref \<Longrightarrow>
     ref < length (objects b) \<and> res_id (objects b ! ref) = rid \<and> res_state (objects b ! ref) = Pending"
  using wf_tableD(3-5) map_of_SomeD unfolding bm_wf_def by metis

lemma evolves_rollback: "bm_wf b \<Longrightarrow> evolves (objects b) (objects (fst (rollback rid b)))"
  by (rule rollback_cases [of b rid]) (auto intro: evolves_settle dest: active_pending)

lemma evolves_expire:
  assumes "bm_wf b"
  shows "evolves (objects b) (objects (fst (expire_stale_reservations clock b)))"
proof -
  let ?I = "\<lambda>c. bm_wf c \<and> evolves (objects b) (objects c)"
  have "?I (fst (expire_stale_reservations clock b))"
    by (rule expire_preserves [where I = ?I])
       (use assms in \<open>auto intro: bm_wf_rollback evolves_rollback elim: evolves_trans\<close>)
  then show ?thesis ..
qed

lemma evolves_step:
  assumes "bm_wf b" shows "evolves (objects b) (objects (bm_step b op))"
proof (cases op)
  case (Op_reserve now uuid req cost lat)
  then show ?thesis
    by (auto simp: with_reservation_def intro: try_reserve_cases [of cost lat now uuid req b])
next
  case (Op_commit rid ac al)
  then show ?thesis using assms
    by (rule_tac commit_cases [of b rid ac al]) (auto intro: evolves_settle dest: active_pending)
next
  case (Op_rollback rid)
  then show ?thesis using assms by (simp add: evolves_rollback)
next
  case (Op_expire clock)
  then show ?thesis using assms by (simp add: evolves_expire)
qed

lemma evolves_run:
  "bm_wf b \<Longrightarrow> permitted fresh_op bm_step b ops \<Longrightarrow> evolves (objects b) (objects (run bm_step b ops))"
  by (induction ops arbitrary: b) (auto intro: evolves_trans evolves_step bm_wf_step)

lemma settled_not_active:
  assumes wf: "bm_wf b" and ref: "ref < length (objects b)"
    and s: "res_state (objects b ! ref) \<noteq> Pending"
  shows "map_of (active_reservations b) (res_id (objects b ! ref)) = None"
proof (rule ccontr)
  assume "map_of (active_reservations b) (res_id (objects b ! ref)) \<noteq> None"
  then obtain ref' where r: "map_of (active_reservations b) (res_id (objects b ! ref)) = Some ref'"
    by auto
  have d: "distinct (map res_id (objects b))"
    using wf wf_tableD(2) by (simp add: bm_wf_def)
  note a = active_pending [OF wf r]
  then have "ref' = ref"
    using nth_eq_iff_index_eq [OF d, of ref' ref] ref by simp
  with a s show False by simp
qed

section \<open>Counting what is active\<close>

lemma active_refs:
  assumes wf: "bm_wf b"
  shows "snd ` set (active_reservations b) =
           {i. i < length (objects b) \<and> res_state (objects b ! i) = Pending}"
    and "inj_on snd (set (active_reservations b))"
proof -
  note w = wf [unfolded bm_wf_def]
  show "snd ` set (active_reservations b) =
           {i. i < length (objects b) \<and> res_state (objects b ! i) = Pending}"
    using wf_tableD(3,5,6) [OF w] by (force simp: image_iff)
  show "inj_on snd (set (active_reservations b))"
    using wf_tableD(4) [OF w] by (intro inj_onI) (metis prod.collapse)
qed

lemma active_count_pending:
  assumes wf: "bm_wf b"
  shows "active_reservation_count b = length (filter (\<lambda>r. res_state r = Pending) (objects b))"
proof -
  have "distinct (active_reservations b)"
    using wf wf_tableD(1) by (auto simp: bm_wf_def distinct_map)
  then have "active_reservation_count b = card (set (active_reservations b))"
    by (simp add: active_reservation_count_def distinct_card)
  also have "\<dots> = card (snd ` set (active_reservations b))"
    using active_refs(2) [OF wf] by (simp add: card_image)
  also have "\<dots> = card {i. i < length (objects b) \<and> res_state (objects b ! i) = Pending}"
    by (simp only: active_refs(1) [OF wf])
  finally show ?thesis by (simp add: length_filter_conv_card)
qed

section \<open>The abstract table of reservations\<close>

text \<open>
  What the manager promises about reservations, without the arithmetic: a partial map from
  identifiers to reservations.  Reserving adds at most one entry, under the new identifier;
  settling removes one entry and nothing else; the reaper removes entries that had expired when
  it looked at them, and every entry that was expired throughout.
\<close>

definition abs_table :: "bm \<Rightarrow> string \<rightharpoonup> reservation" where
  "abs_table b k = map_option (\<lambda>ref. objects b ! ref) (map_of (active_reservations b) k)"

inductive spec_step :: "bm_op \<Rightarrow> (string \<rightharpoonup> reservation) \<Rightarrow> (string \<rightharpoonup> reservation) \<Rightarrow> bool" where
  grant: "t uuid = None \<Longrightarrow> reserved_cost r = cost \<Longrightarrow> reserved_latency_ms r = lat \<Longrightarrow>
     created_at r = now \<Longrightarrow> res_state r = Pending \<Longrightarrow>
     spec_step (Op_reserve now uuid req cost lat) t (t(uuid \<mapsto> r))"
| refuse: "spec_step (Op_reserve now uuid req cost lat) t t"
| commit: "spec_step (Op_commit rid ac al) t (t(rid := None))"
| rollback: "spec_step (Op_rollback rid) t (t(rid := None))"
| expire: "(\<And>k r. k \<in> K \<Longrightarrow> t k = Some r \<Longrightarrow> \<exists>i. is_expired (clock i) r) \<Longrightarrow>
     (\<And>k r. t k = Some r \<Longrightarrow> (\<And>i. is_expired (clock i) r) \<Longrightarrow> k \<in> K) \<Longrightarrow>
     spec_step (Op_expire clock) t (t |` (- K))"

lemma map_of_delete: "map_of (AList.delete k al) = (map_of al)(k := None)"
  by (rule delete_conv')

lemma abs_table_release:
  assumes wf: "bm_wf b" and rid: "map_of (active_reservations b) rid = Some ref"
    and b': "active_reservations b' = AList.delete rid (active_reservations b)"
      "objects b' = (objects b)[ref := (objects b ! ref)\<lparr>res_state := s\<rparr>]"
  shows "abs_table b' = (abs_table b)(rid := None)"
proof
  fix k
  show "abs_table b' k = ((abs_table b)(rid := None)) k"
  proof (cases "k = rid \<or> map_of (active_reservations b) k = None")
    case True
    then show ?thesis by (auto simp: abs_table_def b' map_of_delete)
  next
    case False
    then obtain ref' where ref': "map_of (active_reservations b) k = Some ref'" "k \<noteq> rid" by auto
    then have "ref' \<noteq> ref" using active_pending [OF wf] rid by metis
    with ref' show ?thesis by (simp add: abs_table_def b' map_of_delete)
  qed
qed

lemma abs_table_missing: "map_of (active_reservations b) rid = None \<Longrightarrow> (abs_table b)(rid := None) = abs_table b"
  by (auto simp: abs_table_def fun_eq_iff)

lemma abs_table_commit: "bm_wf b \<Longrightarrow> abs_table (fst (commit rid ac al b)) = (abs_table b)(rid := None)"
  by (rule commit_cases [of b rid ac al])
     (auto simp: abs_table_missing intro!: abs_table_release)

lemma abs_table_rollback: "bm_wf b \<Longrightarrow> abs_table (fst (rollback rid b)) = (abs_table b)(rid := None)"
  by (rule rollback_cases [of b rid])
     (auto simp: abs_table_missing intro!: abs_table_release)

lemma abs_table_expire:
  assumes "bm_wf b"
  shows "abs_table (fst (expire_stale_reservations clock b)) =
           abs_table b |` (- set (snd (expire_stale_reservations clock b)))"
proof -
  have "abs_table (run bm_step b (map Op_rollback ids)) = abs_table b |` (- set ids)" for ids
    using assms
  proof (induction ids arbitrary: b)
    case (Cons k ids)
    then show ?case
      by (auto simp: abs_table_rollback bm_wf_rollback restrict_map_def fun_eq_iff)
  qed (simp add: restrict_map_def)
  then show ?thesis
    using expire_as_rollbacks [of b clock] assms wf_tableD(1) unfolding bm_wf_def by metis
qed

lemma expired_ids:
  "snd (expire_stale_reservations clock b) =
     map (fst \<circ> snd) (filter (\<lambda>(j, k, ref). is_expired (clock j) (objects b ! ref))
       (enumerate 0 (active_reservations b)))"
  unfolding expire_stale_reservations_def by (rule expire_loop_expired)

lemma expired_ids_iff:
  assumes wf: "bm_wf b"
  shows "k \<in> set (snd (expire_stale_reservations clock b)) \<longleftrightarrow>
     (\<exists>j < length (active_reservations b). fst (active_reservations b ! j) = k \<and>
        is_expired (clock j) (objects b ! snd (active_reservations b ! j)))"
  unfolding expired_ids by (force simp: in_set_enumerate_eq image_iff split_beta)

lemma map_of_nth:
  "distinct (map fst al) \<Longrightarrow> j < length al \<Longrightarrow> map_of al (fst (al ! j)) = Some (snd (al ! j))"
  by (metis map_of_is_SomeI nth_mem prod.collapse)

lemma simulation_expire:
  assumes wf: "bm_wf b"
  shows "spec_step (Op_expire clock) (abs_table b) (abs_table (fst (expire_stale_reservations clock b)))"
  unfolding abs_table_expire [OF wf]
proof (rule spec_step.expire)
  have d: "distinct (map fst (active_reservations b))"
    using wf wf_tableD(1) by (simp add: bm_wf_def)
  fix k r
  assume r: "abs_table b k = Some r"
  then obtain ref where ref: "map_of (active_reservations b) k = Some ref" "r = objects b ! ref"
    by (auto simp: abs_table_def)
  {
    assume "k \<in> set (snd (expire_stale_reservations clock b))"
    then obtain j where j: "j < length (active_reservations b)"
        "fst (active_reservations b ! j) = k"
        "is_expired (clock j) (objects b ! snd (active_reservations b ! j))"
      unfolding expired_ids_iff [OF wf] by blast
    then have "snd (active_reservations b ! j) = ref" using map_of_nth [OF d, of j] ref by simp
    with j ref show "\<exists>i. is_expired (clock i) r" by auto
  }
  assume "\<And>i. is_expired (clock i) r"
  moreover from ref(1) obtain j where "j < length (active_reservations b)"
      "active_reservations b ! j = (k, ref)"
    by (meson in_set_conv_nth map_of_SomeD)
  ultimately show "k \<in> set (snd (expire_stale_reservations clock b))"
    unfolding expired_ids_iff [OF wf] using ref(2) by force
qed

lemma abs_table_with_reservation:
  assumes fresh: "uuid \<notin> res_id ` set (objects b)" and wf: "bm_wf b"
  shows "abs_table (with_reservation now uuid cost lat b) = (abs_table b)(uuid \<mapsto>
    \<lparr> reserved_cost = cost, reserved_latency_ms = lat,
      ttl_seconds = reservation_ttl_seconds b, res_id = uuid, created_at = now, res_state = Pending \<rparr>)"
    (is "?lhs = ?rhs")
proof
  fix k
  show "?lhs k = ?rhs k"
    using active_pending [OF wf, of k]
    by (cases "map_of (active_reservations b) k")
       (auto simp: abs_table_def with_reservation_def update_conv' nth_append)
qed

lemma abs_table_fresh:
  assumes "uuid \<notin> res_id ` set (objects b)" "bm_wf b"
  shows "abs_table b uuid = None"
proof (cases "map_of (active_reservations b) uuid")
  case (Some ref)
  then have "ref < length (objects b)" "res_id (objects b ! ref) = uuid"
    using active_pending [OF assms(2)] by auto
  then show ?thesis using assms(1) nth_mem by fastforce
qed (simp add: abs_table_def)

lemma simulation_reserve:
  assumes fresh: "uuid \<notin> res_id ` set (objects b)" and wf: "bm_wf b"
  shows "spec_step (Op_reserve now uuid req cost lat) (abs_table b)
           (abs_table (fst (try_reserve now uuid req cost lat b)))"
  using abs_table_fresh [OF assms]
  by (cases rule: try_reserve_cases [of cost lat now uuid req b])
     (auto simp: abs_table_with_reservation [OF assms] intro: spec_step.refuse spec_step.grant)

lemma simulation_step:
  "bm_wf b \<Longrightarrow> fresh_op b op \<Longrightarrow> spec_step op (abs_table b) (abs_table (bm_step b op))"
  by (cases op)
     (auto simp: abs_table_commit abs_table_rollback intro: spec_step.commit spec_step.rollback
        simulation_expire simulation_reserve)

section \<open>Properties of the reservation protocol\<close>

text \<open>
  A run used by the witnesses: two reservations from a fresh manager, one of them settled.
\<close>

definition sample_bm :: bm where
  "sample_bm =
     \<lparr> max_remote_budget = 5, max_cumulative_latency_ms = 600, reservation_ttl_seconds = 45,
       cumulative_remote_cost = 0, reserved_for_execution = 0, cumulative_actual_latency_ms = 0,
       bm_reserved_latency_ms = 0, active_reservations = [], objects = [] \<rparr>"

definition sample_ops :: "bm_op list" where
  "sample_ops =
     [Op_reserve 0 ''a'' ''q1'' 1 100, Op_reserve 10 ''b'' ''q2'' 2 100, Op_commit ''a'' 1 90]"

lemma sample_init: "init_bm 5 600 45 = Inr sample_bm"
  by (simp add: init_bm_def sample_bm_def)

definition sample_res :: "string \<Rightarrow> flt \<Rightarrow> flt \<Rightarrow> res_state \<Rightarrow> reservation" where
  "sample_res k c now st =
     \<lparr> reserved_cost = c, reserved_latency_ms = 100, ttl_seconds = 45, res_id = k,
       created_at = now, res_state = st \<rparr>"

lemma sample_step1:
  "bm_step sample_bm (Op_reserve 0 ''a'' ''q1'' 1 100) =
     sample_bm\<lparr> reserved_for_execution := 1, bm_reserved_latency_ms := 100,
       active_reservations := [(''a'', 0)], objects := [sample_res ''a'' 1 0 Pending] \<rparr>"
proof -
  have "admits 1 100 sample_bm" by (rule admitsI) (simp_all add: sample_bm_def float_eval)
  then show ?thesis
    by (simp add: try_reserve_granted with_reservation_def)
       (simp add: sample_bm_def sample_res_def float_eval)
qed

lemma sample_step2:
  "bm_step (bm_step sample_bm (Op_reserve 0 ''a'' ''q1'' 1 100)) (Op_reserve 10 ''b'' ''q2'' 2 100) =
     sample_bm\<lparr> reserved_for_execution := 3, bm_reserved_latency_ms := 200,
       active_reservations := [(''a'', 0), (''b'', 1)],
       objects := [sample_res ''a'' 1 0 Pending, sample_res ''b'' 2 10 Pending] \<rparr>"
  (is "bm_step ?b _ = _")
proof -
  have "admits 2 100 ?b"
    unfolding sample_step1 by (rule admitsI) (simp_all add: sample_bm_def float_eval)
  then show ?thesis
    unfolding sample_step1
    by (simp add: try_reserve_granted with_reservation_def)
       (simp add: sample_bm_def sample_res_def float_eval)
qed

lemma sample_state:
  "run bm_step sample_bm sample_ops =
     sample_bm\<lparr> cumulative_remote_cost := 1, reserved_for_execution := 2,
       cumulative_actual_latency_ms := 90, bm_reserved_latency_ms := 100,
       active_reservations := [(''b'', 1)],
       objects := [sample_res ''a'' 1 0 Committed, sample_res ''b'' 2 10 Pending] \<rparr>"
  (is "_ = ?b")
proof -
  have ok: "1 \<le> fadd 1 eps9" "90 \<le> fadd 600 eps9" by (simp_all add: le_fadd_eps9)
  show ?thesis
    unfolding sample_ops_def run.simps sample_step2
    by (simp add: commit_settled sample_bm_def sample_res_def ok release_clamped_def Let_def)
       (simp add: float_eval)
qed

lemma sample_permitted: "permitted fresh_op bm_step sample_bm sample_ops"
  unfolding sample_ops_def permitted.simps sample_step2
  unfolding sample_step1 by (simp add: sample_bm_def sample_res_def)

lemma sample_wf: "bm_wf (run bm_step sample_bm sample_ops)"
  using budget.inv_run [OF bm_wf_init [OF sample_init] sample_permitted] .

text \<open>
  No reservation is ever leaked or forgotten by the manager: after any sequence of
  reserve, commit, rollback and reaper operations on a fresh manager (identifiers being fresh,
  as \<open>uuid4\<close> makes them), a Reservation object is pending exactly when the dictionary of
  active reservations maps its identifier to it, and the count reported to the monitoring
  endpoints is the number of pending objects.
\<close>

theorem active_iff_pending:
  assumes "init_bm mb ml ttl = Inr b0" and "permitted fresh_op bm_step b0 ops"
    and "b = run bm_step b0 ops"
  shows "(\<forall>ref < length (objects b).
            res_state (objects b ! ref) = Pending \<longleftrightarrow>
            map_of (active_reservations b) (res_id (objects b ! ref)) = Some ref) \<and>
         active_reservation_count b = length (filter (\<lambda>r. res_state r = Pending) (objects b))"
proof -
  have wf: "bm_wf b"
    using budget.inv_run [OF bm_wf_init] assms by blast
  note w = wf [unfolded bm_wf_def]
  have "res_state (objects b ! ref) = Pending \<longleftrightarrow>
        map_of (active_reservations b) (res_id (objects b ! ref)) = Some ref"
    if "ref < length (objects b)" for ref
    using wf_tableD(6) [OF w that] wf_tableD(1) [OF w] active_pending [OF wf] by auto
  then show ?thesis using active_count_pending [OF wf] by blast
qed

theorem active_iff_pending_witness:
  "active_reservation_count (run bm_step sample_bm sample_ops) = 1 \<and>
   length (filter (\<lambda>r. res_state r = Pending) (objects (run bm_step sample_bm sample_ops))) = 1"
proof -
  have "active_reservation_count (run bm_step sample_bm sample_ops) = 1"
    by (simp add: sample_state active_reservation_count_def)
  with active_iff_pending [OF sample_init sample_permitted refl] show ?thesis by simp
qed

text \<open>
  C28: Settlement is exactly-once.  Once a reservation has been committed or rolled back, it
  keeps that state and its terms through every later sequence of operations, and any further
  commit or rollback through its handle raises \<open>InvalidReservationStateError\<close> and leaves
  the manager unchanged, so no amount is ever released or charged twice.
\<close>

theorem settle_exactly_once:
  assumes "bm_wf b" and "ref < length (objects b)" and "res_state (objects b ! ref) \<noteq> Pending"
    and "permitted fresh_op bm_step b ops" and "b' = run bm_step b ops"
  shows "objects b' ! ref = objects b ! ref \<and>
         reservation_commit ref ac al b' =
           (b', Inl (InvalidReservationState (res_id (objects b ! ref))),
            settle_calls (res_id (objects b ! ref))) \<and>
         reservation_rollback ref b' =
           (b', Inl (InvalidReservationState (res_id (objects b ! ref))),
            settle_calls (res_id (objects b ! ref)))"
proof -
  have wf: "bm_wf b'" using assms budget.inv_run by blast
  have ev: "evolves (objects b) (objects b')" using assms evolves_run by blast
  then have "res_state (objects b' ! ref) = res_state (objects b ! ref)"
    and "(objects b' ! ref)\<lparr>res_state := Pending\<rparr> = (objects b ! ref)\<lparr>res_state := Pending\<rparr>"
    using assms(2,3) by (auto simp: evolves_def)
  then have same: "objects b' ! ref = objects b ! ref"
    by (cases "objects b' ! ref"; cases "objects b ! ref") simp
  have "ref < length (objects b')" using ev assms(2) by (simp add: evolves_def)
  then have "map_of (active_reservations b') (res_id (objects b ! ref)) = None"
    using settled_not_active [OF wf] same assms(3) by metis
  with same show ?thesis
    by (simp add: reservation_commit_def reservation_rollback_def commit_def rollback_def)
qed

theorem settle_exactly_once_witness:
  "fst (snd (reservation_commit 0 1 1 (run bm_step sample_bm (sample_ops @ [Op_rollback ''b''])))) =
     Inl (InvalidReservationState ''a'')"
proof -
  let ?b = "run bm_step sample_bm sample_ops"
  have h: "0 < length (objects ?b)" "res_state (objects ?b ! 0) \<noteq> Pending"
    "permitted fresh_op bm_step ?b [Op_rollback ''b'']" "res_id (objects ?b ! 0) = ''a''"
    by (simp_all add: sample_state sample_res_def)
  show ?thesis
    using settle_exactly_once [OF sample_wf h(1-3) refl, of 1 1] h(4) by (simp add: run_append)
qed

text \<open>
  The effect of \<open>_commit\<close> on an active reservation.  Whatever the outcome, exactly
  this reservation leaves the table and every other entry is untouched.  If the actual cost is
  more than the reserved cost plus 1e-9, or the cumulative latency would pass the cap plus 1e-9,
  the call raises, the object is rolled back and nothing is charged; otherwise the object is
  committed and the actual cost and latency are charged.
\<close>

theorem commit_outcome:
  assumes wf: "bm_wf b" and active: "map_of (active_reservations b) rid = Some ref"
    and c: "commit rid ac al b = (b', res, calls)"
    and over: "over_cost \<longleftrightarrow> fadd (reserved_cost (objects b ! ref)) eps9 < ac"
    and breach: "breach \<longleftrightarrow> fadd (max_cumulative_latency_ms b) eps9 < fadd (cumulative_actual_latency_ms b) al"
  shows "abs_table b' = (abs_table b)(rid := None) \<and>
         (res = Inr () \<longleftrightarrow> \<not> over_cost \<and> \<not> breach) \<and>
         res_state (objects b' ! ref) = (if over_cost \<or> breach then RolledBack else Committed) \<and>
         cumulative_remote_cost b' =
           (if over_cost \<or> breach then cumulative_remote_cost b else fadd (cumulative_remote_cost b) ac) \<and>
         cumulative_actual_latency_ms b' =
           (if over_cost \<or> breach then cumulative_actual_latency_ms b
            else fadd (cumulative_actual_latency_ms b) al)"
proof -
  have "abs_table b' = (abs_table b)(rid := None)"
    using abs_table_commit [OF wf, of rid ac al] c by simp
  moreover have "ref < length (objects b)" using active_pending [OF wf active] by simp
  ultimately show ?thesis
    using c active over breach by (cases over_cost; cases breach) (auto simp: commit_def Let_def)
qed

theorem commit_outcome_witness:
  "abs_table (fst (commit ''b'' 4 90 (run bm_step sample_bm sample_ops))) ''b'' = None \<and>
   res_state (objects (fst (commit ''b'' 4 90 (run bm_step sample_bm sample_ops))) ! 1) = RolledBack"
proof -
  let ?b = "run bm_step sample_bm sample_ops"
  obtain b' res calls where c: "commit ''b'' 4 90 ?b = (b', res, calls)" by (rule prod_cases3)
  have a: "map_of (active_reservations ?b) ''b'' = Some 1" by (simp add: sample_state)
  have over: "True \<longleftrightarrow> fadd (reserved_cost (objects ?b ! 1)) eps9 < 4"
    using fadd_eps9_less [of 2 4] by (simp add: sample_state sample_res_def fadd_def)
  show ?thesis
    using commit_outcome [OF sample_wf a c over refl] c by simp
qed

text \<open>
  C32: Refinement.  Seen as a partial map from identifiers to reservations, every operation of
  the manager is a step of the abstract table: reserving adds at most the one new pending entry
  with the requested amounts, commit and rollback remove exactly the named entry, and the reaper
  removes only entries that had expired and all entries that had.
\<close>

theorem manager_refines_table:
  assumes "bm_wf b" and "fresh_op b op"
  shows "spec_step op (abs_table b) (abs_table (bm_step b op))"
  using assms by (rule simulation_step)

theorem manager_refines_table_witness:
  "spec_step (Op_rollback ''b'') (abs_table (run bm_step sample_bm sample_ops))
     (abs_table (bm_step (run bm_step sample_bm sample_ops) (Op_rollback ''b'')))"
  by (rule manager_refines_table [OF sample_wf]) simp

lemma expired_keys:
  "snd (expire_stale_reservations (\<lambda>_. now) b) =
     map fst (filter (\<lambda>(k, ref). is_expired now (objects b ! ref)) (active_reservations b))"
proof -
  have "map (fst \<circ> snd) (filter (\<lambda>(j, k, ref). P ref) (enumerate n xs)) =
        map fst (filter (\<lambda>(k, ref). P ref) xs)" for P n and xs :: "(string \<times> nat) list"
    by (induction xs arbitrary: n) auto
  then show ?thesis unfolding expired_ids .
qed

lemma expire_leaves_fresh:
  assumes "bm_wf b" "abs_table (fst (expire_stale_reservations (\<lambda>_. now) b)) k = Some r"
  shows "\<not> is_expired now r"
proof -
  from assms(2) obtain ref where ref: "map_of (active_reservations b) k = Some ref"
      "r = objects b ! ref" "k \<notin> set (snd (expire_stale_reservations (\<lambda>_. now) b))"
    unfolding abs_table_expire [OF assms(1)] by (auto simp: restrict_map_def abs_table_def split: if_splits)
  from ref(1) have "(k, ref) \<in> set (active_reservations b)" by (rule map_of_SomeD)
  with ref(2,3) show ?thesis unfolding expired_keys by force
qed

text \<open>
  C33: The reaper recovers exactly the stale reservations.  When its clock readings are one
  instant, the identifiers it returns are those of the expired reservations, in the order they
  were made; they leave the table, every other reservation stays, and no reservation that is
  expired at that instant remains active.
\<close>

theorem reaper_recovers:
  assumes "bm_wf b" and e: "expire_stale_reservations (\<lambda>_. now) b = (b', ids)"
  shows "ids = map fst (filter (\<lambda>(k, ref). is_expired now (objects b ! ref)) (active_reservations b)) \<and>
         abs_table b' = abs_table b |` (- set ids) \<and>
         (\<forall>k r. abs_table b' k = Some r \<longrightarrow> \<not> is_expired now r)"
proof -
  have ids: "ids = snd (expire_stale_reservations (\<lambda>_. now) b)"
    and b': "b' = fst (expire_stale_reservations (\<lambda>_. now) b)" using e by simp_all
  show ?thesis
    unfolding ids b' using expired_keys abs_table_expire [OF assms(1)] expire_leaves_fresh [OF assms(1)] by blast
qed

theorem reaper_recovers_witness:
  "snd (expire_stale_reservations (\<lambda>_. 60) (run bm_step sample_bm sample_ops)) = [''b''] \<and>
   abs_table (fst (expire_stale_reservations (\<lambda>_. 60) (run bm_step sample_bm sample_ops))) ''b'' = None"
proof -
  let ?b = "run bm_step sample_bm sample_ops"
  show ?thesis
    using reaper_recovers [OF sample_wf surjective_pairing, of 60]
    by (simp add: sample_state sample_res_def is_expired_def fsub_def)
qed

end
