(* ===== verification/Queue_Monitor.thy ===== *)
theory Queue_Monitor
  imports Models
begin

text \<open>
  \<open>app/queue_monitor.py\<close>: the slots for local inference.

  The monitor keeps a counter of active requests and a semaphore.  Waiting on a semaphore
  whose value is zero suspends the caller, which \<open>acquire\<close> models by \<open>None\<close>; the
  theorems show that this never happens.  The locale \<open>slot_pool\<close> is the contract its clients
  (the routing agent and the inference handler) rely on.
\<close>

section \<open>State and operations\<close>

record qm =
  max_concurrency :: int
  semaphore :: int
  active_count :: int

definition init_qm :: "int \<Rightarrow> exc + qm" where
  "init_qm n =
     (if n \<le> 0 then Inl (ValueError ''max_concurrency must be strictly positive'')
      else Inr \<lparr> max_concurrency = n, semaphore = n, active_count = 0 \<rparr>)"

definition is_at_capacity :: "qm \<Rightarrow> bool" where
  "is_at_capacity q \<longleftrightarrow> max_concurrency q \<le> active_count q"

text \<open>\<open>asyncio.Semaphore\<close>: acquiring takes a unit or suspends, releasing returns one.\<close>

definition sem_acquire :: "qm \<Rightarrow> qm option" where
  "sem_acquire q = (if 0 < semaphore q then Some (q\<lparr>semaphore := semaphore q - 1\<rparr>) else None)"

definition acquire :: "qm \<Rightarrow> (qm \<times> bool) option" where
  "acquire q =
     (if max_concurrency q \<le> active_count q then Some (q, False)
      else case sem_acquire q of
             None \<Rightarrow> None
           | Some q' \<Rightarrow> Some (q'\<lparr>active_count := active_count q' + 1\<rparr>, True))"

definition release :: "qm \<Rightarrow> qm" where
  "release q =
     (if 0 < active_count q
      then q\<lparr>active_count := active_count q - 1, semaphore := semaphore q + 1\<rparr> else q)"

text \<open>
  \<open>async with slot()\<close>: entering raises when there is no slot; leaving, by whatever way the
  body ends, releases it.  (The message has a dash, code point 0x2014, where this string has a hyphen; nothing
  reads it, since the handler never sees this error.)
\<close>

definition slot_enter :: "qm \<Rightarrow> (qm \<times> (exc + unit)) option" where
  "slot_enter q =
     (case acquire q of
        None \<Rightarrow> None
      | Some (q', acquired) \<Rightarrow>
          Some (q', if acquired then Inr ()
                    else Inl (RuntimeError ''Local queue is at capacity - cannot acquire slot'')))"

definition slot_exit :: "qm \<Rightarrow> qm" where
  "slot_exit q = release q"

section \<open>The contract of a pool of slots\<close>

locale slot_pool =
  fixes take_slot :: "'s \<Rightarrow> ('s \<times> bool) option"
    and give_back :: "'s \<Rightarrow> 's"
    and free :: "'s \<Rightarrow> nat"
    and used :: "'s \<Rightarrow> nat"
    and inv :: "'s \<Rightarrow> bool"
  assumes take_free: "inv s \<Longrightarrow> 0 < free s \<Longrightarrow>
      \<exists>s'. take_slot s = Some (s', True) \<and> inv s' \<and> free s = Suc (free s') \<and> used s' = Suc (used s)"
    and take_full: "inv s \<Longrightarrow> free s = 0 \<Longrightarrow> take_slot s = Some (s, False)"
    and give_used: "inv s \<Longrightarrow> 0 < used s \<Longrightarrow>
      inv (give_back s) \<and> free (give_back s) = Suc (free s) \<and> used s = Suc (used (give_back s))"
    and give_unused: "inv s \<Longrightarrow> used s = 0 \<Longrightarrow> give_back s = s"
begin

fun take_slots :: "nat \<Rightarrow> 's \<Rightarrow> ('s \<times> nat) option" where
  "take_slots 0 s = Some (s, 0)"
| "take_slots (Suc n) s =
     (case take_slot s of
        None \<Rightarrow> None
      | Some (s', got) \<Rightarrow>
          (case take_slots n s' of
             None \<Rightarrow> None
           | Some (s'', m) \<Rightarrow> Some (s'', if got then Suc m else m)))"

lemma take_slots_full: "inv s \<Longrightarrow> free s = 0 \<Longrightarrow> take_slots n s = Some (s, 0)"
  by (induction n) (simp_all add: take_full)

lemma take_slots_count:
  "inv s \<Longrightarrow> \<exists>s'. take_slots n s = Some (s', min n (free s)) \<and> inv s' \<and>
     free s' = free s - min n (free s) \<and> used s' = used s + min n (free s)"
proof (induction n arbitrary: s)
  case (Suc n)
  show ?case
  proof (cases "free s")
    case 0
    with Suc.prems show ?thesis by (simp add: take_full take_slots_full)
  next
    case (Suc k)
    with Suc.prems obtain s1 where s1: "take_slot s = Some (s1, True)" "inv s1"
        "free s = Suc (free s1)" "used s1 = Suc (used s)"
      using take_free by fastforce
    from Suc.IH [OF s1(2)] s1 show ?thesis by auto
  qed
qed simp

lemma take_then_give:
  assumes "inv s" "take_slot s = Some (s', True)"
  shows "inv (give_back s') \<and> free (give_back s') = free s \<and> used (give_back s') = used s"
proof (cases "free s")
  case 0
  with assms show ?thesis using take_full by fastforce
next
  case (Suc k)
  with assms have "inv s'" "free s = Suc (free s')" "used s' = Suc (used s)"
    using take_free [of s] by auto
  then show ?thesis using give_used [of s'] by simp
qed

end

section \<open>The monitor is a pool of slots\<close>

definition qm_ok :: "qm \<Rightarrow> bool" where
  "qm_ok q \<longleftrightarrow>
     0 < max_concurrency q \<and> 0 \<le> active_count q \<and> active_count q \<le> max_concurrency q \<and>
     semaphore q + active_count q = max_concurrency q"

definition free_slots :: "qm \<Rightarrow> nat" where
  "free_slots q = nat (max_concurrency q - active_count q)"

definition used_slots :: "qm \<Rightarrow> nat" where
  "used_slots q = nat (active_count q)"

lemmas qm_defs [component_defs] =
  qm_ok_def free_slots_def used_slots_def acquire_def sem_acquire_def release_def

interpretation slots: slot_pool acquire release free_slots used_slots qm_ok
proof
  fix q
  assume q: "qm_ok q"
  show "\<exists>s'. acquire q = Some (s', True) \<and> qm_ok s' \<and> free_slots q = Suc (free_slots s') \<and>
      used_slots s' = Suc (used_slots q)" if "0 < free_slots q"
    using q that by (auto simp: qm_defs)
  show "acquire q = Some (q, False)" if "free_slots q = 0"
    using q that by (auto simp: qm_defs)
  show "qm_ok (release q) \<and> free_slots (release q) = Suc (free_slots q) \<and>
      used_slots q = Suc (used_slots (release q))" if "0 < used_slots q"
    using q that by (auto simp: qm_defs)
  show "release q = q" if "used_slots q = 0"
    using q that by (auto simp: qm_defs)
qed

lemma qm_ok_init: "init_qm n = Inr q \<Longrightarrow> qm_ok q"
  by (auto simp: init_qm_def qm_ok_def split: if_splits)

lemma qm_ok_acquire: "qm_ok q \<Longrightarrow> acquire q = Some (q', got) \<Longrightarrow> qm_ok q'"
  by (auto simp: qm_defs split: if_splits)

lemma qm_ok_release: "qm_ok q \<Longrightarrow> qm_ok (release q)"
  by (auto simp: qm_defs)

lemma acquire_returns: "qm_ok q \<Longrightarrow> \<exists>q'. acquire q = Some (q', \<not> is_at_capacity q)"
  by (auto simp: qm_defs is_at_capacity_def)

lemma slot_enter_cases:
  assumes "qm_ok q"
  obtains (full) "is_at_capacity q"
      "slot_enter q = Some (q, Inl (RuntimeError ''Local queue is at capacity - cannot acquire slot''))"
  | (entered) "\<not> is_at_capacity q"
      "slot_enter q = Some (q\<lparr>semaphore := semaphore q - 1, active_count := active_count q + 1\<rparr>, Inr ())"
  using assms by (cases "is_at_capacity q") (auto simp: slot_enter_def qm_defs is_at_capacity_def)

datatype qm_op = Q_acquire | Q_release

fun qm_step :: "qm \<Rightarrow> qm_op \<Rightarrow> qm" where
  "qm_step q Q_acquire = (case acquire q of None \<Rightarrow> q | Some (q', got) \<Rightarrow> q')"
| "qm_step q Q_release = release q"

interpretation queue: guarded_machine qm_step "\<lambda>_ _. True" qm_ok
proof
  fix q op
  assume "qm_ok q"
  then show "qm_ok (qm_step q op)"
    by (cases op) (auto split: option.split intro: qm_ok_acquire qm_ok_release)
qed

lemma permitted_True [simp]: "permitted (\<lambda>_ _. True) step s es"
  by (induction es arbitrary: s) auto

section \<open>Properties\<close>

text \<open>
  Local concurrency is bounded and acquiring never blocks.  After any sequence of
  acquires and releases (also spurious releases) on a new monitor, the number of active
  requests is between 0 and the limit, the semaphore holds exactly the remaining slots, and
  \<open>acquire\<close> returns at once, with \<open>True\<close> exactly when the monitor is not at capacity.
\<close>

theorem queue_bounded_nonblocking:
  assumes "init_qm n = Inr q0" and "q = run qm_step q0 ops"
  shows "0 \<le> active_count q \<and> active_count q \<le> n \<and> semaphore q = n - active_count q \<and>
         (\<exists>q'. acquire q = Some (q', active_count q < n))"
proof -
  have "max_concurrency (qm_step q op) = max_concurrency q" for q op
    by (cases op) (auto simp: acquire_def sem_acquire_def release_def)
  then have "max_concurrency (run qm_step q ops) = max_concurrency q" for q
    by (induction ops arbitrary: q) simp_all
  then have m: "max_concurrency q = n"
    using assms by (auto simp: init_qm_def split: if_splits)
  have ok: "qm_ok q" using queue.inv_run [OF qm_ok_init] assms by simp
  obtain q' where "acquire q = Some (q', \<not> is_at_capacity q)"
    using acquire_returns [OF ok] by blast
  then have "\<exists>q'. acquire q = Some (q', active_count q < n)"
    unfolding is_at_capacity_def not_le m by blast
  moreover have "0 \<le> active_count q" "active_count q \<le> n" "semaphore q = n - active_count q"
    using ok m by (simp_all add: qm_ok_def)
  ultimately show ?thesis by simp
qed

theorem queue_bounded_nonblocking_witness:
  "active_count (run qm_step \<lparr>max_concurrency = 2, semaphore = 2, active_count = 0\<rparr>
     [Q_acquire, Q_release, Q_release, Q_acquire, Q_acquire, Q_acquire]) \<le> 2"
proof -
  have "init_qm 2 = Inr \<lparr>max_concurrency = 2, semaphore = 2, active_count = 0\<rparr>"
    by (simp add: init_qm_def)
  from queue_bounded_nonblocking [OF this refl] show ?thesis by blast
qed

text \<open>
  Slots are handed out exactly.  When \<open>n\<close> requests call \<open>acquire\<close> on a monitor with
  \<open>m\<close> free slots, exactly \<open>min n m\<close> of them get one, the rest are refused at once, and the
  same number of slots is gone afterwards.
\<close>

theorem queue_grants_exactly:
  assumes "qm_ok q"
  shows "\<exists>q'. slots.take_slots n q = Some (q', min n (free_slots q)) \<and> qm_ok q' \<and>
           used_slots q' = used_slots q + min n (free_slots q)"
  using slots.take_slots_count [OF assms, of n] by blast

theorem queue_grants_exactly_witness:
  "\<exists>q'. slots.take_slots 5 \<lparr>max_concurrency = 3, semaphore = 2, active_count = 1\<rparr> = Some (q', 2) \<and>
     used_slots q' = 3"
proof -
  have "qm_ok \<lparr>max_concurrency = 3, semaphore = 2, active_count = 1\<rparr>" by (simp add: qm_ok_def)
  from queue_grants_exactly [OF this, of 5] show ?thesis
    by (auto simp: free_slots_def used_slots_def)
qed

text \<open>
  A slot is always given back.  Entering \<open>slot()\<close> on a monitor that is not at capacity
  succeeds without blocking, and leaving it restores the monitor exactly; at capacity, entering
  raises \<open>RuntimeError\<close> and changes nothing.
\<close>

theorem slot_roundtrip:
  assumes "qm_ok q"
  shows "if is_at_capacity q
         then slot_enter q = Some (q, Inl (RuntimeError ''Local queue is at capacity - cannot acquire slot''))
         else \<exists>q'. slot_enter q = Some (q', Inr ()) \<and> active_count q' = active_count q + 1 \<and> slot_exit q' = q"
  using assms
proof (cases rule: slot_enter_cases)
  case entered
  have "0 \<le> active_count q" using assms by (simp add: qm_ok_def)
  with entered show ?thesis by (simp add: slot_exit_def release_def)
qed simp

theorem slot_roundtrip_witness:
  "\<exists>q'. slot_enter \<lparr>max_concurrency = 3, semaphore = 2, active_count = 1\<rparr> = Some (q', Inr ()) \<and>
     slot_exit q' = \<lparr>max_concurrency = 3, semaphore = 2, active_count = 1\<rparr>"
  using slot_roundtrip [of "\<lparr>max_concurrency = 3, semaphore = 2, active_count = 1\<rparr>"]
  by (auto simp: qm_ok_def is_at_capacity_def)

end
