(* ===== verification/Latency_Tracker.thy ===== *)
theory Latency_Tracker
  imports Models
begin

text \<open>
  \<open>app/latency_tracker.py\<close>: one exponential moving average and one window of recent
  observations per backend.

  Python's \<open>deque(maxlen=n)\<close> is a record of its bound and its items; the dictionaries
  are association lists.  \<open>record\<close> is \<open>record_latency\<close> here.  The writes run under
  a lock without a suspension point, so each is one atomic function.  The main lemma expresses
  every state the tracker can reach by the \<^emph>\<open>history\<close> of the observations made
  since the last reset; the properties are read off from it.
\<close>

section \<open>State and operations\<close>

record deque =
  maxlen :: nat
  items :: "flt list"

definition new_deque :: "nat \<Rightarrow> deque" where
  "new_deque n = \<lparr> maxlen = n, items = [] \<rparr>"

definition deque_append :: "flt \<Rightarrow> deque \<Rightarrow> deque" where
  "deque_append x d =
     (let xs = items d @ [x] in d\<lparr>items := if maxlen d < length xs then tl xs else xs\<rparr>)"

definition deque_clear :: "deque \<Rightarrow> deque" where
  "deque_clear d = d\<lparr>items := []\<rparr>"

interpretation window: bounded_buffer deque_append items maxlen
proof
  fix d :: deque and x
  assume "length (items d) \<le> maxlen d"
  then show "items (deque_append x d) = take_last (maxlen d) (items d @ [x])"
    by (cases "items d") (auto simp: deque_append_def take_last_def Let_def Suc_diff_le)
qed (simp add: deque_append_def Let_def)

record tracker =
  lt_alpha :: flt
  lt_ema :: "(string \<times> flt) list"
  lt_windows :: "(string \<times> deque) list"

abbreviation BACKEND_LOCAL :: string where "BACKEND_LOCAL \<equiv> ''local''"
abbreviation BACKEND_REMOTE :: string where "BACKEND_REMOTE \<equiv> ''remote''"

definition seed_ema :: "config \<Rightarrow> (string \<times> flt) list" where
  "seed_ema cfg =
     [(BACKEND_LOCAL, AVG_LOCAL_LATENCY_MS cfg), (BACKEND_REMOTE, AVG_REMOTE_LATENCY_MS cfg)]"

definition init_tracker :: "config \<Rightarrow> flt \<Rightarrow> nat \<Rightarrow> tracker" where
  "init_tracker cfg alpha window_size =
     \<lparr> lt_alpha = alpha, lt_ema = seed_ema cfg,
       lt_windows = [(BACKEND_LOCAL, new_deque window_size), (BACKEND_REMOTE, new_deque window_size)] \<rparr>"

text \<open>The first observation of a backend that has no average yet.\<close>

definition add_backend :: "string \<Rightarrow> flt \<Rightarrow> tracker \<Rightarrow> tracker \<times> (exc + unit)" where
  "add_backend b lat t =
     (let t' = t\<lparr>lt_ema := AList.update b lat (lt_ema t)\<rparr> in
      case map_of (lt_windows t') BACKEND_LOCAL of
        None \<Rightarrow> (t', Inl (KeyError BACKEND_LOCAL))
      | Some w \<Rightarrow>
          (t'\<lparr>lt_windows := AList.update b (new_deque (length (items w))) (lt_windows t')\<rparr>, Inr ()))"

definition ema_update :: "flt \<Rightarrow> flt \<Rightarrow> flt \<Rightarrow> flt" where
  "ema_update alpha lat ema = fadd (fmul alpha lat) (fmul (fsub 1 alpha) ema)"

definition record_latency :: "string \<Rightarrow> flt \<Rightarrow> tracker \<Rightarrow> tracker \<times> (exc + unit)" where
  "record_latency b lat t =
     (case (if map_of (lt_ema t) b = None then add_backend b lat t else (t, Inr ())) of
        (t1, Inl e) \<Rightarrow> (t1, Inl e)
      | (t1, Inr _) \<Rightarrow>
          (case map_of (lt_ema t1) b of
             None \<Rightarrow> (t1, Inl (KeyError b))
           | Some ema \<Rightarrow>
               let t2 = t1\<lparr>lt_ema := AList.update b (ema_update (lt_alpha t1) lat ema) (lt_ema t1)\<rparr>
               in case map_of (lt_windows t2) b of
                    None \<Rightarrow> (t2, Inl (KeyError b))
                  | Some w \<Rightarrow>
                      (t2\<lparr>lt_windows := AList.update b (deque_append lat w) (lt_windows t2)\<rparr>,
                       Inr ())))"

definition get_ema :: "tracker \<Rightarrow> string \<Rightarrow> flt" where
  "get_ema t b = (case map_of (lt_ema t) b of None \<Rightarrow> 500 | Some e \<Rightarrow> e)"

fun list_max :: "flt list \<Rightarrow> flt" where
  "list_max [] = 0"
| "list_max (x # xs) = fold max xs x"

definition get_estimate :: "tracker \<Rightarrow> string \<Rightarrow> flt" where
  "get_estimate t b =
     (let ema = (case map_of (lt_ema t) b of None \<Rightarrow> 500 | Some e \<Rightarrow> e) in
      case map_of (lt_windows t) b of
        None \<Rightarrow> ema
      | Some w \<Rightarrow> if items w = [] then ema else max ema (list_max (items w)))"

definition reset_tracker :: "config \<Rightarrow> tracker \<Rightarrow> tracker" where
  "reset_tracker cfg t =
     t\<lparr>lt_ema := seed_ema cfg, lt_windows := map (\<lambda>(b, w). (b, deque_clear w)) (lt_windows t)\<rparr>"

section \<open>Histories\<close>

datatype lt_op = Lt_record string flt | Lt_reset

fun lt_step :: "config \<Rightarrow> tracker \<Rightarrow> lt_op \<Rightarrow> tracker" where
  "lt_step cfg t (Lt_record b lat) = fst (record_latency b lat t)"
| "lt_step cfg t Lt_reset = reset_tracker cfg t"

text \<open>The observations of one backend since the last reset, oldest first.\<close>

fun observe :: "string \<Rightarrow> flt list \<Rightarrow> lt_op \<Rightarrow> flt list" where
  "observe b xs (Lt_record b' lat) = (if b' = b then xs @ [lat] else xs)"
| "observe b xs Lt_reset = []"

abbreviation history :: "string \<Rightarrow> lt_op list \<Rightarrow> flt list" where
  "history b ops \<equiv> run (observe b) [] ops"

lemma history_append: "Lt_reset \<notin> set post \<Longrightarrow> run (observe b) xs post = xs @ history b post"
proof (induction post arbitrary: xs)
  case (Cons op post)
  then have "Lt_reset \<notin> set post" by simp
  note IH = Cons.IH [OF this]
  show ?case using Cons.prems by (cases op) (simp_all add: IH [of "xs @ _"] IH [of "[_]"] IH [of xs])
qed simp

text \<open>The average and the estimate, as functions of the history.\<close>

definition ema_of :: "flt \<Rightarrow> flt \<Rightarrow> flt list \<Rightarrow> flt" where
  "ema_of alpha seed xs = fold (ema_update alpha) xs seed"

definition estimate_of :: "flt \<Rightarrow> nat \<Rightarrow> flt \<Rightarrow> flt list \<Rightarrow> flt" where
  "estimate_of alpha n seed xs = foldr max (take_last n xs) (ema_of alpha seed xs)"

lemma ema_of_snoc: "ema_of alpha seed (xs @ [x]) = ema_update alpha x (ema_of alpha seed xs)"
  by (simp add: ema_of_def)

lemma foldr_max_le: "foldr max xs e \<le> m \<longleftrightarrow> e \<le> (m :: flt) \<and> (\<forall>x \<in> set xs. x \<le> m)"
  by (induction xs) auto

lemma le_foldr_max: "x \<in> set xs \<Longrightarrow> x \<le> foldr max xs (e :: flt)" "e \<le> foldr max xs e"
  using foldr_max_le [of xs e "foldr max xs e"] by auto

lemma fold_max_foldr: "max (e :: flt) (fold max xs x) = foldr max (x # xs) e"
  by (induction xs arbitrary: x) (auto simp: max.assoc max.left_commute max.commute)

lemma list_max_foldr: "xs \<noteq> [] \<Longrightarrow> max e (list_max xs) = foldr max xs e"
  by (cases xs) (simp_all add: fold_max_foldr)

text \<open>The state of a tracker agrees with the histories.\<close>

definition seed_of :: "config \<Rightarrow> string \<Rightarrow> flt" where
  "seed_of cfg b = (if b = BACKEND_LOCAL then AVG_LOCAL_LATENCY_MS cfg else AVG_REMOTE_LATENCY_MS cfg)"

definition matches :: "config \<Rightarrow> flt \<Rightarrow> nat \<Rightarrow> (string \<Rightarrow> flt list) \<Rightarrow> tracker \<Rightarrow> bool" where
  "matches cfg alpha n h t \<longleftrightarrow>
     lt_alpha t = alpha \<and>
     fst ` set (lt_ema t) \<subseteq> fst ` set (lt_windows t) \<and>
     (\<forall>b \<in> {BACKEND_LOCAL, BACKEND_REMOTE}.
        map_of (lt_ema t) b = Some (ema_of alpha (seed_of cfg b) (h b)) \<and>
        map_of (lt_windows t) b = Some \<lparr> maxlen = n, items = take_last n (h b) \<rparr>)"

lemma matches_init: "matches cfg alpha n (\<lambda>_. []) (init_tracker cfg alpha n)"
  by (simp add: matches_def init_tracker_def seed_ema_def seed_of_def ema_of_def new_deque_def take_last_def)

lemma fst_set_update: "fst ` set (AList.update k v al) = insert k (fst ` set al)"
  using dom_map_of_conv_image_fst [of "AList.update k v al"] dom_map_of_conv_image_fst [of al]
  by (simp add: update_conv')

lemma deque_append_take_last:
  "deque_append x \<lparr> maxlen = n, items = take_last n xs \<rparr> = \<lparr> maxlen = n, items = take_last n (xs @ [x]) \<rparr>"
proof -
  let ?d = "\<lparr> maxlen = n, items = take_last n xs \<rparr>"
  have "items (deque_append x ?d) = take_last n (xs @ [x])"
    using window.contents_push [of ?d x] by (simp add: take_last_snoc)
  moreover have "maxlen (deque_append x ?d) = n" by (simp add: window.cap_push)
  ultimately show ?thesis by (cases "deque_append x ?d") simp
qed

lemma matches_record:
  assumes "matches cfg alpha n h t"
  shows "snd (record_latency b lat t) = Inr () \<and>
         matches cfg alpha n (h(b := h b @ [lat])) (fst (record_latency b lat t))"
proof -
  obtain w where w: "map_of (lt_windows t) BACKEND_LOCAL = Some w"
    using assms by (auto simp: matches_def)
  show ?thesis
  proof (cases "map_of (lt_ema t) b")
    case None
    then have "b \<noteq> BACKEND_LOCAL" "b \<noteq> BACKEND_REMOTE" using assms by (auto simp: matches_def)
    with None w assms show ?thesis
      by (auto simp: record_latency_def add_backend_def Let_def matches_def update_conv' fst_set_update)
  next
    case (Some e)
    then have "b \<in> fst ` set (lt_windows t)"
      using assms by (auto simp: matches_def dest!: map_of_SomeD_fst)
    then obtain w' where w': "map_of (lt_windows t) b = Some w'"
      by (metis map_of_None_fst not_None_eq)
    show ?thesis
    proof (cases "b \<in> {BACKEND_LOCAL, BACKEND_REMOTE}")
      case True
      then have "e = ema_of alpha (seed_of cfg b) (h b)" "w' = \<lparr> maxlen = n, items = take_last n (h b) \<rparr>"
        using assms Some w' by (auto simp: matches_def)
      with Some w' assms show ?thesis
        by (auto simp: record_latency_def Let_def matches_def update_conv' fst_set_update
              ema_of_snoc deque_append_take_last)
    next
      case False
      with Some w' assms show ?thesis
        by (auto simp: record_latency_def Let_def matches_def update_conv' fst_set_update)
    qed
  qed
qed

lemma map_of_clear: "map_of (map (\<lambda>(b, w). (b, deque_clear w)) al) b = map_option deque_clear (map_of al b)"
  by (induction al) auto

lemma fst_set_clear: "fst ` set (map (\<lambda>(b, w). (b, deque_clear w)) al) = fst ` set al"
  by force

lemma matches_reset:
  assumes "matches cfg alpha n h t"
  shows "matches cfg alpha n (\<lambda>_. []) (reset_tracker cfg t)"
proof -
  have "deque_clear \<lparr> maxlen = n, items = xs \<rparr> = \<lparr> maxlen = n, items = take_last n [] \<rparr>" for xs
    by (simp add: deque_clear_def)
  moreover have "{BACKEND_LOCAL, BACKEND_REMOTE} \<subseteq> fst ` set (lt_windows t)"
    using assms map_of_SomeD_fst [of "lt_windows t"] by (simp add: matches_def)
  moreover have "lt_windows (reset_tracker cfg t) = map (\<lambda>(b, w). (b, deque_clear w)) (lt_windows t)"
    "lt_ema (reset_tracker cfg t) = seed_ema cfg" "lt_alpha (reset_tracker cfg t) = lt_alpha t"
    by (simp_all add: reset_tracker_def)
  ultimately show ?thesis
    using assms unfolding matches_def
    by (simp add: map_of_clear fst_set_clear seed_ema_def seed_of_def ema_of_def del: set_map)
qed

interpretation histories: guarded_machine
  "\<lambda>(h, t) op. (\<lambda>b. observe b (h b) op, lt_step cfg t op)" "\<lambda>_ _. True"
  "\<lambda>(h, t). matches cfg alpha n h t"
  for cfg alpha n
proof
  fix s op
  assume s: "case s of (h, t) \<Rightarrow> matches cfg alpha n h t"
  obtain h t where ht: "s = (h, t)" by force
  show "case (case s of (h, t) \<Rightarrow> \<lambda>op. (\<lambda>b. observe b (h b) op, lt_step cfg t op)) op of
          (h, t) \<Rightarrow> matches cfg alpha n h t"
  proof (cases op)
    case (Lt_record b lat)
    then have "(\<lambda>b. observe b (h b) op) = h(b := h b @ [lat])" by (auto simp: fun_eq_iff)
    with s ht Lt_record matches_record [of cfg alpha n h t b lat] show ?thesis by simp
  next
    case Lt_reset
    with s ht show ?thesis by (auto intro: matches_reset)
  qed
qed

lemma run_pair:
  "run (\<lambda>(h, t) op. (\<lambda>b. observe b (h b) op, lt_step cfg t op)) (h, t) ops =
     (\<lambda>b. run (observe b) (h b) ops, run (lt_step cfg) t ops)"
  by (induction ops arbitrary: h t) simp_all

lemma permitted_always: "permitted (\<lambda>_ _. True) step s es"
  by (induction es arbitrary: s) auto

lemma matches_run:
  "matches cfg alpha n (\<lambda>b. history b ops) (run (lt_step cfg) (init_tracker cfg alpha n) ops)"
  using histories.inv_run [of cfg alpha n "(\<lambda>_. [], init_tracker cfg alpha n)" ops]
  by (simp add: matches_init permitted_always run_pair)

lemma estimate_matches:
  assumes "matches cfg alpha n h t" and "b = BACKEND_LOCAL \<or> b = BACKEND_REMOTE"
  shows "get_estimate t b = estimate_of alpha n (seed_of cfg b) (h b)"
    and "get_ema t b = ema_of alpha (seed_of cfg b) (h b)"
  using assms
  by (auto simp: matches_def get_estimate_def get_ema_def estimate_of_def list_max_foldr Let_def)

section \<open>The average stays in the range of the observations\<close>

lemma ema_update_nonneg: "0 \<le> alpha \<Longrightarrow> alpha \<le> 1 \<Longrightarrow> 0 \<le> lat \<Longrightarrow> 0 \<le> e \<Longrightarrow> 0 \<le> ema_update alpha lat e"
  unfolding ema_update_def by (intro fops_nonneg) auto

lemma ema_update_range:
  assumes alpha: "0 \<le> alpha" "alpha \<le> 1" "fsub 1 alpha = 1 - alpha"
    and D: "3 * half_ulp (hi + 2) \<le> alpha * D" "0 \<le> D" "D \<le> 1"
    and lat: "0 \<le> lo" "lo \<le> lat" "lat \<le> hi" and e: "0 \<le> e" "lo - D \<le> e" "e \<le> hi + D"
  shows "lo - D \<le> ema_update alpha lat e" and "ema_update alpha lat e \<le> hi + D"
proof -
  let ?d = "half_ulp (hi + 2)"
  have d: "0 \<le> ?d" using lat by (intro half_ulp_nonneg) simp
  have ad: "alpha * D \<le> 1" using mult_mono [OF alpha(2) D(3)] D(2) by simp
  have up: "alpha * lat + (1 - alpha) * e \<le> hi + D - alpha * D"
  proof -
    have "alpha * lat + (1 - alpha) * e \<le> alpha * hi + (1 - alpha) * (hi + D)"
      using alpha lat e by (intro add_mono mult_left_mono) auto
    then show ?thesis by (simp add: algebra_simps)
  qed
  have down: "lo - D + alpha * D \<le> alpha * lat + (1 - alpha) * e"
  proof -
    have "alpha * lo + (1 - alpha) * (lo - D) \<le> alpha * lat + (1 - alpha) * e"
      using alpha lat e by (intro add_mono mult_left_mono) auto
    then show ?thesis by (simp add: algebra_simps)
  qed
  have pos: "0 \<le> alpha * lat" "0 \<le> (1 - alpha) * e" using alpha lat e by auto
  have fpos: "0 \<le> fmul alpha lat" "0 \<le> fmul (1 - alpha) e"
    using pos by (simp_all add: fmul_def)
  have 1: "\<bar>fmul alpha lat - alpha * lat\<bar> \<le> ?d" and 2: "\<bar>fmul (1 - alpha) e - (1 - alpha) * e\<bar> \<le> ?d"
    using pos up d ad D by (intro fmul_error; linarith)+
  then have "\<bar>fmul alpha lat + fmul (1 - alpha) e\<bar> \<le> hi + 2"
    using up fpos d D by linarith
  then have 3: "\<bar>ema_update alpha lat e - (fmul alpha lat + fmul (1 - alpha) e)\<bar> \<le> ?d"
    unfolding ema_update_def alpha(3) by (rule fadd_error)
  show "lo - D \<le> ema_update alpha lat e" and "ema_update alpha lat e \<le> hi + D"
    using 1 2 3 up down D(1) by linarith+
qed

lemma ema_of_range:
  assumes alpha: "0 \<le> alpha" "alpha \<le> 1" "fsub 1 alpha = 1 - alpha"
    and D: "3 * half_ulp (hi + 2) \<le> alpha * D" "0 \<le> D" "D \<le> 1"
    and xs: "0 \<le> lo" "\<forall>x \<in> set (seed # xs). lo \<le> x \<and> x \<le> hi"
  shows "0 \<le> ema_of alpha seed xs \<and> lo - D \<le> ema_of alpha seed xs \<and> ema_of alpha seed xs \<le> hi + D"
  using xs(2)
proof (induction xs rule: rev_induct)
  case Nil
  then show ?case using xs(1) D by (auto simp: ema_of_def)
next
  case (snoc x xs)
  then have x: "lo \<le> x" "x \<le> hi" by auto
  with snoc ema_update_range [OF alpha D xs(1) x, of "ema_of alpha seed xs"]
    ema_update_nonneg [of alpha x "ema_of alpha seed xs"] alpha xs(1)
  show ?case by (auto simp: ema_of_snoc)
qed

lemma ema_of_nonneg:
  "0 \<le> alpha \<Longrightarrow> alpha \<le> 1 \<Longrightarrow> 0 \<le> seed \<Longrightarrow> \<forall>x \<in> set xs. 0 \<le> x \<Longrightarrow> 0 \<le> ema_of alpha seed xs"
  by (induction xs rule: rev_induct) (auto simp: ema_of_def intro: ema_update_nonneg)

lemma estimate_of_pos:
  assumes "0 < n" "0 \<le> alpha" "alpha \<le> 1" "\<forall>x \<in> set (seed # xs). 0 < x"
  shows "0 < estimate_of alpha n seed xs"
proof (cases xs rule: rev_cases)
  case Nil
  then show ?thesis using assms by (simp add: estimate_of_def ema_of_def)
next
  case (snoc ys x)
  then have "x \<in> set (take_last n xs)"
    using assms(1) by (simp add: take_last_def)
  then have "x \<le> estimate_of alpha n seed xs" unfolding estimate_of_def by (rule le_foldr_max)
  moreover have "0 < x" using snoc assms by simp
  ultimately show ?thesis by simp
qed

section \<open>Properties\<close>

text \<open>
  C35: The estimate is a function of the history.  After any sequence of records (of any
  backends) and resets, the estimate for the local or the remote backend is the maximum of its
  last \<open>window_size\<close> observations since the last reset and of the moving average of all
  of them started at the configured seed; the other backends never influence it, and no record
  raises.
\<close>

theorem estimate_from_history:
  assumes "b = BACKEND_LOCAL \<or> b = BACKEND_REMOTE"
    and "t = run (lt_step cfg) (init_tracker cfg alpha n) ops"
  shows "get_estimate t b = estimate_of alpha n (seed_of cfg b) (history b ops) \<and>
         get_ema t b = ema_of alpha (seed_of cfg b) (history b ops) \<and>
         snd (record_latency b' lat t) = Inr ()"
  using estimate_matches [OF matches_run assms(1)] matches_record [OF matches_run] assms(2) by blast

theorem estimate_from_history_witness:
  "get_estimate (run (lt_step default_config) (init_tracker default_config (1 / 4) 2)
     [Lt_record ''gpu'' 7, Lt_record ''local'' 650, Lt_reset, Lt_record ''local'' 1000,
      Lt_record ''remote'' 90, Lt_record ''local'' 400, Lt_record ''local'' 300]) ''local'' = 400"
proof -
  have "rnd (375 / 2) = 375 / 2" "rnd (2625 / 8) = 2625 / 8" "rnd (875 / 2) = 875 / 2"
    "rnd (3425 / 8) = 3425 / 8" "rnd (10275 / 32) = 10275 / 32" "rnd (12675 / 32) = 12675 / 32"
    by code_simp+
  note r = this
  have "estimate_of (1 / 4) 2 (seed_of default_config BACKEND_LOCAL)
      (history BACKEND_LOCAL [Lt_record ''gpu'' 7, Lt_record ''local'' 650, Lt_reset, Lt_record ''local'' 1000,
         Lt_record ''remote'' 90, Lt_record ''local'' 400, Lt_record ''local'' 300]) = 400"
    by (simp add: estimate_of_def ema_of_def ema_update_def float_eval take_last_def seed_of_def default_config_def r)
  with conjunct1 [OF estimate_from_history [OF disjI1 [OF refl] refl]] show ?thesis by (rule trans)
qed

text \<open>
  A spike is seen at once and forgotten after a window.  After an observation \<open>x\<close>,
  and until \<open>window_size\<close> later observations of the same backend were made, the
  estimate is at least \<open>x\<close>; from then on it is the maximum of the average and of
  later observations only.
\<close>

theorem spike_seen_then_forgotten:
  assumes "b = BACKEND_LOCAL \<or> b = BACKEND_REMOTE" and "Lt_reset \<notin> set post"
    and "t = run (lt_step cfg) (init_tracker cfg alpha n) (pre @ Lt_record b x # post)"
  shows "(length (history b post) < n \<longrightarrow> x \<le> get_estimate t b) \<and>
         (n \<le> length (history b post) \<longrightarrow>
            get_estimate t b = foldr max (take_last n (history b post)) (get_ema t b))"
proof -
  let ?ops = "pre @ Lt_record b x # post"
  have h: "history b ?ops = (history b pre @ [x]) @ history b post"
    using history_append [OF assms(2), of b "history b pre @ [x]"] by (simp add: run_append)
  have e: "get_estimate t b = foldr max (take_last n (history b ?ops)) (get_ema t b)"
    using estimate_matches [OF matches_run assms(1)] assms(3) by (simp add: estimate_of_def)
  have "x \<in> set (take_last n (history b ?ops))" if "length (history b post) < n"
    using that unfolding h by (simp add: take_last_def)
  moreover have "take_last n (history b ?ops) = take_last n (history b post)" if "n \<le> length (history b post)"
    using that unfolding h by (rule take_last_append)
  ultimately show ?thesis unfolding e using le_foldr_max(1) by (metis e)
qed

theorem spike_seen_then_forgotten_witness:
  "2000 \<le> get_estimate (run (lt_step default_config) (init_tracker default_config (1 / 4) 2)
     [Lt_record ''local'' 100, Lt_record ''local'' 2000, Lt_record ''remote'' 90, Lt_record ''local'' 50]) ''local''"
proof -
  have "Lt_reset \<notin> set [Lt_record ''remote'' 90, Lt_record ''local'' 50]" by simp
  from spike_seen_then_forgotten [OF disjI1 [OF refl] this refl, where x = 2000 and n = 2
      and cfg = default_config and alpha = "1 / 4" and pre = "[Lt_record ''local'' 100]"]
  have "length (history BACKEND_LOCAL [Lt_record ''remote'' 90, Lt_record ''local'' 50]) < 2 \<longrightarrow> ?thesis"
    unfolding append_Cons append_Nil by (rule conjunct1)
  then show ?thesis by simp
qed

text \<open>
  C36: The average stays in the range of what was observed.  If the seed and all observations
  lie between \<open>lo\<close> and \<open>hi\<close>, the float average is within \<open>D\<close> of
  that interval, for any number of updates, where \<open>D\<close> need only absorb three
  roundings against the weight \<open>alpha\<close>; the rounding errors do not accumulate.
\<close>

theorem ema_within_range:
  assumes "b = BACKEND_LOCAL \<or> b = BACKEND_REMOTE"
    and "t = run (lt_step cfg) (init_tracker cfg alpha n) ops"
    and "0 \<le> alpha" "alpha \<le> 1" "fsub 1 alpha = 1 - alpha"
    and "3 * half_ulp (hi + 2) \<le> alpha * D" "0 \<le> D" "D \<le> 1" "0 \<le> lo"
    and "\<forall>x \<in> set (seed_of cfg b # history b ops). lo \<le> x \<and> x \<le> hi"
  shows "lo - D \<le> get_ema t b \<and> get_ema t b \<le> hi + D"
  using ema_of_range [OF assms(3-10)] estimate_matches(2) [OF matches_run assms(1)] assms(2) by simp

theorem ema_within_range_witness:
  "100 - 1 / 10 ^ 9 \<le> get_ema (run (lt_step default_config) (init_tracker default_config (1 / 4) 5)
     (replicate 50 (Lt_record ''local'' 100))) ''local''"
proof -
  have h: "\<forall>x \<in> set (history BACKEND_LOCAL (replicate m (Lt_record ''local'' 100))). 100 \<le> x \<and> x \<le> 250" for m
  proof (induction m)
    case (Suc m)
    have "replicate (Suc m) (Lt_record ''local'' 100) = replicate m (Lt_record ''local'' 100) @ [Lt_record ''local'' 100]"
      by (simp add: replicate_append_same)
    then show ?case using Suc by (simp add: run_append)
  qed simp
  have r: "\<forall>x \<in> set (seed_of default_config BACKEND_LOCAL #
      history BACKEND_LOCAL (replicate 50 (Lt_record ''local'' 100))). 100 \<le> x \<and> x \<le> 250"
    using h [of 50] by (simp add: seed_of_def default_config_def)
  have d: "3 * half_ulp (250 + 2) \<le> 1 / 4 * (1 / 10 ^ 9)"
    using half_ulp_le [of "250 + 2"] by simp
  have a: "fsub 1 (1 / 4) = 1 - 1 / 4" by (simp add: float_eval)
  from ema_within_range [OF disjI1 [OF refl] refl _ _ a d _ _ _ r] show ?thesis by simp
qed

text \<open>
  Estimates are positive, whatever the order of updates, when the configured seeds and the
  recorded latencies are; the routing agent relies on this, since a reservation of zero cost
  and zero latency raises.
\<close>

theorem estimate_positive:
  assumes "b = BACKEND_LOCAL \<or> b = BACKEND_REMOTE"
    and "t = run (lt_step cfg) (init_tracker cfg alpha n) ops"
    and "0 < n" "0 \<le> alpha" "alpha \<le> 1"
    and "\<forall>x \<in> set (seed_of cfg b # history b ops). 0 < x"
  shows "0 < get_estimate t b"
  using estimate_of_pos [OF assms(3-6)] estimate_matches(1) [OF matches_run assms(1)] assms(2) by simp

theorem estimate_positive_witness:
  "0 < get_estimate (run (lt_step default_config) (init_tracker default_config (1 / 4) 5)
     [Lt_record ''local'' 100, Lt_record ''gpu'' 0, Lt_record ''local'' 3]) ''local''"
  by (rule estimate_positive [OF disjI1 [OF refl] refl])
     (simp_all add: seed_of_def default_config_def)

lemma zero_window_step:
  assumes "map_of (lt_windows t) b = Some (new_deque 0)" and "map_of (lt_ema t) b = Some e"
  shows "map_of (lt_windows (fst (record_latency b x t))) b = Some (new_deque 0) \<and>
         map_of (lt_ema (fst (record_latency b x t))) b = Some (ema_update (lt_alpha t) x e) \<and>
         lt_alpha (fst (record_latency b x t)) = lt_alpha t"
  using assms by (simp add: record_latency_def Let_def update_conv' deque_append_def new_deque_def)

lemma zero_window_run:
  assumes "map_of (lt_windows t) b = Some (new_deque 0)" and "map_of (lt_ema t) b = Some e"
  shows "map_of (lt_windows (run (lt_step cfg) t (map (Lt_record b) xs))) b = Some (new_deque 0) \<and>
         map_of (lt_ema (run (lt_step cfg) t (map (Lt_record b) xs))) b = Some (ema_of (lt_alpha t) e xs)"
  using assms
proof (induction xs arbitrary: t e)
  case (Cons x xs)
  from Cons.IH [of "fst (record_latency b x t)" "ema_update (lt_alpha t) x e"]
    zero_window_step [OF Cons.prems, of x]
  show ?case by (simp add: ema_of_def)
qed (simp add: ema_of_def)

text \<open>
  A backend that is first seen by \<open>record\<close> gets a window as long as the local
  window is \<^emph>\<open>filled\<close>, not as long as it may get.  When nothing local has been
  recorded yet, its window never keeps an observation, and its estimate stays the plain
  average however large the latencies recorded for it are.
\<close>

theorem new_backend_loses_spikes:
  assumes "map_of (lt_ema t) b = None" and "b \<noteq> BACKEND_LOCAL"
    and "map_of (lt_windows t) BACKEND_LOCAL = Some w" and "items w = []"
    and "t' = run (lt_step cfg) t (map (Lt_record b) (x # xs))"
  shows "get_estimate t' b = get_ema t' b \<and>
         get_ema t' b = ema_of (lt_alpha t) x (x # xs)"
proof -
  let ?t = "fst (record_latency b x t)"
  have "map_of (lt_windows ?t) b = Some (new_deque 0)"
    and "map_of (lt_ema ?t) b = Some (ema_update (lt_alpha t) x x)" and "lt_alpha ?t = lt_alpha t"
    using assms(1-4)
    by (simp_all add: record_latency_def add_backend_def Let_def update_conv' deque_append_def new_deque_def)
  from zero_window_run [OF this(1,2), of cfg xs] this(3) show ?thesis
    by (simp add: assms(5) get_estimate_def get_ema_def new_deque_def ema_of_def)
qed

theorem new_backend_loses_spikes_witness:
  "get_estimate (run (lt_step default_config) (init_tracker default_config (1 / 4) 5)
     [Lt_record ''gpu'' 100, Lt_record ''gpu'' 2000]) ''gpu'' = 575"
proof -
  have "map_of (lt_ema (init_tracker default_config (1 / 4) 5)) ''gpu'' = None"
    "map_of (lt_windows (init_tracker default_config (1 / 4) 5)) BACKEND_LOCAL = Some (new_deque 5)"
    by (simp_all add: init_tracker_def seed_ema_def)
  from new_backend_loses_spikes [OF this(1) _ this(2), of _ default_config 100 "[2000]"]
  show ?thesis
    by (simp add: new_deque_def ema_of_def ema_update_def float_eval init_tracker_def)
qed

end
