(* ===== verification/Decision_Agent.thy ===== *)
theory Decision_Agent
  imports Budget_Manager Queue_Monitor Latency_Tracker
begin

text \<open>
  \<open>app/decision_agent.py\<close>: the routing decision.

  The agent reads the queue monitor and the latency tracker and makes at most two calls of
  \<open>try_reserve\<close>.  None of these suspends, because the locks are never held across a
  suspension, so \<open>route\<close> is one atomic function of the three components.  A decision
  carries the reason as a datatype: one constructor per message of the source, with the values
  the message interpolates.

  \<open>first_feasible\<close> is the specification: the first feasible route in the order of the
  tier, as the module's documentation lists it.
\<close>

section \<open>Decisions\<close>

datatype reason =
    Fast_local_healthy int int flt flt
  | Fast_latency_cap
  | Fast_escalate_remote bool flt
  | Fast_degraded flt
  | Fast_degraded_latency_cap
  | Fast_exhausted bool
  | Quality_remote_preferred flt flt
  | Quality_fall_back_local flt
  | Quality_latency_cap
  | Quality_degraded flt
  | Quality_degraded_latency_cap
  | Quality_exhausted
  | Fallback_after_remote_failure

record routing_decision =
  rd_route :: route_decision
  rd_reservation :: "nat option"
  rd_estimated_latency_ms :: flt
  rd_reason :: reason

abbreviation decide :: "route_decision \<Rightarrow> nat option \<Rightarrow> flt \<Rightarrow> reason \<Rightarrow> routing_decision" where
  "decide r res est why \<equiv>
     \<lparr> rd_route = r, rd_reservation = res, rd_estimated_latency_ms = est, rd_reason = why \<rparr>"

type_synonym routed = "bm \<times> (exc + routing_decision) \<times> lock_call list"

text \<open>
  One path of the tree: reserve, take \<open>hit\<close> on success, continue with \<open>next\<close>
  when the manager refuses, and let an exception through.
\<close>

definition try_path ::
  "flt \<Rightarrow> string \<Rightarrow> string \<Rightarrow> flt \<Rightarrow> flt \<Rightarrow> (nat \<Rightarrow> routing_decision) \<Rightarrow> (bm \<Rightarrow> routed)
     \<Rightarrow> bm \<Rightarrow> routed" where
  "try_path now uuid rid cost lat hit next b =
     (case try_reserve now uuid rid cost lat b of
        (b', Inl e, calls) \<Rightarrow> (b', Inl e, calls)
      | (b', Inr (Some ref), calls) \<Rightarrow> (b', Inr (hit ref), calls)
      | (b', Inr None, calls) \<Rightarrow>
          (case next b' of (b'', r, calls') \<Rightarrow> (b'', r, calls @ calls')))"

definition stop :: "routing_decision \<Rightarrow> bm \<Rightarrow> routed" where
  "stop d b = (b, Inr d, [])"

definition little_estimate :: "tracker \<Rightarrow> int \<Rightarrow> flt" where
  "little_estimate lt depth = fmul (get_estimate lt BACKEND_LOCAL) (of_int (depth + 1))"

section \<open>The two trees\<close>

definition route_fast ::
  "config \<Rightarrow> flt \<Rightarrow> string \<Rightarrow> qm \<Rightarrow> tracker \<Rightarrow> inference_request \<Rightarrow> bool \<Rightarrow> flt \<Rightarrow> flt \<Rightarrow> bool \<Rightarrow> bool
     \<Rightarrow> int \<Rightarrow> bm \<Rightarrow> routed" where
  "route_fast cfg now uuid q lt req at_capacity est_local est_remote local_ok remote_ok depth b =
     (if \<not> at_capacity \<and> local_ok then
        try_path now uuid (request_id req) 0 est_local
          (\<lambda>ref. decide LOCAL (Some ref) est_local
             (Fast_local_healthy depth (max_concurrency q) est_local (latency_budget_ms req)))
          (stop (decide FAIL_FAST None est_local Fast_latency_cap)) b
      else
        let degraded = (\<lambda>b.
              if \<not> at_capacity then
                let degraded_est = little_estimate lt depth in
                try_path now uuid (request_id req) 0 degraded_est
                  (\<lambda>ref. decide QUEUE_LOCAL (Some ref) degraded_est (Fast_degraded degraded_est))
                  (stop (decide FAIL_FAST None 0 Fast_degraded_latency_cap)) b
              else stop (decide FAIL_FAST None 0 (Fast_exhausted remote_ok)) b)
        in if remote_ok then
             try_path now uuid (request_id req) (COST_PER_REMOTE_REQUEST cfg) est_remote
               (\<lambda>ref. decide REMOTE (Some ref) est_remote (Fast_escalate_remote at_capacity est_local))
               degraded b
           else degraded b)"

definition route_quality ::
  "config \<Rightarrow> flt \<Rightarrow> string \<Rightarrow> qm \<Rightarrow> tracker \<Rightarrow> inference_request \<Rightarrow> bool \<Rightarrow> flt \<Rightarrow> flt \<Rightarrow> bool \<Rightarrow> bool
     \<Rightarrow> int \<Rightarrow> bm \<Rightarrow> routed" where
  "route_quality cfg now uuid q lt req at_capacity est_local est_remote local_ok remote_ok depth b =
     (let local = (\<lambda>b.
            if \<not> at_capacity \<and> local_ok then
              try_path now uuid (request_id req) 0 est_local
                (\<lambda>ref. decide LOCAL (Some ref) est_local (Quality_fall_back_local est_local))
                (stop (decide FAIL_FAST None est_local Quality_latency_cap)) b
            else if \<not> at_capacity then
              let degraded_est = little_estimate lt depth in
              try_path now uuid (request_id req) 0 degraded_est
                (\<lambda>ref. decide QUEUE_LOCAL (Some ref) degraded_est (Quality_degraded degraded_est))
                (stop (decide FAIL_FAST None 0 Quality_degraded_latency_cap)) b
            else stop (decide FAIL_FAST None 0 Quality_exhausted) b)
      in if remote_ok then
           try_path now uuid (request_id req) (COST_PER_REMOTE_REQUEST cfg) est_remote
             (\<lambda>ref. decide REMOTE (Some ref) est_remote
                (Quality_remote_preferred est_remote (latency_budget_ms req)))
             local b
         else local b)"

definition route :: "config \<Rightarrow> flt \<Rightarrow> string \<Rightarrow> qm \<Rightarrow> tracker \<Rightarrow> inference_request \<Rightarrow> bm \<Rightarrow> routed" where
  "route cfg now uuid q lt req b =
     (let depth = active_count q;
          at_capacity = is_at_capacity q;
          est_local = little_estimate lt depth;
          est_remote = get_estimate lt BACKEND_REMOTE;
          local_ok = (est_local \<le> latency_budget_ms req);
          remote_ok = (est_remote \<le> latency_budget_ms req)
      in if req_complexity_tier req = Some QUALITY
         then route_quality cfg now uuid q lt req at_capacity est_local est_remote local_ok remote_ok depth b
         else route_fast cfg now uuid q lt req at_capacity est_local est_remote local_ok remote_ok depth b)"

section \<open>The specification: the first feasible route in the order of the tier\<close>

fun route_order :: "complexity_tier \<Rightarrow> route_decision list" where
  "route_order FAST = [LOCAL, REMOTE, QUEUE_LOCAL]"
| "route_order QUALITY = [REMOTE, LOCAL, QUEUE_LOCAL]"

text \<open>The cost and the latency a route reserves.\<close>

fun route_price :: "config \<Rightarrow> qm \<Rightarrow> tracker \<Rightarrow> route_decision \<Rightarrow> flt \<times> flt" where
  "route_price cfg q lt REMOTE = (COST_PER_REMOTE_REQUEST cfg, get_estimate lt BACKEND_REMOTE)"
| "route_price cfg q lt _ = (0, little_estimate lt (active_count q))"

fun route_feasible :: "config \<Rightarrow> qm \<Rightarrow> tracker \<Rightarrow> flt \<Rightarrow> bm \<Rightarrow> route_decision \<Rightarrow> bool" where
  "route_feasible cfg q lt sla b r =
     (case route_price cfg q lt r of
        (cost, lat) \<Rightarrow>
          admits cost lat b \<and>
          (r = LOCAL \<longrightarrow> \<not> is_at_capacity q \<and> lat \<le> sla) \<and>
          (r = REMOTE \<longrightarrow> lat \<le> sla) \<and>
          (r = QUEUE_LOCAL \<longrightarrow> \<not> is_at_capacity q))"

definition first_feasible :: "config \<Rightarrow> qm \<Rightarrow> tracker \<Rightarrow> flt \<Rightarrow> bm \<Rightarrow> complexity_tier \<Rightarrow> route_decision" where
  "first_feasible cfg q lt sla b tier =
     (case find (route_feasible cfg q lt sla b) (route_order tier) of
        Some r \<Rightarrow> r | None \<Rightarrow> FAIL_FAST)"

text \<open>
  The one case in which the code departs from that order: a \<open>FAST\<close> request whose local
  route is free and within its SLA, but whose latency the manager does not admit.
\<close>

definition local_cap_hit :: "qm \<Rightarrow> tracker \<Rightarrow> flt \<Rightarrow> bm \<Rightarrow> bool" where
  "local_cap_hit q lt sla b \<longleftrightarrow>
     \<not> is_at_capacity q \<and> little_estimate lt (active_count q) \<le> sla \<and>
     \<not> admits 0 (little_estimate lt (active_count q)) b"

section \<open>One path\<close>

text \<open>
  \<open>sane\<close> collects what the reservations of the agent need: positive estimates and a cost
  that is not negative.
\<close>

definition sane :: "config \<Rightarrow> qm \<Rightarrow> tracker \<Rightarrow> bool" where
  "sane cfg q lt \<longleftrightarrow>
     0 \<le> COST_PER_REMOTE_REQUEST cfg \<and> 0 < get_estimate lt BACKEND_REMOTE \<and>
     0 < little_estimate lt (active_count q)"

abbreviation reserve_calls :: "string \<Rightarrow> lock_call list" where
  "reserve_calls rid \<equiv> [(rid, Reserve_phase, Acquire), (rid, Reserve_phase, Release)]"

lemma try_path_eq:
  assumes "0 \<le> cost" "0 < lat"
  shows "try_path now uuid rid cost lat hit next b =
    (if admits cost lat b
     then (with_reservation now uuid cost lat b, Inr (hit (length (objects b))), reserve_calls rid)
     else case next b of (b', r, calls) \<Rightarrow> (b', r, reserve_calls rid @ calls))"
  using assms by (cases rule: try_reserve_cases [of cost lat now uuid rid b]) (auto simp: try_path_def)

text \<open>What every decision satisfies.\<close>

definition backed :: "config \<Rightarrow> flt \<Rightarrow> string \<Rightarrow> qm \<Rightarrow> tracker \<Rightarrow> flt \<Rightarrow> bm \<Rightarrow> bm \<Rightarrow> routing_decision \<Rightarrow> bool" where
  "backed cfg now uuid q lt sla b b' d \<longleftrightarrow>
     (if rd_route d = FAIL_FAST then rd_reservation d = None \<and> b' = b
      else route_feasible cfg q lt sla b (rd_route d) \<and>
           rd_reservation d = Some (length (objects b)) \<and>
           rd_estimated_latency_ms d = snd (route_price cfg q lt (rd_route d)) \<and>
           b' = with_reservation now uuid (fst (route_price cfg q lt (rd_route d)))
                  (snd (route_price cfg q lt (rd_route d))) b)"

lemma route_spec:
  assumes "sane cfg q lt"
  shows "\<exists>d calls. route cfg now uuid q lt req b = (fst (route cfg now uuid q lt req b), Inr d, calls) \<and>
    backed cfg now uuid q lt (latency_budget_ms req) b (fst (route cfg now uuid q lt req b)) d \<and>
    rd_route d =
      (if req_complexity_tier req \<noteq> Some QUALITY \<and> local_cap_hit q lt (latency_budget_ms req) b then FAIL_FAST
       else first_feasible cfg q lt (latency_budget_ms req) b
              (if req_complexity_tier req = Some QUALITY then QUALITY else FAST))"
  using assms
  by (auto simp: sane_def route_def route_fast_def route_quality_def try_path_eq stop_def Let_def backed_def
        first_feasible_def local_cap_hit_def)

lemma routeE:
  assumes "sane cfg q lt" and "route cfg now uuid q lt req b = (b', r, calls)"
  obtains d where "r = Inr d" and "backed cfg now uuid q lt (latency_budget_ms req) b b' d"
    and "rd_route d =
      (if req_complexity_tier req \<noteq> Some QUALITY \<and> local_cap_hit q lt (latency_budget_ms req) b then FAIL_FAST
       else first_feasible cfg q lt (latency_budget_ms req) b
              (if req_complexity_tier req = Some QUALITY then QUALITY else FAST))"
  using route_spec [OF assms(1), of now uuid req b] assms(2) that by auto

lemma routeD:
  assumes "sane cfg q lt" and "route cfg now uuid q lt req b = (b', Inr d, calls)"
  shows "backed cfg now uuid q lt (latency_budget_ms req) b b' d"
    and "rd_route d =
      (if req_complexity_tier req \<noteq> Some QUALITY \<and> local_cap_hit q lt (latency_budget_ms req) b then FAIL_FAST
       else first_feasible cfg q lt (latency_budget_ms req) b
              (if req_complexity_tier req = Some QUALITY then QUALITY else FAST))"
  by (rule routeE [OF assms]; simp only: sum.inject)+

lemma backed_slot:
  assumes "backed cfg now uuid q lt sla b b' d" and "qm_ok q" and "rd_route d = LOCAL \<or> rd_route d = QUEUE_LOCAL"
  shows "\<exists>q'. slot_enter q = Some (q', Inr ())"
proof -
  have "\<not> is_at_capacity q" using assms(1,3) by (auto simp: backed_def)
  with assms(2) show ?thesis by (cases rule: slot_enter_cases [OF assms(2)]) auto
qed

text \<open>
  A decision moves the manager by at most one reservation, so the invariants of the manager
  carry over to the agent.
\<close>

lemma route_price_sane:
  "sane cfg q lt \<Longrightarrow> 0 \<le> fst (route_price cfg q lt r) \<and> 0 < snd (route_price cfg q lt r)"
  by (cases r) (auto simp: sane_def)

lemma backed_step:
  assumes "sane cfg q lt" and "backed cfg now uuid q lt sla b b' d"
  shows "b' = b \<or>
         b' = bm_step b (Op_reserve now uuid rid (fst (route_price cfg q lt (rd_route d)))
                                            (snd (route_price cfg q lt (rd_route d))))"
proof (cases "rd_route d = FAIL_FAST")
  case False
  then have a: "admits (fst (route_price cfg q lt (rd_route d))) (snd (route_price cfg q lt (rd_route d))) b"
    using assms(2) by (cases "route_price cfg q lt (rd_route d)") (auto simp: backed_def)
  show ?thesis
    using route_price_sane [OF assms(1), of "rd_route d"] False assms(2)
    by (simp add: try_reserve_granted [OF _ _ _ a] backed_def)
qed (use assms(2) in \<open>simp add: backed_def\<close>)

lemma sane_tracker:
  assumes "0 \<le> COST_PER_REMOTE_REQUEST cfg" and "qm_ok q"
    and "0 < get_estimate lt BACKEND_REMOTE" and "0 < get_estimate lt BACKEND_LOCAL"
    and "is_float (get_estimate lt BACKEND_LOCAL)"
  shows "sane cfg q lt"
proof -
  let ?e = "get_estimate lt BACKEND_LOCAL"
  have "1 \<le> (of_int (active_count q + 1) :: rat)"
    using assms(2) by (simp add: qm_ok_def)
  then have "fmul ?e 1 \<le> little_estimate lt (active_count q)"
    unfolding little_estimate_def using assms(4) by (intro fmul_mono) auto
  then show ?thesis using assms by (simp add: sane_def)
qed

section \<open>Concrete decisions\<close>

definition sample_tracker :: tracker where
  "sample_tracker = init_tracker default_config (1 / 4) 5"

definition sample_qm :: "int \<Rightarrow> qm" where
  "sample_qm k = \<lparr> max_concurrency = 8, semaphore = 8 - k, active_count = k \<rparr>"

definition sample_request :: "complexity_tier \<Rightarrow> flt \<Rightarrow> inference_request" where
  "sample_request tier sla =
     \<lparr> request_id = ''r1'', prompt = ''Explain Fail_Remote'', latency_budget_ms = sla, req_complexity_tier = Some tier \<rparr>"

definition sample_config :: config where
  "sample_config = default_config\<lparr>COST_PER_REMOTE_REQUEST := 1, MAX_CUMULATIVE_LATENCY_MS := 1000,
     BACKEND_MODE := ''mock''\<rparr>"

lemma sample_estimates [simp]:
  "get_estimate sample_tracker BACKEND_LOCAL = 250" "get_estimate sample_tracker BACKEND_REMOTE = 800"
  by (simp_all add: sample_tracker_def get_estimate_def init_tracker_def seed_ema_def default_config_def new_deque_def)

lemma sample_sane: "k \<in> {0, 7, 8} \<Longrightarrow> sane sample_config (sample_qm k) sample_tracker"
  by (auto simp: sane_def little_estimate_def sample_qm_def sample_config_def float_eval)

definition sample_manager :: "flt \<Rightarrow> bm" where
  "sample_manager cap =
     \<lparr> max_remote_budget = 5, max_cumulative_latency_ms = cap, reservation_ttl_seconds = 45,
       cumulative_remote_cost = 0, reserved_for_execution = 0, cumulative_actual_latency_ms = 0,
       bm_reserved_latency_ms = 0, active_reservations = [], objects = [] \<rparr>"

lemma sample_manager_wf: "bm_wf (sample_manager cap)"
  by (simp add: bm_wf_def sample_manager_def)

lemma sample_admits:
  "is_float lat \<Longrightarrow> lat \<le> 1000 \<Longrightarrow> admits 0 lat (sample_manager 1000)"
  "is_float lat \<Longrightarrow> lat \<le> 1000 \<Longrightarrow> admits 1 lat (sample_manager 1000)"
  by (rule admitsI; simp add: sample_manager_def float_eval)+

lemma sample_not_admits: "\<not> admits 0 2000 (sample_manager 1000)"
  by (rule notI, drule admits_latD) (simp add: sample_manager_def float_eval)

lemmas sample_defs =
  sample_qm_def sample_config_def sample_request_def little_estimate_def is_at_capacity_def float_eval

text \<open>
  With seven of eight slots taken and 1000 ms left under the latency cap, the local estimate of
  2000 ms is refused although the 800 ms of the remote backend would be admitted.
\<close>

lemma sample_route_fast:
  "route sample_config 3 ''b'' (sample_qm 7) sample_tracker (sample_request FAST 3000) (sample_manager 1000) =
     (sample_manager 1000, Inr (decide FAIL_FAST None 2000 Fast_latency_cap), reserve_calls ''r1'')"
  by (simp add: route_def route_fast_def sample_defs try_path_eq sample_not_admits stop_def Let_def)

lemma sample_route_remote:
  "route sample_config 3 ''b'' (sample_qm 7) sample_tracker (sample_request QUALITY 3000) (sample_manager 1000) =
     (with_reservation 3 ''b'' 1 800 (sample_manager 1000),
      Inr (decide REMOTE (Some 0) 800 (Quality_remote_preferred 800 3000)), reserve_calls ''r1'')"
  by (simp add: route_def route_quality_def sample_defs try_path_eq sample_admits Let_def)
     (simp add: sample_manager_def)

lemma sample_route_remote_idle:
  "route sample_config 3 ''b'' (sample_qm 0) sample_tracker (sample_request QUALITY 3000) (sample_manager 1000) =
     (with_reservation 3 ''b'' 1 800 (sample_manager 1000),
      Inr (decide REMOTE (Some 0) 800 (Quality_remote_preferred 800 3000)), reserve_calls ''r1'')"
  by (simp add: route_def route_quality_def sample_defs try_path_eq sample_admits Let_def)
     (simp add: sample_manager_def)

lemma sample_route_local:
  "route sample_config 3 ''b'' (sample_qm 0) sample_tracker (sample_request FAST 3000) (sample_manager 1000) =
     (with_reservation 3 ''b'' 0 250 (sample_manager 1000),
      Inr (decide LOCAL (Some 0) 250 (Fast_local_healthy 0 8 250 3000)), reserve_calls ''r1'')"
  by (simp add: route_def route_fast_def sample_defs try_path_eq sample_admits Let_def)
     (simp add: sample_manager_def)

section \<open>Properties\<close>

text \<open>
  C6: The agent decides as specified.  The chosen route is the first feasible one in the order
  of the tier (\<open>FAIL_FAST\<close> if none is), feasible meaning that the manager admits its
  price, that it meets the SLA, and that a local slot is free, as far as the route asks for
  these; the only exception is a \<open>FAST\<close> request whose local route is free and within its
  SLA but not admitted.  The route never raises.
\<close>

theorem route_first_feasible:
  assumes "sane cfg q lt" and "route cfg now uuid q lt req b = (b', r, calls)"
  shows "\<exists>d. r = Inr d \<and> rd_route d =
      (if req_complexity_tier req \<noteq> Some QUALITY \<and> local_cap_hit q lt (latency_budget_ms req) b then FAIL_FAST
       else first_feasible cfg q lt (latency_budget_ms req) b
              (if req_complexity_tier req = Some QUALITY then QUALITY else FAST))"
  using routeE [OF assms] by blast

text \<open>
  C7: A decision is backed by exactly one reservation.  \<open>FAIL_FAST\<close> carries no
  reservation and leaves the manager unchanged.  Every other decision carries the reference of
  the newest object, which is pending, active under the fresh identifier, and holds the
  decision's estimate as latency and as cost the configured price for \<open>REMOTE\<close> and
  zero for the local routes; nothing else in the table changes.
\<close>

theorem decision_backed:
  assumes "sane cfg q lt" and "route cfg now uuid q lt req b = (b', Inr d, calls)"
    and "bm_wf b" and "uuid \<notin> res_id ` set (objects b)"
  shows "bm_wf b' \<and>
    (if rd_route d = FAIL_FAST then rd_reservation d = None \<and> b' = b
     else rd_reservation d = Some (length (objects b)) \<and>
          abs_table b' = (abs_table b)(uuid \<mapsto>
            \<lparr> reserved_cost = (if rd_route d = REMOTE then COST_PER_REMOTE_REQUEST cfg else 0),
              reserved_latency_ms = rd_estimated_latency_ms d,
              ttl_seconds = reservation_ttl_seconds b, res_id = uuid, created_at = now,
              res_state = Pending \<rparr>))"
proof -
  note d = routeD(1) [OF assms(1,2)]
  show ?thesis
  proof (cases "rd_route d = FAIL_FAST")
    case True
    with d assms(3) show ?thesis by (simp add: backed_def)
  next
    case False
    with d assms(3,4) show ?thesis
      by (cases "rd_route d")
         (simp_all add: backed_def bm_wf_with_reservation abs_table_with_reservation)
  qed
qed

theorem route_first_feasible_witness:
  "first_feasible sample_config (sample_qm 7) sample_tracker 3000 (sample_manager 1000) QUALITY = REMOTE"
  using route_first_feasible [OF sample_sane sample_route_remote] by (simp add: sample_request_def)

theorem decision_backed_witness:
  "abs_table (with_reservation 3 ''b'' 1 800 (sample_manager 1000)) ''b'' =
     Some \<lparr> reserved_cost = 1, reserved_latency_ms = 800, ttl_seconds = 45, res_id = ''b'',
            created_at = 3, res_state = Pending \<rparr>"
  using decision_backed [OF sample_sane sample_route_remote sample_manager_wf]
  by (simp add: sample_manager_def sample_config_def)

text \<open>
  C31: The limits the routes stand for.  A \<open>LOCAL\<close> or \<open>REMOTE\<close> decision has
  an estimate within the latency budget of the request; a \<open>QUEUE_LOCAL\<close> decision misses it.
  After a \<open>LOCAL\<close> or \<open>QUEUE_LOCAL\<close> decision a slot is free: entering
  \<open>slot()\<close> on the same monitor succeeds at once.
\<close>

theorem route_limits:
  assumes "sane cfg q lt" and "route cfg now uuid q lt req b = (b', Inr d, calls)" and "qm_ok q"
  shows "(rd_route d = LOCAL \<or> rd_route d = REMOTE \<longrightarrow> rd_estimated_latency_ms d \<le> latency_budget_ms req) \<and>
         (rd_route d = QUEUE_LOCAL \<longrightarrow> latency_budget_ms req < rd_estimated_latency_ms d) \<and>
         (rd_route d = LOCAL \<or> rd_route d = QUEUE_LOCAL \<longrightarrow> (\<exists>q'. slot_enter q = Some (q', Inr ())))"
proof -
  note d = routeD(1) [OF assms(1,2)] and r = routeD(2) [OF assms(1,2)]
  note slot = backed_slot [OF d assms(3)]
  have late: "latency_budget_ms req < rd_estimated_latency_ms d" if q: "rd_route d = QUEUE_LOCAL"
  proof -
    have "first_feasible cfg q lt (latency_budget_ms req) b tier \<noteq> QUEUE_LOCAL"
      if "little_estimate lt (active_count q) \<le> latency_budget_ms req" for tier
      using that by (cases tier) (auto simp: first_feasible_def)
    then have "latency_budget_ms req < little_estimate lt (active_count q)"
      using q r by (auto simp: not_le [symmetric] split: if_splits)
    moreover have "rd_estimated_latency_ms d = little_estimate lt (active_count q)"
      using d q by (simp add: backed_def)
    ultimately show ?thesis by simp
  qed
  show ?thesis
  proof (cases "rd_route d")
    case LOCAL
    with d slot show ?thesis by (simp add: backed_def)
  next
    case REMOTE
    with d show ?thesis by (simp add: backed_def)
  next
    case QUEUE_LOCAL
    with d slot late show ?thesis by (simp add: backed_def)
  qed simp
qed

theorem route_limits_witness:
  "\<exists>q'. slot_enter (sample_qm 0) = Some (q', Inr ())"
  using route_limits [OF sample_sane sample_route_local] by (simp add: qm_ok_def sample_qm_def)

text \<open>
  The latency cap on the first path of the \<open>FAST\<close> tier ends the search.  When the
  local route is free and within its SLA but its latency is not admitted, the request is
  rejected even if the remote route is feasible, which is the route the documented order gives.
\<close>

theorem fast_path_stops_at_latency_cap:
  assumes "sane cfg q lt" and "req_complexity_tier req = Some FAST"
    and "local_cap_hit q lt (latency_budget_ms req) b"
    and "route_feasible cfg q lt (latency_budget_ms req) b REMOTE"
  shows "first_feasible cfg q lt (latency_budget_ms req) b FAST = REMOTE \<and>
         (\<exists>d calls. route cfg now uuid q lt req b = (b, Inr d, calls) \<and> rd_route d = FAIL_FAST)"
proof -
  obtain b' r calls where e: "route cfg now uuid q lt req b = (b', r, calls)" by (rule prod_cases3)
  from routeE [OF assms(1) e] assms(2,3) obtain d
    where "r = Inr d" "backed cfg now uuid q lt (latency_budget_ms req) b b' d" "rd_route d = FAIL_FAST" by auto
  with e have "\<exists>d calls. route cfg now uuid q lt req b = (b, Inr d, calls) \<and> rd_route d = FAIL_FAST"
    by (simp add: backed_def)
  moreover have "first_feasible cfg q lt (latency_budget_ms req) b FAST = REMOTE"
    using assms(3,4) by (simp add: first_feasible_def local_cap_hit_def)
  ultimately show ?thesis by blast
qed

theorem fast_path_stops_at_latency_cap_witness:
  "\<exists>d calls. route sample_config 3 ''b'' (sample_qm 7) sample_tracker (sample_request FAST 3000)
     (sample_manager 1000) = (sample_manager 1000, Inr d, calls) \<and> rd_route d = FAIL_FAST"
proof -
  have "local_cap_hit (sample_qm 7) sample_tracker (latency_budget_ms (sample_request FAST 3000)) (sample_manager 1000)"
    "route_feasible sample_config (sample_qm 7) sample_tracker (latency_budget_ms (sample_request FAST 3000))
       (sample_manager 1000) REMOTE"
    by (simp_all add: local_cap_hit_def sample_defs sample_not_admits sample_admits)
  from fast_path_stops_at_latency_cap [OF sample_sane _ this] show ?thesis
    by (simp add: sample_request_def)
qed

end
