(* ===== verification/Event_Bus.thy ===== *)
theory Event_Bus
  imports Prelude
begin

text \<open>
  \<open>app/event_bus.py\<close>: the broadcast bus of the dashboard.

  An \<open>asyncio.Queue\<close> is an object with identity, so the queues live in a store and the
  module's list of subscribers holds references into it.  \<open>get_nowait\<close> and
  \<open>put_nowait\<close> return \<open>None\<close> where Python raises \<open>QueueEmpty\<close> and
  \<open>QueueFull\<close>; \<open>take_event\<close> is \<open>get\<close>, with \<open>None\<close> for a
  suspended caller.
\<close>

section \<open>State and operations\<close>

definition MAX_QUEUE_SIZE :: nat where
  "MAX_QUEUE_SIZE = 64"

definition queue_full :: "'e list \<Rightarrow> bool" where
  "queue_full q \<longleftrightarrow> MAX_QUEUE_SIZE \<le> length q"

fun get_nowait :: "'e list \<Rightarrow> ('e \<times> 'e list) option" where
  "get_nowait [] = None"
| "get_nowait (e # q) = Some (e, q)"

definition put_nowait :: "'e \<Rightarrow> 'e list \<Rightarrow> 'e list option" where
  "put_nowait e q = (if queue_full q then None else Some (q @ [e]))"

text \<open>The body of the loop of \<open>publish\<close>.\<close>

definition deliver :: "'e \<Rightarrow> 'e list \<Rightarrow> 'e list" where
  "deliver e q =
     (let q1 = (if queue_full q then (case get_nowait q of None \<Rightarrow> q | Some (_, q') \<Rightarrow> q') else q)
      in case put_nowait e q1 of None \<Rightarrow> q1 | Some q2 \<Rightarrow> q2)"

record 'e bus =
  bus_queues :: "'e list list"
  bus_subscribers :: "nat list"

definition init_bus :: "'e bus" where
  "init_bus = \<lparr> bus_queues = [], bus_subscribers = [] \<rparr>"

definition subscribe :: "'e bus \<Rightarrow> 'e bus \<times> nat" where
  "subscribe b =
     (let ref = length (bus_queues b) in
      (b\<lparr>bus_queues := bus_queues b @ [[]], bus_subscribers := bus_subscribers b @ [ref]\<rparr>, ref))"

definition unsubscribe :: "nat \<Rightarrow> 'e bus \<Rightarrow> 'e bus" where
  "unsubscribe ref b = b\<lparr>bus_subscribers := remove1 ref (bus_subscribers b)\<rparr>"

definition publish :: "'e \<Rightarrow> 'e bus \<Rightarrow> 'e bus" where
  "publish e b =
     b\<lparr>bus_queues := fold (\<lambda>ref qs. qs[ref := deliver e (qs ! ref)]) (bus_subscribers b) (bus_queues b)\<rparr>"

definition take_event :: "nat \<Rightarrow> 'e bus \<Rightarrow> ('e \<times> 'e bus) option" where
  "take_event ref b =
     (case get_nowait (bus_queues b ! ref) of
        None \<Rightarrow> None
      | Some (e, q) \<Rightarrow> Some (e, b\<lparr>bus_queues := (bus_queues b)[ref := q]\<rparr>))"

section \<open>One client's queue is a bounded buffer\<close>

interpretation client: bounded_buffer deliver "\<lambda>q. q" "\<lambda>_. MAX_QUEUE_SIZE"
proof
  fix q :: "'e list" and e
  assume "length q \<le> MAX_QUEUE_SIZE"
  then show "deliver e q = take_last MAX_QUEUE_SIZE (q @ [e])"
    by (cases q) (auto simp: deliver_def put_nowait_def queue_full_def take_last_def Let_def MAX_QUEUE_SIZE_def)
qed simp

section \<open>The list of subscribers\<close>

definition bus_ok :: "'e bus \<Rightarrow> bool" where
  "bus_ok b \<longleftrightarrow>
     distinct (bus_subscribers b) \<and> (\<forall>ref \<in> set (bus_subscribers b). ref < length (bus_queues b)) \<and>
     (\<forall>q \<in> set (bus_queues b). length q \<le> MAX_QUEUE_SIZE)"

lemma fold_deliver:
  assumes "distinct refs" "\<forall>ref \<in> set refs. ref < length qs"
  shows "length (fold (\<lambda>ref qs. qs[ref := deliver e (qs ! ref)]) refs qs) = length qs \<and>
         (\<forall>i < length qs. fold (\<lambda>ref qs. qs[ref := deliver e (qs ! ref)]) refs qs ! i =
            (if i \<in> set refs then deliver e (qs ! i) else qs ! i))"
  using assms
proof (induction refs arbitrary: qs)
  case (Cons r refs)
  from Cons.IH [of "qs[r := deliver e (qs ! r)]"] Cons.prems show ?case
    by (auto simp: nth_list_update)
qed simp

lemma publish_nth:
  assumes "bus_ok b" "i < length (bus_queues b)"
  shows "bus_queues (publish e b) ! i =
    (if i \<in> set (bus_subscribers b) then deliver e (bus_queues b ! i) else bus_queues b ! i)"
  using fold_deliver [of "bus_subscribers b" "bus_queues b" e] assms by (simp add: bus_ok_def publish_def)

lemma publish_simps [simp]:
  "bus_subscribers (publish e b) = bus_subscribers b"
  "bus_ok b \<Longrightarrow> length (bus_queues (publish e b)) = length (bus_queues b)"
  using fold_deliver [of "bus_subscribers b" "bus_queues b" e] by (simp_all add: bus_ok_def publish_def)

lemma bus_ok_publish: "bus_ok b \<Longrightarrow> bus_ok (publish e b)"
proof -
  assume ok: "bus_ok b"
  have "length q \<le> MAX_QUEUE_SIZE" if "q \<in> set (bus_queues (publish e b))" for q
  proof -
    from that ok obtain i where i: "i < length (bus_queues b)" "q = bus_queues (publish e b) ! i"
      by (auto simp: in_set_conv_nth)
    have "length (bus_queues b ! i) \<le> MAX_QUEUE_SIZE" using ok i by (simp add: bus_ok_def)
    then show ?thesis using publish_nth [OF ok i(1), of e] i(2) by (simp add: client.length_push)
  qed
  then show "bus_ok (publish e b)" using ok by (simp add: bus_ok_def)
qed

lemma bus_ok_init [simp]: "bus_ok init_bus"
  by (simp add: bus_ok_def init_bus_def)

lemma bus_ok_subscribe: "bus_ok b \<Longrightarrow> bus_ok (fst (subscribe b))"
  by (auto simp: bus_ok_def subscribe_def Let_def)

lemma bus_ok_unsubscribe: "bus_ok b \<Longrightarrow> bus_ok (unsubscribe ref b)"
  by (auto simp: bus_ok_def unsubscribe_def dest: notin_set_remove1 [THEN contrapos_nn])

lemma bus_ok_take: "bus_ok b \<Longrightarrow> take_event ref b = Some (e, b') \<Longrightarrow> ref < length (bus_queues b) \<Longrightarrow> bus_ok b'"
proof (cases "bus_queues b ! ref")
  case (Cons e' q)
  assume b: "bus_ok b" "take_event ref b = Some (e, b')" "ref < length (bus_queues b)"
  with Cons have "e' # q \<in> set (bus_queues b)" using nth_mem by metis
  with b(1) have "length q \<le> MAX_QUEUE_SIZE" by (auto simp: bus_ok_def)
  with b Cons show ?thesis
    by (auto simp: bus_ok_def take_event_def dest!: set_update_subset_insert [THEN subsetD])
qed (simp add: take_event_def)

lemma publishes_nth:
  assumes "bus_ok b" "i < length (bus_queues b)"
  shows "bus_queues (fold publish es b) ! i =
    (if i \<in> set (bus_subscribers b) then fold deliver es (bus_queues b ! i) else bus_queues b ! i) \<and>
    bus_ok (fold publish es b) \<and> length (bus_queues (fold publish es b)) = length (bus_queues b) \<and>
    bus_subscribers (fold publish es b) = bus_subscribers b"
  using assms
proof (induction es arbitrary: b)
  case (Cons e es)
  from Cons.IH [of "publish e b"] Cons.prems show ?case
    by (simp add: bus_ok_publish publish_nth)
qed simp

section \<open>Properties\<close>

text \<open>
  C39: Fan-out.  Publishing a sequence of events gives every subscriber the newest 64 of its
  pending and the published events, in the order they were published, and touches no other
  queue; no queue ever holds more than 64 events.
\<close>

theorem publish_fan_out:
  assumes "bus_ok b" "i < length (bus_queues b)"
  shows "bus_queues (fold publish es b) ! i =
    (if i \<in> set (bus_subscribers b) then take_last MAX_QUEUE_SIZE (bus_queues b ! i @ es)
     else bus_queues b ! i) \<and> bus_ok (fold publish es b)"
proof -
  have "length (bus_queues b ! i) \<le> MAX_QUEUE_SIZE" using assms by (simp add: bus_ok_def)
  then show ?thesis
    using publishes_nth [OF assms, of es] client.contents_pushes [of "bus_queues b ! i" es] by simp
qed

theorem publish_fan_out_witness:
  "bus_queues (fold publish (replicate 70 False @ [True]) (unsubscribe 0 (fst (subscribe (fst (subscribe init_bus)))))) ! 1 =
     replicate 63 False @ [True]"
proof -
  let ?b = "unsubscribe 0 (fst (subscribe (fst (subscribe (init_bus :: bool bus)))))"
  have ok: "bus_ok ?b" by (intro bus_ok_unsubscribe bus_ok_subscribe bus_ok_init)
  have q: "bus_queues ?b = [[], []]" "bus_subscribers ?b = [1]"
    by (simp_all add: subscribe_def unsubscribe_def init_bus_def Let_def)
  have "take_last MAX_QUEUE_SIZE (replicate 70 False @ [True]) = replicate 63 False @ [True]"
    by (simp add: take_last_def MAX_QUEUE_SIZE_def drop_replicate)
  with publish_fan_out [OF ok, of 1 "replicate 70 False @ [True]"] show ?thesis
    unfolding q by simp
qed

text \<open>
  A client that has unsubscribed gets nothing any more.  After \<open>unsubscribe\<close> its
  queue keeps what it held through any later events, the other subscriptions are kept in order,
  and unsubscribing a second time changes nothing.
\<close>

theorem unsubscribe_final:
  assumes "bus_ok b" "ref < length (bus_queues b)"
  shows "bus_queues (fold publish es (unsubscribe ref b)) ! ref = bus_queues b ! ref \<and>
         bus_subscribers (unsubscribe ref b) = filter (\<lambda>r. r \<noteq> ref) (bus_subscribers b) \<and>
         unsubscribe ref (unsubscribe ref b) = unsubscribe ref b"
proof -
  have s: "bus_subscribers (unsubscribe ref b) = filter (\<lambda>r. r \<noteq> ref) (bus_subscribers b)"
    using assms(1) by (simp add: unsubscribe_def bus_ok_def distinct_remove1_removeAll removeAll_filter_not_eq eq_commute)
  then have "ref \<notin> set (bus_subscribers (unsubscribe ref b))" by simp
  moreover have "ref < length (bus_queues (unsubscribe ref b))"
    "bus_queues (unsubscribe ref b) = bus_queues b" using assms(2) by (simp_all add: unsubscribe_def)
  ultimately have "bus_queues (fold publish es (unsubscribe ref b)) ! ref = bus_queues b ! ref"
    using publishes_nth [OF bus_ok_unsubscribe [OF assms(1)], of ref ref es] by simp
  moreover have "unsubscribe ref (unsubscribe ref b) = unsubscribe ref b"
    using \<open>ref \<notin> set (bus_subscribers (unsubscribe ref b))\<close>
    unfolding unsubscribe_def [of ref "unsubscribe ref b"] by (simp add: remove1_idem)
  ultimately show ?thesis using s by blast
qed

theorem unsubscribe_final_witness:
  "bus_queues (fold publish [1, 2 :: int] (unsubscribe 0 (fst (subscribe init_bus)))) ! 0 = []"
proof -
  have "bus_ok (fst (subscribe (init_bus :: int bus)))" by (intro bus_ok_subscribe bus_ok_init)
  from unsubscribe_final [OF this, of 0 "[1, 2]"] show ?thesis
    by (simp add: subscribe_def init_bus_def Let_def)
qed

end
