(* ===== verification/PyText.thy ===== *)
theory PyText
  imports Models
begin

text \<open>
  The numbers in Python's f-strings: \<open>{n}\<close>, \<open>{n:03d}\<close>, \<open>{x:.6f}\<close>, and the
  alignment of a field.  \<open>{x:.kf}\<close> rounds the exact value of the double half to even, so
  \<open>half_even\<close> of the scaled value gives its digits.  \<open>read_nat\<close> reads decimal digits
  back: what is printed determines the number.  \<open>class_name\<close> and \<open>exc_text\<close> are
  \<open>type(e).__name__\<close> and \<open>str(e)\<close> of the exceptions of the program.
\<close>

definition digit :: "nat \<Rightarrow> char" where
  "digit d = char_of (48 + d)"

fun show_nat :: "nat \<Rightarrow> string" where
  "show_nat n = (if n < 10 then [digit n] else show_nat (n div 10) @ [digit (n mod 10)])"

declare show_nat.simps [simp del]

definition show_int :: "int \<Rightarrow> string" where
  "show_int n = (if n < 0 then CHR ''-'' # show_nat (nat (- n)) else show_nat (nat n))"

definition zero_pad :: "nat \<Rightarrow> string \<Rightarrow> string" where
  "zero_pad w s = replicate (w - length s) (CHR ''0'') @ s"

definition align_right :: "nat \<Rightarrow> string \<Rightarrow> string" where
  "align_right w s = replicate (w - length s) (CHR '' '') @ s"

definition align_left :: "nat \<Rightarrow> string \<Rightarrow> string" where
  "align_left w s = s @ replicate (w - length s) (CHR '' '')"

definition show_fixed :: "nat \<Rightarrow> flt \<Rightarrow> string" where
  "show_fixed k x =
     (let s = zero_pad (k + 1) (show_nat (nat (half_even (\<bar>x\<bar> * 10 ^ k))));
          body = (if k = 0 then s else take (length s - k) s @ CHR ''.'' # drop (length s - k) s)
      in if x < 0 then CHR ''-'' # body else body)"

section \<open>Reading digits back\<close>

definition read_nat :: "string \<Rightarrow> nat" where
  "read_nat s = foldl (\<lambda>a c. 10 * a + (of_char c - 48)) 0 s"

lemma of_char_digit [simp]: "d < 10 \<Longrightarrow> of_char (digit d) = 48 + d"
  by (simp add: digit_def)

lemma read_nat_snoc [simp]: "read_nat (s @ [c]) = 10 * read_nat s + (of_char c - 48)"
  by (simp add: read_nat_def)

lemma read_show_nat [simp]: "read_nat (show_nat n) = n"
proof (induction n rule: show_nat.induct)
  case (1 n)
  show ?case
  proof (cases "n < 10")
    case True
    then show ?thesis by (simp add: show_nat.simps [of n] read_nat_def)
  next
    case False
    with 1 have "read_nat (show_nat (n div 10)) = n div 10" by simp
    with False show ?thesis by (simp add: show_nat.simps [of n])
  qed
qed

lemma read_zero_pad [simp]: "read_nat (zero_pad w s) = read_nat s"
proof -
  have "foldl (\<lambda>a c. 10 * a + (of_char c - 48)) 0 (replicate n (CHR ''0'')) = (0::nat)" for n
    by (induction n) simp_all
  then show ?thesis by (simp add: zero_pad_def read_nat_def)
qed

lemma show_nat_inject [simp]: "show_nat m = show_nat n \<longleftrightarrow> m = n"
  by (metis read_show_nat)

lemma zero_pad_show_inject [simp]: "zero_pad w (show_nat m) = zero_pad w (show_nat n) \<longleftrightarrow> m = n"
  by (metis read_zero_pad read_show_nat)

lemma digits_show_nat: "c \<in> set (show_nat n) \<Longrightarrow> 48 \<le> (of_char c :: nat)"
proof (induction n rule: show_nat.induct)
  case (1 n)
  then show ?case by (cases "n < 10") (auto simp: show_nat.simps [of n])
qed

lemma show_nat_not_minus: "show_nat m \<noteq> CHR ''-'' # s"
proof
  assume "show_nat m = CHR ''-'' # s"
  then have "CHR ''-'' \<in> set (show_nat m)" by simp
  then show False by (auto dest: digits_show_nat)
qed

lemma show_int_inject [simp]: "show_int m = show_int n \<longleftrightarrow> m = n"
  by (auto simp: show_int_def show_nat_not_minus show_nat_not_minus [symmetric])

section \<open>The texts of exceptions\<close>

definition quoted :: "string \<Rightarrow> string" where
  "quoted s = CHR 0x27 # s @ [CHR 0x27]"

fun class_name :: "exc \<Rightarrow> string" where
  "class_name (ValueError _) = ''ValueError''"
| "class_name (RuntimeError _) = ''RuntimeError''"
| "class_name (InvalidReservationState _) = ''InvalidReservationStateError''"
| "class_name (ActualCostExceeded _ _) = ''ActualCostExceededReservationError''"
| "class_name (ActualLatencyExceeded _ _) = ''ActualLatencyExceededReservationError''"
| "class_name (KeyError _) = ''KeyError''"
| "class_name (RemoteInferenceError _) = ''RemoteInferenceError''"
| "class_name (TransientRemoteError _) = ''TransientRemoteError''"
| "class_name (RetryError _) = ''RetryError''"
| "class_name (HttpUnreachable c _) = c"
| "class_name (OtherException c _) = c"
| "class_name CancelledError = ''CancelledError''"

fun exc_text :: "exc \<Rightarrow> string" where
  "exc_text (ValueError m) = m"
| "exc_text (RuntimeError m) = m"
| "exc_text (InvalidReservationState rid) =
     ''Reservation '' @ quoted rid @ '' is not active. It may have already been settled or expired.''"
| "exc_text (ActualCostExceeded cost reserved) =
     ''actual_cost ('' @ show_fixed 6 cost @ '') > reserved ('' @ show_fixed 6 reserved @ '')''"
| "exc_text (ActualLatencyExceeded lat cap) =
     ''Committing '' @ show_fixed 1 lat @ ''ms would breach global cap of '' @ show_fixed 1 cap @ ''ms''"
| "exc_text (KeyError k) = quoted k"
| "exc_text (RemoteInferenceError m) = m"
| "exc_text (TransientRemoteError m) = m"
| "exc_text (RetryError m) = m"
| "exc_text (HttpUnreachable _ m) = m"
| "exc_text (OtherException _ m) = m"
| "exc_text CancelledError = []"

end
