(* ===== verification/Json.thy ===== *)
theory Json
  imports PyText
begin

text \<open>
  JSON documents as Python holds them.  A parsed body is a value of \<open>json\<close>, and the dynamically typed
  operations on it (\<open>get\<close>, indexing, slicing, multiplication) raise where Python's raise;
  \<open>try_then\<close> goes on unless there was an exception.
\<close>

section \<open>JSON values and Python's operations on them\<close>

datatype json =
    JNull
  | JBool bool
  | JInt int
  | JFloat flt
  | JString string
  | JList "json list"
  | JObject "(string \<times> json) list"

fun type_name :: "json \<Rightarrow> string" where
  "type_name JNull = ''NoneType''"
| "type_name (JBool _) = ''bool''"
| "type_name (JInt _) = ''int''"
| "type_name (JFloat _) = ''float''"
| "type_name (JString _) = ''str''"
| "type_name (JList _) = ''list''"
| "type_name (JObject _) = ''dict''"

fun truthy :: "json \<Rightarrow> bool" where
  "truthy JNull = False"
| "truthy (JBool b) = b"
| "truthy (JInt n) = (n \<noteq> 0)"
| "truthy (JFloat x) = (x \<noteq> 0)"
| "truthy (JString s) = (s \<noteq> [])"
| "truthy (JList xs) = (xs \<noteq> [])"
| "truthy (JObject kvs) = (kvs \<noteq> [])"

text \<open>\<open>v.get(k, d)\<close>, \<open>v[0]\<close>, \<open>v[:n]\<close> and \<open>v * x\<close> for a float \<open>x\<close>.\<close>

fun json_get :: "json \<Rightarrow> string \<Rightarrow> json \<Rightarrow> exc + json" where
  "json_get (JObject kvs) k d = Inr (case map_of kvs k of None \<Rightarrow> d | Some v \<Rightarrow> v)"
| "json_get v k d =
     Inl (OtherException ''AttributeError''
            (quoted (type_name v) @ '' object has no attribute '' @ quoted ''get''))"

definition not_subscriptable :: "json \<Rightarrow> exc" where
  "not_subscriptable v =
     OtherException ''TypeError'' (quoted (type_name v) @ '' object is not subscriptable'')"

fun json_first :: "json \<Rightarrow> exc + json" where
  "json_first (JList (v # _)) = Inr v"
| "json_first (JList []) = Inl (OtherException ''IndexError'' ''list index out of range'')"
| "json_first (JString (c # _)) = Inr (JString [c])"
| "json_first (JString []) = Inl (OtherException ''IndexError'' ''string index out of range'')"
| "json_first (JObject _) = Inl (OtherException ''KeyError'' ''0'')"
| "json_first v = Inl (not_subscriptable v)"

fun json_slice :: "nat \<Rightarrow> json \<Rightarrow> exc + json" where
  "json_slice n (JString s) = Inr (JString (take n s))"
| "json_slice n (JList vs) = Inr (JList (take n vs))"
| "json_slice n (JObject _) =
     Inl (OtherException ''KeyError'' (''slice(None, '' @ show_nat n @ '', None)''))"
| "json_slice n v = Inl (not_subscriptable v)"

fun json_times :: "json \<Rightarrow> flt \<Rightarrow> exc + flt" where
  "json_times (JInt n) x = Inr (fmul (rnd (of_int n)) x)"
| "json_times (JFloat y) x = Inr (fmul y x)"
| "json_times (JBool b) x = Inr (fmul (of_bool b) x)"
| "json_times (JString _) x =
     Inl (OtherException ''TypeError'' (''can'' @ CHR 0x27 # ''t multiply sequence by non-int of type '' @ quoted ''float''))"
| "json_times (JList _) x =
     Inl (OtherException ''TypeError'' (''can'' @ CHR 0x27 # ''t multiply sequence by non-int of type '' @ quoted ''float''))"
| "json_times v x =
     Inl (OtherException ''TypeError''
       (''unsupported operand type(s) for *: '' @ quoted (type_name v) @ '' and '' @ quoted ''float''))"

fun json_text :: "(json \<Rightarrow> string) \<Rightarrow> json \<Rightarrow> string" where
  "json_text rp JNull = ''None''"
| "json_text rp (JBool b) = (if b then ''True'' else ''False'')"
| "json_text rp (JInt n) = show_int n"
| "json_text rp (JString s) = s"
| "json_text rp v = rp v"

text \<open>\<open>try_then r f\<close> goes on with \<open>f\<close> unless \<open>r\<close> raised.\<close>

definition try_then :: "exc + 'a \<Rightarrow> ('a \<Rightarrow> exc + 'b) \<Rightarrow> exc + 'b" where
  "try_then r f = (case r of Inl e \<Rightarrow> Inl e | Inr v \<Rightarrow> f v)"

lemma try_then_simps [simp]: "try_then (Inl e) f = Inl e" "try_then (Inr v) f = f v"
  by (simp_all add: try_then_def)

lemma try_then_Inr: "try_then r f = Inr y \<longleftrightarrow> (\<exists>x. r = Inr x \<and> f x = Inr y)"
  by (cases r) simp_all

end
