(* ===== verification/Lifecycle_Log.thy ===== *)
theory Lifecycle_Log
  imports Decision_Agent Event_Bus Json
begin

text \<open>
  The logging functions of \<open>app/observability.py\<close>.  A JSON record is a value of
  \<open>log_event\<close> (the constructor is its \<open>event\<close> field); the logger is the list of
  records it was given, and the functions that also call \<open>publish\<close> put the record on the
  event bus.  The lock trace sits beside them: \<open>record_calls\<close> stamps the
  \<open>lock_event\<close> calls a budget operation made, \<open>clock k\<close> being the reading of
  \<open>time.perf_counter\<close> for the \<open>k\<close>-th of them.
\<close>

section \<open>Records\<close>

text \<open>Texts that the program builds from a decision's reason or from an exception.\<close>

datatype detail =
    Because reason
  | Plain string
  | Error_text exc
  | Prefixed string exc

datatype log_event =
    Request_received string flt complexity_tier
  | Route_decided string route_decision complexity_tier reason flt int flt string
  | Reservation_made string string flt flt
  | Execution_start string string
  | Execution_complete string string flt flt int int int int string flt
  | Reservation_committed string string flt flt
  | Reservation_rolled_back string string detail flt
  | Fail_fast_logged string detail int
  | Remote_failure string detail
  | Ollama_health_ok string
  | Ollama_health_warn string
  | Rollback_event string string flt detail
  | Run_started string
  | Run_completed string string "(string \<times> json) list" "(string \<times> json) list"

record obs =
  ob_log :: "log_event list"
  ob_bus :: "log_event bus"
  ob_trace :: "lock_entry list"

definition init_obs :: obs where
  "init_obs = \<lparr> ob_log = [], ob_bus = init_bus, ob_trace = [] \<rparr>"

definition log_only :: "log_event \<Rightarrow> obs \<Rightarrow> obs" where
  "log_only e ob = ob\<lparr>ob_log := ob_log ob @ [e]\<rparr>"

definition log_and_publish :: "log_event \<Rightarrow> obs \<Rightarrow> obs" where
  "log_and_publish e ob = (log_only e ob)\<lparr>ob_bus := publish e (ob_bus ob)\<rparr>"

section \<open>The logging functions\<close>

definition log_request_received :: "string \<Rightarrow> flt \<Rightarrow> complexity_tier \<Rightarrow> obs \<Rightarrow> obs" where
  "log_request_received rid sla tier = log_only (Request_received rid sla tier)"

definition log_route_decision ::
  "string \<Rightarrow> route_decision \<Rightarrow> reason \<Rightarrow> flt \<Rightarrow> int \<Rightarrow> flt \<Rightarrow> complexity_tier \<Rightarrow> string \<Rightarrow> obs \<Rightarrow> obs" where
  "log_route_decision rid r why est depth liquid tier p =
     log_and_publish (Route_decided rid r tier why (clip est) depth (clip liquid) p)"

definition log_reservation_made :: "string \<Rightarrow> string \<Rightarrow> flt \<Rightarrow> flt \<Rightarrow> obs \<Rightarrow> obs" where
  "log_reservation_made rid res cost lat = log_only (Reservation_made rid res (clip cost) (clip lat))"

definition log_execution_start :: "string \<Rightarrow> string \<Rightarrow> obs \<Rightarrow> obs" where
  "log_execution_start rid backend = log_only (Execution_start rid backend)"

definition log_execution_complete ::
  "string \<Rightarrow> string \<Rightarrow> flt \<Rightarrow> flt \<Rightarrow> int \<Rightarrow> int \<Rightarrow> int \<Rightarrow> int \<Rightarrow> string \<Rightarrow> flt \<Rightarrow> obs \<Rightarrow> obs" where
  "log_execution_complete rid backend cost lat pt ct cr cw outcome remaining =
     log_and_publish
       (Execution_complete rid backend (clip cost) (clip lat) pt ct cr cw outcome (clip remaining))"

definition log_reservation_committed :: "string \<Rightarrow> string \<Rightarrow> flt \<Rightarrow> flt \<Rightarrow> obs \<Rightarrow> obs" where
  "log_reservation_committed rid res cost remaining =
     log_only (Reservation_committed rid res (clip cost) (clip remaining))"

definition log_reservation_rolled_back :: "string \<Rightarrow> string \<Rightarrow> detail \<Rightarrow> flt \<Rightarrow> obs \<Rightarrow> obs" where
  "log_reservation_rolled_back rid res why cost =
     log_only (Reservation_rolled_back rid res why (clip cost))"

definition log_fail_fast :: "string \<Rightarrow> detail \<Rightarrow> int \<Rightarrow> obs \<Rightarrow> obs" where
  "log_fail_fast rid why status = log_and_publish (Fail_fast_logged rid why status)"

definition log_remote_failure :: "string \<Rightarrow> detail \<Rightarrow> obs \<Rightarrow> obs" where
  "log_remote_failure rid err = log_only (Remote_failure rid err)"

definition log_ollama_health :: "bool \<Rightarrow> string \<Rightarrow> obs \<Rightarrow> obs" where
  "log_ollama_health reachable url =
     log_only (if reachable then Ollama_health_ok url else Ollama_health_warn url)"

definition log_rollback_event :: "string \<Rightarrow> string \<Rightarrow> flt \<Rightarrow> detail \<Rightarrow> obs \<Rightarrow> obs" where
  "log_rollback_event rid res cost why = log_and_publish (Rollback_event rid res (clip cost) why)"

definition log_run_start :: "string \<Rightarrow> obs \<Rightarrow> obs" where
  "log_run_start run_id = log_and_publish (Run_started run_id)"

definition log_run_complete ::
  "string \<Rightarrow> string \<Rightarrow> (string \<times> json) list \<Rightarrow> (string \<times> json) list \<Rightarrow> obs \<Rightarrow> obs" where
  "log_run_complete run_id verdict metrics routes =
     log_and_publish (Run_completed run_id verdict metrics routes)"

fun record_calls :: "(nat \<Rightarrow> flt) \<Rightarrow> nat \<Rightarrow> lock_call list \<Rightarrow> obs \<Rightarrow> obs" where
  "record_calls clock k [] ob = ob"
| "record_calls clock k (c # calls) ob =
     record_calls clock (Suc k) calls
       (ob\<lparr>ob_trace := lock_event (fmul (clock k) 1000000, c) (ob_trace ob)\<rparr>)"

lemmas log_defs =
  log_only_def log_and_publish_def log_request_received_def log_route_decision_def log_reservation_made_def
  log_execution_start_def log_execution_complete_def log_reservation_committed_def
  log_reservation_rolled_back_def log_fail_fast_def log_remote_failure_def log_ollama_health_def
  log_rollback_event_def log_run_start_def log_run_complete_def

end
