(* ===== verification/Classifier.thy ===== *)
theory Classifier
  imports Models
begin

text \<open>
  \<open>app/complexity_classifier.py\<close>: the heuristic that bins a prompt into a tier.

  The part of Python's \<open>re\<close> that the patterns use is the datatype \<open>rx\<close>:
  character classes (already folded for \<open>IGNORECASE\<close>), bounded and unbounded repetition
  of a class, \<open>\b\<close>, \<open>^\<close>, \<open>$\<close>, concatenation, alternatives and
  \<open>?\<close>.  \<open>ends s r i\<close> computes the positions at which a match that starts at
  \<open>i\<close> can end.  Only the existence of a match matters to \<open>search\<close>, so greediness
  plays no role.  A prompt is a \<open>string\<close>, a sequence of code points below 256:
  \<open>\w\<close>, \<open>\d\<close>, white space and lower case are those of Python on these.
\<close>

section \<open>Characters\<close>

definition ord :: "char \<Rightarrow> nat" where
  "ord c = of_char c"

definition to_lower :: "char \<Rightarrow> char" where
  "to_lower c =
     (if (65 \<le> ord c \<and> ord c \<le> 90) \<or> (192 \<le> ord c \<and> ord c \<le> 222 \<and> ord c \<noteq> 215)
      then char_of (ord c + 32) else c)"

definition is_digit :: "char \<Rightarrow> bool" where
  "is_digit c \<longleftrightarrow> 48 \<le> ord c \<and> ord c \<le> 57"

definition is_word :: "char \<Rightarrow> bool" where
  "is_word c \<longleftrightarrow>
     (let n = ord c in (48 \<le> n \<and> n \<le> 57) \<or> (65 \<le> n \<and> n \<le> 90) \<or> (97 \<le> n \<and> n \<le> 122) \<or> n = 95 \<or>
        n \<in> {170, 178, 179, 181, 185, 186, 188, 189, 190} \<or> (192 \<le> n \<and> n \<noteq> 215 \<and> n \<noteq> 247))"

definition is_space :: "char \<Rightarrow> bool" where
  "is_space c \<longleftrightarrow> (let n = ord c in (9 \<le> n \<and> n \<le> 13) \<or> (28 \<le> n \<and> n \<le> 32) \<or> n = 133 \<or> n = 160)"

section \<open>Strings: \<open>strip\<close> and \<open>split\<close>\<close>

definition strip :: "string \<Rightarrow> string" where
  "strip s = rev (dropWhile is_space (rev (dropWhile is_space s)))"

fun split_words :: "string \<Rightarrow> string \<Rightarrow> string list" where
  "split_words [] w = (if w = [] then [] else [rev w])"
| "split_words (c # s) w =
     (if is_space c then (if w = [] then split_words s [] else rev w # split_words s [])
      else split_words s (c # w))"

definition split :: "string \<Rightarrow> string list" where
  "split s = split_words s []"

section \<open>Regular expressions\<close>

datatype rx =
    One "char \<Rightarrow> bool"
  | Many nat "nat option" "char \<Rightarrow> bool"
  | Boundary
  | Begin
  | Finish
  | Seq rx rx
  | Alt rx rx
  | Maybe rx

definition word_at :: "string \<Rightarrow> nat \<Rightarrow> bool" where
  "word_at s i \<longleftrightarrow> i < length s \<and> is_word (s ! i)"

text \<open>\<open>\b\<close>: exactly one of the characters before and after the position is a word character.\<close>

definition boundary_at :: "string \<Rightarrow> nat \<Rightarrow> bool" where
  "boundary_at s i \<longleftrightarrow> (0 < i \<and> word_at s (i - 1)) \<noteq> word_at s i"

text \<open>\<open>$\<close>: at the end, or before a newline that ends the string.\<close>

definition finish_at :: "string \<Rightarrow> nat \<Rightarrow> bool" where
  "finish_at s i \<longleftrightarrow> i = length s \<or> (Suc i = length s \<and> ord (s ! i) = 10)"

fun ends :: "string \<Rightarrow> rx \<Rightarrow> nat \<Rightarrow> nat list" where
  "ends s (One p) i = (if i < length s \<and> p (s ! i) then [Suc i] else [])"
| "ends s (Many lo hi p) i =
     (let m = length (takeWhile p (drop i s));
          m' = (case hi of None \<Rightarrow> m | Some h \<Rightarrow> min h m)
      in [i + lo ..< Suc (i + m')])"
| "ends s Boundary i = (if boundary_at s i then [i] else [])"
| "ends s Begin i = (if i = 0 then [i] else [])"
| "ends s Finish i = (if finish_at s i then [i] else [])"
| "ends s (Seq r q) i = remdups (concat (map (ends s q) (ends s r i)))"
| "ends s (Alt r q) i = ends s r i @ ends s q i"
| "ends s (Maybe r) i = i # ends s r i"

definition search :: "rx \<Rightarrow> string \<Rightarrow> bool" where
  "search r s \<longleftrightarrow> list_ex (\<lambda>i. ends s r i \<noteq> []) [0 ..< Suc (length s)]"

section \<open>The patterns\<close>

definition ci :: "char \<Rightarrow> rx" where
  "ci c = One (\<lambda>d. to_lower d = c)"

definition any_of :: "string \<Rightarrow> rx" where
  "any_of cs = One (\<lambda>d. to_lower d \<in> set cs)"

abbreviation dot :: "char \<Rightarrow> bool" where
  "dot \<equiv> (\<lambda>d. ord d \<noteq> 10)"

fun seqs :: "rx list \<Rightarrow> rx" where
  "seqs [] = Many 0 (Some 0) (\<lambda>_. False)"
| "seqs [r] = r"
| "seqs (r # rs) = Seq r (seqs rs)"

fun alts :: "rx list \<Rightarrow> rx" where
  "alts [] = One (\<lambda>_. False)"
| "alts [r] = r"
| "alts (r # rs) = Alt r (alts rs)"

definition lit :: "string \<Rightarrow> rx" where
  "lit w = seqs (map ci w)"

definition word :: "string \<Rightarrow> rx" where
  "word w = Seq Boundary (Seq (lit w) Boundary)"

definition bounded :: "rx list \<Rightarrow> rx" where
  "bounded rs = Seq Boundary (Seq (seqs rs) Boundary)"

definition starts :: "rx list \<Rightarrow> rx" where
  "starts rs = Seq Begin (Seq (seqs rs) Boundary)"

definition QUALITY_PATTERNS :: "rx list" where
  "QUALITY_PATTERNS =
     [word ''explain'', word ''why'',
      bounded [lit ''analys'', any_of ''ei'', Maybe (lit ''s'')],
      bounded [lit ''analyz'', Maybe (lit ''e'')],
      word ''compare'', word ''contrast'', word ''design'', word ''architect'', word ''implement'', word ''code'',
      Seq (word ''write'') (Seq (Many 0 (Some 40) dot)
        (bounded [alts [lit ''essay'', lit ''report'', lit ''letter'', lit ''function'', lit ''class'',
                        lit ''module'', lit ''script'']])),
      word ''prove'', word ''derive'',
      bounded [lit ''optimi'', any_of ''sz'', Maybe (lit ''e'')],
      word ''refactor'', word ''debug'',
      bounded [lit ''step'', One dot, lit ''by'', One dot, lit ''step''],
      word ''breakdown'', word ''summarise'', word ''summarize'',
      word ''how does'', word ''how do'', word ''what are the'',
      bounded [lit ''advantage'', Maybe (lit ''s'')],
      bounded [lit ''disadvantage'', Maybe (lit ''s'')],
      bounded [lit ''trade'', Maybe (One dot), lit ''off'', Maybe (lit ''s'')],
      word ''recommend'', word ''sugggest'', word ''evaluate'', word ''critique'']"

definition arith_char :: "char \<Rightarrow> bool" where
  "arith_char d \<longleftrightarrow> is_digit d \<or> is_space d \<or> d \<in> set ''+-*/^''"

definition FAST_PATTERNS :: "rx list" where
  "FAST_PATTERNS =
     [starts [lit ''what is''], starts [lit ''who is''], starts [lit ''who was''],
      starts [lit ''when '', alts [lit ''is'', lit ''was'', lit ''did'']],
      starts [lit ''where '', alts [lit ''is'', lit ''was'']],
      starts [alts [lit ''hi'', lit ''hello'', lit ''hey'', lit ''good morning'', lit ''good evening'']],
      starts [lit ''thank'', Maybe (lit ''s'')],
      starts [alts [lit ''yes'', lit ''no'', lit ''ok'', lit ''okay'', lit ''sure'']],
      word ''define'', word ''spell'',
      bounded [lit ''translat'', any_of ''ei''],
      Seq (starts [lit ''list'']) (Seq (Many 0 (Some 20) dot) (Seq Boundary (Maybe (Seq (lit ''of'') Boundary)))),
      seqs [Begin, One is_digit,
            Many 1 None arith_char,
            Maybe (lit ''=''), Finish]]"

definition TOKEN_THRESHOLD :: nat where
  "TOKEN_THRESHOLD = 60"

definition classify :: "string \<Rightarrow> complexity_tier" where
  "classify p =
     (let stripped = strip p in
      if list_ex (\<lambda>r. search r stripped) QUALITY_PATTERNS then QUALITY
      else if list_ex (\<lambda>r. search r stripped) FAST_PATTERNS then FAST
      else if TOKEN_THRESHOLD \<le> length (split stripped) then QUALITY
      else FAST)"

section \<open>The matcher is correct\<close>

text \<open>The declarative meaning of an expression: it matches \<open>s\<close> from \<open>i\<close> to \<open>j\<close>.\<close>

inductive rx_match :: "string \<Rightarrow> rx \<Rightarrow> nat \<Rightarrow> nat \<Rightarrow> bool" for s where
  m_one: "i < length s \<Longrightarrow> p (s ! i) \<Longrightarrow> rx_match s (One p) i (Suc i)"
| m_many: "lo \<le> n \<Longrightarrow> (\<And>h. hi = Some h \<Longrightarrow> n \<le> h) \<Longrightarrow> i + n \<le> length s \<Longrightarrow>
     (\<And>k. k < n \<Longrightarrow> p (s ! (i + k))) \<Longrightarrow> rx_match s (Many lo hi p) i (i + n)"
| m_boundary: "i \<le> length s \<Longrightarrow> boundary_at s i \<Longrightarrow> rx_match s Boundary i i"
| m_begin: "rx_match s Begin 0 0"
| m_finish: "i \<le> length s \<Longrightarrow> finish_at s i \<Longrightarrow> rx_match s Finish i i"
| m_seq: "rx_match s r i j \<Longrightarrow> rx_match s q j k \<Longrightarrow> rx_match s (Seq r q) i k"
| m_altL: "rx_match s r i j \<Longrightarrow> rx_match s (Alt r q) i j"
| m_altR: "rx_match s q i j \<Longrightarrow> rx_match s (Alt r q) i j"
| m_skip: "i \<le> length s \<Longrightarrow> rx_match s (Maybe r) i i"
| m_maybe: "rx_match s r i j \<Longrightarrow> rx_match s (Maybe r) i j"

inductive_simps rx_match_simps:
  "rx_match s (One p) i j" "rx_match s (Many lo hi p) i j" "rx_match s Boundary i j" "rx_match s Begin i j"
  "rx_match s Finish i j" "rx_match s (Seq r q) i j" "rx_match s (Alt r q) i j" "rx_match s (Maybe r) i j"

lemma rx_match_range: "rx_match s r i j \<Longrightarrow> i \<le> j \<and> j \<le> length s"
  by (induction rule: rx_match.induct) auto

lemma le_takeWhile_iff:
  "n \<le> length (takeWhile p xs) \<longleftrightarrow> n \<le> length xs \<and> (\<forall>k < n. p (xs ! k))"
proof (induction xs arbitrary: n)
  case (Cons x xs)
  show ?case
  proof (cases n)
    case (Suc m)
    then show ?thesis using Cons.IH [of m] by (auto simp: less_Suc_eq_0_disj)
  qed simp
qed auto

lemma ends_match:
  "i \<le> length s \<Longrightarrow> j \<in> set (ends s r i) \<longleftrightarrow> rx_match s r i j"
proof (induction r arbitrary: i j)
  case (Many lo hi p)
  have n: "n \<le> length (takeWhile p (drop i s)) \<longleftrightarrow> i + n \<le> length s \<and> (\<forall>k < n. p (s ! (i + k)))" for n
    using Many by (auto simp: le_takeWhile_iff)
  show ?case
  proof (cases "i \<le> j")
    case True
    then obtain n where "j = i + n" using le_Suc_ex by blast
    with n [of n] show ?thesis
      by (cases hi) (auto simp: rx_match_simps Let_def)
  next
    case False
    then show ?thesis by (auto simp: rx_match_simps Let_def)
  qed
next
  case (Seq r q)
  have "j \<in> set (ends s (Seq r q) i) \<longleftrightarrow> (\<exists>k \<in> set (ends s r i). j \<in> set (ends s q k))" by auto
  also have "\<dots> \<longleftrightarrow> (\<exists>k. rx_match s r i k \<and> rx_match s q k j)"
    using Seq.IH Seq.prems rx_match_range by (metis (no_types, opaque_lifting))
  finally show ?case by (simp add: rx_match_simps)
qed (auto simp: rx_match_simps)

lemma search_iff: "search r s \<longleftrightarrow> (\<exists>i j. rx_match s r i j)"
proof -
  have "search r s \<longleftrightarrow> (\<exists>i \<le> length s. \<exists>j. j \<in> set (ends s r i))"
    by (auto simp: search_def list_ex_iff less_Suc_eq_le simp del: upt_Suc)
       (metis atLeast0LessThan lessThan_iff less_Suc_eq_le list.set_intros(1) neq_Nil_conv empty_iff empty_set)+
  also have "\<dots> \<longleftrightarrow> (\<exists>i j. rx_match s r i j)"
    using ends_match rx_match_range by (meson order_trans)
  finally show ?thesis .
qed

section \<open>Whole words\<close>

text \<open>\<open>w\<close> occurs in \<open>s\<close> as a whole word, in any case.\<close>

definition occurs :: "string \<Rightarrow> string \<Rightarrow> bool" where
  "occurs w s \<longleftrightarrow>
     (\<exists>pre mid post. s = pre @ mid @ post \<and> map to_lower mid = w \<and>
        (pre = [] \<or> \<not> is_word (last pre)) \<and> (post = [] \<or> \<not> is_word (hd post)))"

lemma occurs_rev: "occurs w s \<Longrightarrow> occurs (rev w) (rev s)"
proof -
  assume "occurs w s"
  then obtain pre mid post where d: "s = pre @ mid @ post" "map to_lower mid = w"
      "pre = [] \<or> \<not> is_word (last pre)" "post = [] \<or> \<not> is_word (hd post)"
    by (auto simp: occurs_def)
  have "rev s = rev post @ rev mid @ rev pre" "map to_lower (rev mid) = rev w"
    using d by (auto simp: rev_map)
  moreover have "rev post = [] \<or> \<not> is_word (last (rev post))" "rev pre = [] \<or> \<not> is_word (hd (rev pre))"
    using d by (auto simp: last_rev hd_rev)
  ultimately show ?thesis unfolding occurs_def by blast
qed

lemma ord_to_lower: "ord (to_lower c) =
    (if (65 \<le> ord c \<and> ord c \<le> 90) \<or> (192 \<le> ord c \<and> ord c \<le> 222 \<and> ord c \<noteq> 215) then ord c + 32 else ord c)"
  by (auto simp: to_lower_def ord_def)

lemma class_to_lower [simp]:
  "is_space (to_lower c) = is_space c" "is_word (to_lower c) = is_word c" "is_digit (to_lower c) = is_digit c"
  "(ord (to_lower c) = 10) = (ord c = 10)"
  by (auto simp: is_space_def is_word_def is_digit_def ord_to_lower Let_def)

lemma to_lower_idem [simp]: "to_lower (to_lower c) = to_lower c"
proof (cases "(65 \<le> ord c \<and> ord c \<le> 90) \<or> (192 \<le> ord c \<and> ord c \<le> 222 \<and> ord c \<noteq> 215)")
  case True
  then have "ord (to_lower c) = ord c + 32" by (simp add: ord_to_lower)
  with True show ?thesis by (auto simp: to_lower_def [of "to_lower c"])
next
  case False
  then have "to_lower c = c" unfolding to_lower_def by (rule if_not_P)
  then show ?thesis by simp
qed

lemma occurs_dropWhile:
  assumes "occurs w s" "w \<noteq> []" "\<not> is_space (hd w)"
  shows "occurs w (dropWhile is_space s)"
  using assms(1)
proof (induction s)
  case (Cons c s)
  show ?case
  proof (cases "is_space c")
    case True
    from Cons.prems obtain pre mid post where d: "c # s = pre @ mid @ post" "map to_lower mid = w"
        "pre = [] \<or> \<not> is_word (last pre)" "post = [] \<or> \<not> is_word (hd post)"
      by (auto simp: occurs_def)
    have "pre \<noteq> []"
    proof
      assume "pre = []"
      with d assms(2) obtain mid' where "mid = c # mid'" by (cases mid) auto
      with d assms(3) True show False by auto
    qed
    then obtain pre' where "pre = c # pre'" using d by (cases pre) auto
    with d have "s = pre' @ mid @ post" "pre' = [] \<or> \<not> is_word (last pre')" by auto
    with d have "occurs w s" unfolding occurs_def by blast
    with True Cons.IH show ?thesis by simp
  next
    case False
    with Cons.prems show ?thesis by simp
  qed
qed simp

lemma occurs_strip:
  assumes "occurs w s" "w \<noteq> []" "\<not> is_space (hd w)" "\<not> is_space (last w)"
  shows "occurs w (strip s)"
proof -
  have "occurs (rev w) (rev (dropWhile is_space s))"
    by (rule occurs_rev [OF occurs_dropWhile [OF assms(1-3)]])
  then have "occurs (rev w) (dropWhile is_space (rev (dropWhile is_space s)))"
    using assms by (intro occurs_dropWhile) (auto simp: hd_rev)
  then show ?thesis using occurs_rev by (fastforce simp: strip_def)
qed

lemma lit_match:
  "i + length w \<le> length s \<Longrightarrow> map to_lower (take (length w) (drop i s)) = w \<Longrightarrow> w \<noteq> [] \<Longrightarrow>
     rx_match s (lit w) i (i + length w)"
proof (induction w arbitrary: i)
  case (Cons c w)
  then have i: "i < length s" "drop i s = s ! i # drop (Suc i) s" by (simp_all add: Cons_nth_drop_Suc)
  with Cons.prems have c: "rx_match s (ci c) i (Suc i)"
    by (auto simp: ci_def intro: m_one)
  show ?case
  proof (cases w)
    case Nil
    with c show ?thesis by (simp add: lit_def)
  next
    case (Cons c' w')
    from Cons.prems i have "rx_match s (lit w) (Suc i) (Suc i + length w)"
      using Cons.IH [of "Suc i"] Cons by simp
    with c Cons show ?thesis by (auto simp: lit_def intro: m_seq)
  qed
qed simp

lemma occurs_search:
  assumes "occurs w s" "w \<noteq> []" "is_word (hd w)" "is_word (last w)"
  shows "search (word w) s"
proof -
  from assms(1) obtain pre mid post where d: "s = pre @ mid @ post" "map to_lower mid = w"
      "pre = [] \<or> \<not> is_word (last pre)" "post = [] \<or> \<not> is_word (hd post)"
    by (auto simp: occurs_def)
  have m: "mid \<noteq> []" "length mid = length w" using d assms(2) by auto
  have hl: "is_word (hd mid)" "is_word (last mid)"
    using d(2) assms(3,4) m by (auto simp: hd_map last_map)
  let ?i = "length pre" and ?j = "length pre + length w"
  have "word_at s ?i" "0 < ?i \<Longrightarrow> \<not> word_at s (?i - 1)"
    using d m hl by (auto simp: word_at_def nth_append hd_conv_nth last_conv_nth)
  then have b1: "rx_match s Boundary ?i ?i" using d by (intro m_boundary) (auto simp: boundary_at_def)
  obtain mid' where "mid = mid' @ [last mid]" using m by (metis append_butlast_last_id)
  then have "?j - 1 = length pre + length mid'" "s = pre @ mid' @ last mid # post"
    using d m by (metis add_diff_cancel_right' add.assoc length_append_singleton Suc_eq_plus1, metis append.assoc append_Cons append_Nil)
  then have "word_at s (?j - 1)" using hl(2) by (simp add: word_at_def nth_append)
  moreover have "\<not> word_at s ?j"
    using d m by (cases post) (auto simp: word_at_def nth_append)
  ultimately have b2: "rx_match s Boundary ?j ?j"
    using d m assms(2) by (intro m_boundary) (auto simp: boundary_at_def)
  have "rx_match s (lit w) ?i ?j"
    using d m assms(2) by (intro lit_match) auto
  with b1 b2 show ?thesis unfolding word_def search_iff by (blast intro: m_seq)
qed

section \<open>Case does not matter\<close>

primrec caseless :: "rx \<Rightarrow> bool" where
  "caseless (One p) \<longleftrightarrow> (\<forall>c. p (to_lower c) = p c)"
| "caseless (Many lo hi p) \<longleftrightarrow> (\<forall>c. p (to_lower c) = p c)"
| "caseless Boundary \<longleftrightarrow> True"
| "caseless Begin \<longleftrightarrow> True"
| "caseless Finish \<longleftrightarrow> True"
| "caseless (Seq r q) \<longleftrightarrow> caseless r \<and> caseless q"
| "caseless (Alt r q) \<longleftrightarrow> caseless r \<and> caseless q"
| "caseless (Maybe r) \<longleftrightarrow> caseless r"

lemma word_at_lower [simp]: "word_at (map to_lower s) i = word_at s i"
  by (auto simp: word_at_def)

lemma ends_lower: "caseless r \<Longrightarrow> ends (map to_lower s) r i = ends s r i"
proof (induction r arbitrary: i)
  case (Many lo hi p)
  then have "p \<circ> to_lower = p" by (auto simp: fun_eq_iff)
  then show ?case by (simp add: drop_map takeWhile_map)
next
  case (Seq r q)
  then show ?case by (simp cong: map_cong)
next
  case (One p)
  then show ?case by (cases "i < length s") simp_all
next
  case Finish
  show ?case by (auto simp: finish_at_def)
qed (simp_all add: boundary_at_def)

lemma search_lower: "caseless r \<Longrightarrow> search r (map to_lower s) = search r s"
  by (simp add: search_def ends_lower)

lemma strip_lower: "strip (map to_lower s) = map to_lower (strip s)"
proof -
  have "is_space \<circ> to_lower = is_space" by (auto simp: fun_eq_iff)
  then show ?thesis by (simp add: strip_def dropWhile_map rev_map)
qed

lemma split_lower: "length (split (map to_lower s)) = length (split s)"
proof -
  have "length (split_words (map to_lower s) w) = length (split_words s w')" if "w = [] \<longleftrightarrow> w' = []" for w w'
    using that by (induction s arbitrary: w w') auto
  then show ?thesis by (simp add: split_def)
qed

lemma caseless_ci [simp]: "caseless (ci c)" "caseless (any_of cs)"
  by (simp_all add: ci_def any_of_def)

lemma caseless_seqs: "\<forall>r \<in> set rs. caseless r \<Longrightarrow> caseless (seqs rs)"
  by (induction rs rule: seqs.induct) auto

lemma caseless_alts: "\<forall>r \<in> set rs. caseless r \<Longrightarrow> caseless (alts rs)"
  by (induction rs rule: alts.induct) auto

lemma caseless_lit [simp]: "caseless (lit w)"
  unfolding lit_def by (rule caseless_seqs) auto

lemma caseless_word [simp]:
  "caseless (word w)" "caseless (bounded rs) = caseless (seqs rs)" "caseless (starts rs) = caseless (seqs rs)"
  by (simp_all add: word_def bounded_def starts_def)

lemma caseless_quality: "\<forall>r \<in> set QUALITY_PATTERNS. caseless r"
  by (simp add: QUALITY_PATTERNS_def)

lemma arith_class: "d \<in> set ''+-*/^'' \<longleftrightarrow> ord d \<in> {42, 43, 45, 47, 94}"
proof -
  have "ord d = ord c \<longleftrightarrow> d = c" for c by (simp add: ord_def)
  from this [of "CHR ''+''"] this [of "CHR ''-''"] this [of "CHR ''*''"] this [of "CHR ''/''"] this [of "CHR ''^''"]
  show ?thesis by (auto simp: ord_def)
qed

lemma arith_char_lower [simp]: "arith_char (to_lower d) = arith_char d"
  unfolding arith_char_def arith_class class_to_lower by (auto simp: ord_to_lower)

lemma caseless_fast: "\<forall>r \<in> set FAST_PATTERNS. caseless r"
  by (simp add: FAST_PATTERNS_def)

lemma classify_cases:
  "classify s =
     (if \<exists>r \<in> set QUALITY_PATTERNS. search r (strip s) then QUALITY
      else if \<exists>r \<in> set FAST_PATTERNS. search r (strip s) then FAST
      else if TOKEN_THRESHOLD \<le> length (split (strip s)) then QUALITY else FAST)"
  by (simp add: classify_def Let_def list_ex_iff)

lemma word_not_space: "is_word c \<Longrightarrow> \<not> is_space c"
  by (auto simp: is_word_def is_space_def Let_def)

text \<open>The plain keywords among the patterns.\<close>

definition quality_keywords :: "string list" where
  "quality_keywords =
     [''explain'', ''why'', ''compare'', ''contrast'', ''design'', ''architect'', ''implement'', ''code'',
      ''prove'', ''derive'', ''refactor'', ''debug'', ''breakdown'', ''summarise'', ''summarize'',
      ''how does'', ''how do'', ''what are the'', ''recommend'', ''evaluate'', ''critique'']"

section \<open>Properties\<close>

text \<open>
  Classification ignores case: converting a prompt to lower case never changes its tier.
\<close>

theorem classify_ignores_case: "classify (map to_lower s) = classify s"
proof -
  have "(\<exists>r \<in> set rs. search r (map to_lower t)) = (\<exists>r \<in> set rs. search r t)"
    if "\<forall>r \<in> set rs. caseless r" for rs t
    using that by (intro bex_cong) (auto simp: search_lower)
  note this [OF caseless_quality] this [OF caseless_fast]
  then show ?thesis unfolding classify_cases strip_lower split_lower by simp
qed

text \<open>
  C38: A keyword decides.  A prompt that contains one of the keywords as a whole word, in any
  mixture of cases and whatever stands around it (white space at the ends included), is
  classified as \<open>QUALITY\<close>, even if it also matches a pattern for simple prompts.
\<close>

theorem keyword_decides:
  assumes "w \<in> set quality_keywords" and "occurs w s"
  shows "classify s = QUALITY"
proof -
  have "list_all (\<lambda>w. w \<noteq> [] \<and> is_word (hd w) \<and> is_word (last w)) quality_keywords" by code_simp
  with assms(1) have w: "w \<noteq> []" "is_word (hd w)" "is_word (last w)" by (auto simp: list_all_iff)
  have k: "word w \<in> set QUALITY_PATTERNS"
    using assms(1) by (auto simp: quality_keywords_def QUALITY_PATTERNS_def)
  have "\<not> is_space (hd w)" "\<not> is_space (last w)" using w(2,3) by (simp_all add: word_not_space)
  then have "search (word w) (strip s)"
    using w by (intro occurs_search occurs_strip assms(2))
  with k show ?thesis by (auto simp: classify_cases)
qed

theorem keyword_decides_witness: "classify ''hi, can you EXPLAIN this? '' = QUALITY"
proof (rule keyword_decides [of "''explain''"])
  have "map to_lower ''EXPLAIN'' = ''explain''" "\<not> is_word (CHR '' '')" by code_simp+
  then show "occurs ''explain'' ''hi, can you EXPLAIN this? ''"
    unfolding occurs_def by (intro exI [of _ "''hi, can you ''"] exI [of _ "''EXPLAIN''"] exI [of _ "'' this? ''"]) simp
qed (simp add: quality_keywords_def)

end
