(* ===== verification/Inference.thy ===== *)
theory Inference
  imports Lifecycle_Log Classifier
begin

text \<open>
  \<open>app/main.py\<close>: the life of the application and of an inference request.

  The locks of the components are never held across a suspension, so acquiring one never
  suspends, and neither does a semaphore with a free slot.  A request is therefore suspended
  only while it awaits a backend, and the handler is a machine with three waiting states; each
  function below is the code between two suspensions.  \<open>Suspended_on_slot\<close> is the state
  of a caller of \<open>slot()\<close> that would have to wait for the semaphore.

  \<open>/run_start\<close> with \<open>reset\<close> replaces the components while running requests keep
  the old ones, so the application holds every generation of components, the current one last,
  and a request remembers its own.  What a backend returns or raises is an argument of the
  functions that resume a request.
\<close>

section \<open>The application\<close>

record components =
  c_bm :: bm
  c_qm :: qm
  c_lt :: tracker
  c_reaper :: bool

record app =
  ap_gens :: "components list"
  ap_counts :: "(string \<times> nat) list"
  ap_obs :: obs

definition fresh_counts :: "(string \<times> nat) list" where
  "fresh_counts = [(''LOCAL'', 0), (''REMOTE'', 0), (''QUEUE_LOCAL'', 0), (''FAIL_FAST'', 0)]"

definition new_components :: "config \<Rightarrow> exc + components" where
  "new_components cfg =
     (case init_bm (MAX_REMOTE_BUDGET cfg) (MAX_CUMULATIVE_LATENCY_MS cfg) (RESERVATION_TTL_SECONDS cfg) of
        Inl e \<Rightarrow> Inl e
      | Inr b \<Rightarrow>
          (case init_qm (LOCAL_QUEUE_CAPACITY cfg) of
             Inl e \<Rightarrow> Inl e
           | Inr q \<Rightarrow>
               Inr \<lparr> c_bm = b, c_qm = q,
                     c_lt = init_tracker cfg (EMA_ALPHA cfg) (LATENCY_WINDOW_SIZE cfg),
                     c_reaper = False \<rparr>))"

definition start_reaper :: "components \<Rightarrow> components" where
  "start_reaper c = c\<lparr>c_reaper := True\<rparr>"

lemma start_reaper_simps [simp]:
  "c_bm (start_reaper c) = c_bm c" "c_qm (start_reaper c) = c_qm c" "c_lt (start_reaper c) = c_lt c" "c_reaper (start_reaper c)"
  by (simp_all add: start_reaper_def)

text \<open>
  \<open>lifespan\<close> up to its \<open>yield\<close>; \<open>health\<close> is what the Ollama check finds,
  which is made in real mode only.  After the \<open>yield\<close> it stops the reaper of the
  components it made itself.
\<close>

definition startup :: "config \<Rightarrow> bool \<Rightarrow> exc + app" where
  "startup cfg health =
     (case new_components cfg of
        Inl e \<Rightarrow> Inl e
      | Inr c \<Rightarrow>
          Inr \<lparr> ap_gens = [start_reaper c], ap_counts = fresh_counts,
                ap_obs = (if BACKEND_MODE cfg = ''real''
                          then log_ollama_health health (OLLAMA_BASE_URL cfg) init_obs
                          else init_obs) \<rparr>)"

definition upd_gen :: "nat \<Rightarrow> (components \<Rightarrow> components) \<Rightarrow> app \<Rightarrow> app" where
  "upd_gen g f ap = ap\<lparr>ap_gens := (ap_gens ap)[g := f (ap_gens ap ! g)]\<rparr>"

definition stop_reaper :: "nat \<Rightarrow> app \<Rightarrow> app" where
  "stop_reaper g = upd_gen g (\<lambda>c. c\<lparr>c_reaper := False\<rparr>)"

definition shutdown :: "app \<Rightarrow> app" where
  "shutdown = stop_reaper 0"

definition on_obs :: "(obs \<Rightarrow> obs) \<Rightarrow> app \<Rightarrow> app" where
  "on_obs f ap = ap\<lparr>ap_obs := f (ap_obs ap)\<rparr>"

definition current :: "app \<Rightarrow> nat" where
  "current ap = length (ap_gens ap) - 1"

text \<open>\<open>/run_start\<close>.\<close>

definition run_start :: "config \<Rightarrow> string \<Rightarrow> bool \<Rightarrow> app \<Rightarrow> app \<times> (exc + unit)" where
  "run_start cfg run_id reset ap =
     (if reset then
        let ap1 = stop_reaper (current ap) ap in
        case new_components cfg of
          Inl e \<Rightarrow> (ap1, Inl e)
        | Inr c \<Rightarrow>
            (on_obs (log_run_start run_id)
               (ap1\<lparr>ap_gens := ap_gens ap1 @ [start_reaper c], ap_counts := fresh_counts\<rparr>), Inr ())
      else (on_obs (log_run_start run_id) ap, Inr ()))"

definition run_complete ::
  "string \<Rightarrow> string \<Rightarrow> (string \<times> json) list \<Rightarrow> (string \<times> json) list \<Rightarrow> app \<Rightarrow> app" where
  "run_complete run_id verdict metrics routes = on_obs (log_run_complete run_id verdict metrics routes)"

text \<open>A call of the budget manager of generation \<open>g\<close>, with its lock events.\<close>

definition on_bm ::
  "(nat \<Rightarrow> flt) \<Rightarrow> nat \<Rightarrow> (bm \<Rightarrow> bm \<times> 'r \<times> lock_call list) \<Rightarrow> app \<Rightarrow> app \<times> 'r" where
  "on_bm clock g f ap =
     (case f (c_bm (ap_gens ap ! g)) of
        (b, r, calls) \<Rightarrow>
          (on_obs (record_calls clock 0 calls) (upd_gen g (\<lambda>c. c\<lparr>c_bm := b\<rparr>) ap), r))"

definition bump :: "string \<Rightarrow> (string \<times> nat) list \<Rightarrow> (string \<times> nat) list" where
  "bump key counts =
     (case map_of counts key of None \<Rightarrow> counts | Some n \<Rightarrow> AList.update key (n + 1) counts)"

definition count_route :: "route_decision \<Rightarrow> app \<Rightarrow> app" where
  "count_route r ap = ap\<lparr>ap_counts := bump (route_value r) (ap_counts ap)\<rparr>"

section \<open>The states of a request\<close>

record pending =
  p_gen :: nat
  p_req :: inference_request
  p_tier :: complexity_tier
  p_dec :: routing_decision

datatype handler =
    Awaiting_remote pending
  | Awaiting_local pending
  | Awaiting_fallback pending
  | Suspended_on_slot pending
  | Responded inference_response
  | Http_error int detail
  | Unhandled exc
  | Was_cancelled pending

abbreviation gen_bm :: "app \<Rightarrow> nat \<Rightarrow> bm" where "gen_bm ap g \<equiv> c_bm (ap_gens ap ! g)"
abbreviation gen_qm :: "app \<Rightarrow> nat \<Rightarrow> qm" where "gen_qm ap g \<equiv> c_qm (ap_gens ap ! g)"
abbreviation gen_lt :: "app \<Rightarrow> nat \<Rightarrow> tracker" where "gen_lt ap g \<equiv> c_lt (ap_gens ap ! g)"

abbreviation p_id :: "pending \<Rightarrow> string" where "p_id p \<equiv> request_id (p_req p)"

section \<open>After the backend: the tracker, the log and the response\<close>

definition finish_request ::
  "pending \<Rightarrow> route_decision \<Rightarrow> flt \<Rightarrow> backend_result \<Rightarrow> string \<Rightarrow> app \<Rightarrow> app \<times> handler" where
  "finish_request p r cost res outcome ap =
     (let key = (if r = REMOTE then BACKEND_REMOTE else BACKEND_LOCAL);
          lat = br_actual_latency_ms res
      in case record_latency key lat (gen_lt ap (p_gen p)) of
           (lt, Inl e) \<Rightarrow> (upd_gen (p_gen p) (\<lambda>c. c\<lparr>c_lt := lt\<rparr>) ap, Unhandled e)
         | (lt, Inr _) \<Rightarrow>
             let ap1 = upd_gen (p_gen p) (\<lambda>c. c\<lparr>c_lt := lt\<rparr>) ap;
                 remaining = snap_remaining (snapshot (gen_bm ap1 (p_gen p)))
             in (on_obs (log_execution_complete (p_id p) (route_value r) cost lat
                           (br_prompt_tokens res) (br_completion_tokens res)
                           (br_cache_read_tokens res) (br_cache_write_tokens res) outcome remaining) ap1,
                 Responded
                   \<lparr> resp_request_id = p_id p, resp_route = r, resp_complexity_tier = p_tier p,
                     resp_actual_cost = cost, resp_actual_latency_ms = lat,
                     resp_prompt_tokens = br_prompt_tokens res,
                     resp_completion_tokens = br_completion_tokens res,
                     resp_cache_read_tokens = br_cache_read_tokens res,
                     resp_cache_write_tokens = br_cache_write_tokens res,
                     resp_result = br_result res, resp_budget_remaining = remaining \<rparr>))"

section \<open>The \<open>except\<close> clauses\<close>

text \<open>
  \<open>if reservation and reservation.state == "pending": await reservation.rollback()\<close>;
  the result tells whether the rollback was made.
\<close>

definition rollback_pending :: "(nat \<Rightarrow> flt) \<Rightarrow> pending \<Rightarrow> app \<Rightarrow> app \<times> (exc + bool)" where
  "rollback_pending clock p ap =
     (case rd_reservation (p_dec p) of
        None \<Rightarrow> (ap, Inr False)
      | Some ref \<Rightarrow>
          if res_state (objects (gen_bm ap (p_gen p)) ! ref) = Pending then
            (case on_bm clock (p_gen p) (reservation_rollback ref) ap of
               (ap1, Inl e) \<Rightarrow> (ap1, Inl e)
             | (ap1, Inr _) \<Rightarrow> (ap1, Inr True))
          else (ap, Inr False))"

definition p_reservation :: "app \<Rightarrow> pending \<Rightarrow> reservation option" where
  "p_reservation ap p =
     map_option (\<lambda>ref. objects (gen_bm ap (p_gen p)) ! ref) (rd_reservation (p_dec p))"

definition res_name :: "app \<Rightarrow> pending \<Rightarrow> string" where
  "res_name ap p = (case p_reservation ap p of None \<Rightarrow> ''?'' | Some r \<Rightarrow> res_id r)"

definition res_cost :: "app \<Rightarrow> pending \<Rightarrow> flt" where
  "res_cost ap p = (case p_reservation ap p of None \<Rightarrow> 0 | Some r \<Rightarrow> reserved_cost r)"

definition except_runtime :: "(nat \<Rightarrow> flt) \<Rightarrow> pending \<Rightarrow> app \<Rightarrow> app \<times> handler" where
  "except_runtime clock p ap =
     (case rollback_pending clock p ap of
        (ap1, Inl e) \<Rightarrow> (ap1, Unhandled e)
      | (ap1, Inr done_it) \<Rightarrow>
          let ap2 = (if done_it
                     then on_obs (log_reservation_rolled_back (p_id p) (res_name ap1 p)
                                    (Plain ''Local queue at capacity'') (res_cost ap1 p)) ap1
                     else ap1)
          in (on_obs (log_fail_fast (p_id p) (Plain ''Local queue at capacity at execution time'') 503) ap2,
              Http_error 503 (Plain ''Local queue at capacity'')))"

definition except_exceeded :: "pending \<Rightarrow> exc \<Rightarrow> app \<Rightarrow> app \<times> handler" where
  "except_exceeded p e ap =
     (on_obs (log_reservation_rolled_back (p_id p) (res_name ap p) (Error_text e) 0) ap,
      Http_error 500 (Error_text e))"

text \<open>After the remote backend failed: roll back, then try a local slot.\<close>

definition except_remote :: "(nat \<Rightarrow> flt) \<Rightarrow> pending \<Rightarrow> exc \<Rightarrow> app \<Rightarrow> app \<times> handler" where
  "except_remote clock p e ap =
     (let ap0 = on_obs (log_remote_failure (p_id p) (Error_text e)) ap;
          cost = res_cost ap0 p
      in case rollback_pending clock p ap0 of
           (ap1, Inl e') \<Rightarrow> (ap1, Unhandled e')
         | (ap1, Inr done_it) \<Rightarrow>
             let ap2 = (if done_it
                        then on_obs (log_rollback_event (p_id p) (res_name ap1 p) cost (Error_text e))
                               (on_obs (log_reservation_rolled_back (p_id p) (res_name ap1 p)
                                          (Plain ''remote failure'') cost) ap1)
                        else ap1);
                 q = gen_qm ap2 (p_gen p)
             in if \<not> is_at_capacity q then
                  (case slot_enter q of
                     None \<Rightarrow> (ap2, Suspended_on_slot p)
                   | Some (q', Inr _) \<Rightarrow>
                       (upd_gen (p_gen p) (\<lambda>c. c\<lparr>c_qm := q'\<rparr>) ap2, Awaiting_fallback p)
                   | Some (q', Inl _) \<Rightarrow>
                       (upd_gen (p_gen p) (\<lambda>c. c\<lparr>c_qm := q'\<rparr>) ap2,
                        Http_error 503 (Plain ''Remote failed; local also at capacity'')))
                else (ap2, Http_error 503 (Prefixed ''Remote failed; local at capacity: '' e)))"

definition except_other :: "(nat \<Rightarrow> flt) \<Rightarrow> pending \<Rightarrow> exc \<Rightarrow> app \<Rightarrow> app \<times> handler" where
  "except_other clock p e ap =
     (let cost = res_cost ap p in
      case rollback_pending clock p ap of
        (ap1, Inl e') \<Rightarrow> (ap1, Unhandled e')
      | (ap1, Inr done_it) \<Rightarrow>
          (if done_it
           then on_obs (log_reservation_rolled_back (p_id p) (res_name ap1 p) (Error_text e) cost) ap1
           else ap1,
           Http_error 500 (Error_text e)))"

text \<open>
  The chain of \<open>except\<close> clauses.  \<open>CancelledError\<close> is a
  \<open>BaseException\<close>, which no clause catches.
\<close>

definition on_exception :: "(nat \<Rightarrow> flt) \<Rightarrow> pending \<Rightarrow> exc \<Rightarrow> app \<Rightarrow> app \<times> handler" where
  "on_exception clock p e ap =
     (case e of
        RuntimeError _ \<Rightarrow> except_runtime clock p ap
      | ActualCostExceeded _ _ \<Rightarrow> except_exceeded p e ap
      | ActualLatencyExceeded _ _ \<Rightarrow> except_exceeded p e ap
      | RemoteInferenceError _ \<Rightarrow> except_remote clock p e ap
      | CancelledError \<Rightarrow> (ap, Was_cancelled p)
      | _ \<Rightarrow> except_other clock p e ap)"

section \<open>Settlement\<close>

text \<open>\<open>await reservation.commit(cost, latency)\<close> and the log record after it.\<close>

definition settle_request :: "(nat \<Rightarrow> flt) \<Rightarrow> pending \<Rightarrow> flt \<Rightarrow> flt \<Rightarrow> app \<Rightarrow> app \<times> (exc + unit)" where
  "settle_request clock p cost lat ap =
     (case rd_reservation (p_dec p) of
        None \<Rightarrow> (ap, Inr ())
      | Some ref \<Rightarrow>
          (case on_bm clock (p_gen p) (reservation_commit ref cost lat) ap of
             (ap1, Inl e) \<Rightarrow> (ap1, Inl e)
           | (ap1, Inr _) \<Rightarrow>
               (on_obs (log_reservation_committed (p_id p) (res_name ap1 p) cost
                          (snap_remaining (snapshot (gen_bm ap1 (p_gen p))))) ap1, Inr ())))"

definition leave_slot :: "nat \<Rightarrow> app \<Rightarrow> app" where
  "leave_slot g = upd_gen g (\<lambda>c. c\<lparr>c_qm := slot_exit (c_qm c)\<rparr>)"

definition resume_remote :: "(nat \<Rightarrow> flt) \<Rightarrow> pending \<Rightarrow> exc + backend_result \<Rightarrow> app \<Rightarrow> app \<times> handler" where
  "resume_remote clock p out ap =
     (case out of
        Inl e \<Rightarrow> on_exception clock p e ap
      | Inr res \<Rightarrow>
          (case settle_request clock p (br_actual_cost res) (br_actual_latency_ms res) ap of
             (ap1, Inl e) \<Rightarrow> on_exception clock p e ap1
           | (ap1, Inr _) \<Rightarrow> finish_request p REMOTE (br_actual_cost res) res ''committed'' ap1))"

text \<open>The body of \<open>async with qm.slot()\<close> ends in each branch with \<open>leave_slot\<close>.\<close>

definition resume_local :: "(nat \<Rightarrow> flt) \<Rightarrow> pending \<Rightarrow> exc + backend_result \<Rightarrow> app \<Rightarrow> app \<times> handler" where
  "resume_local clock p out ap =
     (case out of
        Inl e \<Rightarrow> on_exception clock p e (leave_slot (p_gen p) ap)
      | Inr res \<Rightarrow>
          (case settle_request clock p 0 (br_actual_latency_ms res) ap of
             (ap1, Inl e) \<Rightarrow> on_exception clock p e (leave_slot (p_gen p) ap1)
           | (ap1, Inr _) \<Rightarrow>
               finish_request p (rd_route (p_dec p)) (br_actual_cost res) res ''committed''
                 (leave_slot (p_gen p) ap1)))"

definition resume_fallback :: "pending \<Rightarrow> exc + backend_result \<Rightarrow> app \<Rightarrow> app \<times> handler" where
  "resume_fallback p out ap =
     (let ap1 = leave_slot (p_gen p) ap in
      case out of
        Inl (RuntimeError _) \<Rightarrow> (ap1, Http_error 503 (Plain ''Remote failed; local also at capacity''))
      | Inl CancelledError \<Rightarrow> (ap1, Was_cancelled p)
      | Inl e \<Rightarrow> (ap1, Unhandled e)
      | Inr res \<Rightarrow> finish_request p QUEUE_LOCAL 0 res ''fallback_local'' ap1)"

section \<open>The first segment: classify, route, reserve, start\<close>

definition start_request ::
  "config \<Rightarrow> (nat \<Rightarrow> flt) \<Rightarrow> flt \<Rightarrow> string \<Rightarrow> inference_request \<Rightarrow> app \<Rightarrow> app \<times> handler" where
  "start_request cfg clock now uuid request ap =
     (let g = current ap;
          tier = (case req_complexity_tier request of None \<Rightarrow> classify (prompt request) | Some t \<Rightarrow> t);
          req = request\<lparr>req_complexity_tier := Some tier\<rparr>;
          rid = request_id req;
          ap0 = on_obs (log_request_received rid (latency_budget_ms req) tier) ap
      in case on_bm clock g (route cfg now uuid (gen_qm ap0 g) (gen_lt ap0 g) req) ap0 of
           (ap1, Inl e) \<Rightarrow> (ap1, Unhandled e)
         | (ap1, Inr d) \<Rightarrow>
             if rd_route d = FAIL_FAST then
               (on_obs (log_fail_fast rid (Because (rd_reason d)) 503) (count_route FAIL_FAST ap1),
                Http_error 503 (Because (rd_reason d)))
             else
               let p = \<lparr> p_gen = g, p_req = req, p_tier = tier, p_dec = d \<rparr>;
                   snap = snapshot (gen_bm ap1 g);
                   ap2 = on_obs (log_route_decision rid (rd_route d) (rd_reason d)
                                   (rd_estimated_latency_ms d) (active_count (gen_qm ap1 g))
                                   (snap_remaining snap) tier (prompt req))
                           (count_route (rd_route d) ap1);
                   ap3 = (case p_reservation ap2 p of
                            None \<Rightarrow> ap2
                          | Some r \<Rightarrow>
                              on_obs (log_reservation_made rid (res_id r) (reserved_cost r)
                                        (reserved_latency_ms r)) ap2);
                   ap4 = on_obs (log_execution_start rid (route_value (rd_route d))) ap3
               in if rd_route d = REMOTE then (ap4, Awaiting_remote p)
                  else (case slot_enter (gen_qm ap4 g) of
                          None \<Rightarrow> (ap4, Suspended_on_slot p)
                        | Some (q, Inl e) \<Rightarrow> on_exception clock p e (upd_gen g (\<lambda>c. c\<lparr>c_qm := q\<rparr>) ap4)
                        | Some (q, Inr _) \<Rightarrow> (upd_gen g (\<lambda>c. c\<lparr>c_qm := q\<rparr>) ap4, Awaiting_local p)))"

end
