(* ===== verification/Budget_Ledger.thy ===== *)
theory Budget_Ledger
  imports Budget_Manager
begin

text \<open>
  The money and the time behind the reservation protocol of \<open>app/budget_manager.py\<close>.

  The manager keeps its totals as floats.  Beside each float we follow the exact sum of the
  amounts that the active reservations hold (\<open>held\<close>).  A total is touched once when a
  reservation is made and once when it is released, so \<open>touches\<close>, the number of rounded
  operations so far, is read off the state; the drift of a total is at most \<open>touches\<close>
  half-units in the last place.  From the drift follow the bounds on what can be spent:
  the cap of the budget, the tolerances the code grants, and the rounding.
\<close>

section \<open>What the active reservations hold\<close>

definition held :: "(reservation \<Rightarrow> flt) \<Rightarrow> bm \<Rightarrow> flt" where
  "held f b = sum_list (map (\<lambda>(k, ref). f (objects b ! ref)) (active_reservations b))"

definition touches :: "bm \<Rightarrow> nat" where
  "touches b = 2 * length (objects b) - length (active_reservations b)"

lemma active_le_objects: "bm_wf b \<Longrightarrow> length (active_reservations b) \<le> length (objects b)"
  using active_count_pending [of b] by (simp add: active_reservation_count_def)

lemma held_with_reservation:
  assumes wf: "bm_wf b" and fresh: "uuid \<notin> res_id ` set (objects b)"
  shows "held f (with_reservation now uuid cost lat b) =
           held f b + f (objects (with_reservation now uuid cost lat b) ! length (objects b))"
    and "length (active_reservations (with_reservation now uuid cost lat b)) =
           Suc (length (active_reservations b))"
    and "touches (with_reservation now uuid cost lat b) = Suc (touches b)"
proof -
  let ?b = "with_reservation now uuid cost lat b"
  have "uuid \<notin> fst ` set (active_reservations b)"
    using active_pending [OF wf, of uuid] fresh
    by (metis image_eqI map_of_None_fst not_None_eq nth_mem)
  then have act: "active_reservations ?b = active_reservations b @ [(uuid, length (objects b))]"
    by (simp add: with_reservation_def alist_update_fresh)
  have "map (\<lambda>(k, ref). f (objects ?b ! ref)) (active_reservations b) =
        map (\<lambda>(k, ref). f (objects b ! ref)) (active_reservations b)"
    using wf_tableD(3) [OF wf [unfolded bm_wf_def]]
    by (intro map_cong) (auto simp: with_reservation_def nth_append)
  then show "held f ?b = held f b + f (objects ?b ! length (objects b))"
    by (simp only: held_def act map_append sum_list_append) simp
  show "length (active_reservations ?b) = Suc (length (active_reservations b))"
    by (simp add: act)
  then show "touches ?b = Suc (touches b)"
    using active_le_objects [OF wf] by (simp add: touches_def with_reservation_def)
qed

lemma held_release:
  assumes wf: "bm_wf b" and rid: "map_of (active_reservations b) rid = Some ref"
    and b': "active_reservations b' = AList.delete rid (active_reservations b)"
      "objects b' = (objects b)[ref := (objects b ! ref)\<lparr>res_state := s\<rparr>]"
    and f: "\<And>r. f (r\<lparr>res_state := s\<rparr>) = f r"
  shows "held f b = f (objects b ! ref) + held f b'"
    and "length (active_reservations b) = Suc (length (active_reservations b'))"
    and "touches b' = Suc (touches b)"
proof -
  have d: "distinct (map fst (active_reservations b))"
    using wf wf_tableD(1) by (simp add: bm_wf_def)
  have "f (objects b' ! i) = f (objects b ! i)" for i
    by (cases "i = ref"; cases "ref < length (objects b)") (simp_all add: b' f list_update_beyond)
  then have "held f b' = sum_list (map (\<lambda>(k, ref). f (objects b ! ref)) (AList.delete rid (active_reservations b)))"
    by (simp add: held_def b'(1))
  then show "held f b = f (objects b ! ref) + held f b'"
    using sum_list_delete [OF d rid, of "\<lambda>(k, ref). f (objects b ! ref)"] by (simp add: held_def)
  show len: "length (active_reservations b) = Suc (length (active_reservations b'))"
    using alist_length_delete [OF d rid] by (simp add: b'(1))
  show "touches b' = Suc (touches b)"
    using active_le_objects [OF wf] len by (simp add: touches_def b'(2))
qed

lemma held_nonneg: "(\<And>r. r \<in> set (objects b) \<Longrightarrow> 0 \<le> f r) \<Longrightarrow> bm_wf b \<Longrightarrow> 0 \<le> held f b"
  unfolding held_def using wf_tableD(3) [of "active_reservations b" "objects b"]
  by (force simp: bm_wf_def intro!: sum_list_nonneg)

section \<open>The admission check in floats\<close>

text \<open>
  \<open>M\<close> is a cap, \<open>c\<close> what has been spent, \<open>r\<close> what is reserved and \<open>x\<close> a request.
  The three rounded subtractions of the check cost at most three half-units.
\<close>

lemma admission:
  assumes M: "0 \<le> M" and c: "0 \<le> c" "c \<le> M + 1 / 2" and r: "- 1 / 2 \<le> r" "r \<le> M + 1"
    and x: "0 \<le> x" and d: "half_ulp (M + 2) \<le> 1 / 16"
    and adm: "fsub x eps12 \<le> fsub (fsub M c) r"
  shows "c + r + x \<le> M + eps12 + 3 * half_ulp (M + 2)"
proof -
  let ?d = "half_ulp (M + 2)"
  have 1: "\<bar>fsub M c - (M - c)\<bar> \<le> ?d" using M c by (intro fsub_error) auto
  have 2: "\<bar>fsub (fsub M c) r - (fsub M c - r)\<bar> \<le> ?d"
    using 1 M c r d by (intro fsub_error) linarith
  have hi: "fsub (fsub M c) r \<le> M - c - r + 2 * ?d" using 1 2 by linarith
  have "x \<le> M + 2"
  proof (rule ccontr)
    assume "\<not> x \<le> M + 2"
    then have "fsub (M + 2) eps12 \<le> fsub x eps12" by (intro fsub_mono) auto
    moreover have "\<bar>fsub (M + 2) eps12 - (M + 2 - eps12)\<bar> \<le> ?d"
      using M eps_pos eps_small by (intro fsub_error) linarith
    ultimately show False using hi adm c r d eps_small by linarith
  qed
  then have "\<bar>fsub x eps12 - (x - eps12)\<bar> \<le> ?d"
    using M x eps_pos eps_small by (intro fsub_error) linarith
  then show ?thesis using hi adm by linarith
qed

lemma refusal:
  assumes M: "0 \<le> M" and c: "0 \<le> c" "c \<le> M + 1 / 2" and r: "- 1 / 2 \<le> r" "r \<le> M + 1"
    and x: "0 \<le> x" and d: "half_ulp (M + 2) \<le> 1 / 16"
    and full: "fsub (fsub M c) r < fsub x eps12"
  shows "M + eps12 - 3 * half_ulp (M + 2) < c + r + x"
proof (cases "x \<le> M + 2")
  case True
  let ?d = "half_ulp (M + 2)"
  have 1: "\<bar>fsub M c - (M - c)\<bar> \<le> ?d" using M c by (intro fsub_error) auto
  have "\<bar>fsub (fsub M c) r - (fsub M c - r)\<bar> \<le> ?d"
    using 1 M c r d by (intro fsub_error) linarith
  moreover have "\<bar>fsub x eps12 - (x - eps12)\<bar> \<le> ?d"
    using M x True eps_pos eps_small by (intro fsub_error) linarith
  ultimately show ?thesis using 1 full by linarith
next
  case False
  have "0 \<le> half_ulp (M + 2)" using M by (simp add: half_ulp_nonneg)
  with False show ?thesis using c r eps_small by linarith
qed

section \<open>One total and the amounts behind it\<close>

text \<open>
  \<open>small T M\<close>: with at most \<open>T\<close> reservations in the life of the process, the
  rounding of totals of magnitude \<open>M\<close> stays far below one unit.  For the default caps
  this allows more than \<open>10 ^ 8\<close> reservations.
\<close>

definition small :: "nat \<Rightarrow> rat \<Rightarrow> bool" where
  "small T M \<longleftrightarrow> 0 \<le> M \<and> of_nat (32 * T + 16) * half_ulp (M + 2) \<le> 1"

lemma smallD:
  assumes "small T M"
  shows "0 \<le> M" and "half_ulp (M + 2) \<le> 1 / 16" and "0 \<le> half_ulp (M + 2)"
    and "n \<le> 2 * T \<Longrightarrow> of_nat n * half_ulp (M + 2) \<le> 1 / 16"
proof -
  let ?d = "half_ulp (M + 2)"
  show M: "0 \<le> M" and d: "0 \<le> ?d"
    using assms half_ulp_nonneg [of "M + 2"] by (auto simp: small_def)
  have *: "32 * (of_nat T * ?d) + 16 * ?d \<le> 1"
    using assms by (simp add: small_def algebra_simps)
  have "0 \<le> of_nat T * ?d" using d by simp
  with * d show "?d \<le> 1 / 16" by linarith
  assume "n \<le> 2 * T"
  then have "of_nat n * ?d \<le> of_nat (2 * T) * ?d"
    using d by (intro mult_right_mono) (simp_all only: of_nat_le_iff)
  then show "of_nat n * ?d \<le> 1 / 16" using * d by simp
qed

definition tracks :: "(reservation \<Rightarrow> flt) \<Rightarrow> flt \<Rightarrow> rat \<Rightarrow> bm \<Rightarrow> bool" where
  "tracks f r M b \<longleftrightarrow>
     \<bar>r - held f b\<bar> \<le> of_nat (touches b) * half_ulp (M + 2) \<and> 0 \<le> held f b \<and> held f b \<le> M + 1 / 2"

lemma touches_le: "length (objects b) \<le> T \<Longrightarrow> touches b \<le> 2 * T"
  by (simp add: touches_def)

lemma tracks_range:
  assumes "tracks f r M b" "small T M" "length (objects b) \<le> T"
  shows "- 1 / 16 \<le> r" and "r \<le> M + 1 / 2 + 1 / 16" and "held f b \<le> r + 1 / 16"
  using assms(1) smallD(4) [OF assms(2) touches_le [OF assms(3)]]
  by (auto simp: tracks_def abs_le_iff)

lemma tracks_grant:
  assumes t: "tracks f r M b" and wf: "bm_wf b" and fresh: "uuid \<notin> res_id ` set (objects b)"
    and sm: "small T M" and len: "length (objects b) \<le> T"
    and c: "0 \<le> c" "c \<le> M + 1 / 2" and x: "0 \<le> x"
    and f: "f (objects (with_reservation now uuid cost lat b) ! length (objects b)) = x"
    and adm: "fsub x eps12 \<le> fsub (fsub M c) r"
  shows "tracks f (fadd r x) M (with_reservation now uuid cost lat b)"
    and "c + held f (with_reservation now uuid cost lat b)
           \<le> M + eps12 + of_nat (touches b + 3) * half_ulp (M + 2)"
proof -
  let ?d = "half_ulp (M + 2)"
  note h = held_with_reservation(1) [OF wf fresh, where f = f] held_with_reservation(2,3) [OF wf fresh]
  note sd = smallD [OF sm] and rg = tracks_range [OF t sm len]
  have a: "c + r + x \<le> M + eps12 + 3 * ?d"
    using sd(1) c _ _ x sd(2) adm by (rule admission) (use rg in linarith)+
  have "\<bar>r + x\<bar> \<le> M + 2" using a rg x c sd(1,2) eps_small by linarith
  then have "\<bar>fadd r x - (held f b + x)\<bar> \<le> of_nat (touches b) * ?d + ?d"
    using t by (intro ledger_fadd) (simp_all add: tracks_def)
  moreover have "held f b + x \<le> M + 1 / 2" using a rg x c sd(1,2) eps_small by linarith
  ultimately show "tracks f (fadd r x) M (with_reservation now uuid cost lat b)"
    using t x by (simp add: tracks_def h f algebra_simps)
  show "c + held f (with_reservation now uuid cost lat b)
      \<le> M + eps12 + of_nat (touches b + 3) * ?d"
    using a t by (simp add: tracks_def h f algebra_simps abs_le_iff)
qed

lemma tracks_release:
  assumes t: "tracks f r M b" and wf: "bm_wf b" and rid: "map_of (active_reservations b) rid = Some ref"
    and b': "active_reservations b' = AList.delete rid (active_reservations b)"
      "objects b' = (objects b)[ref := (objects b ! ref)\<lparr>res_state := s\<rparr>]"
    and f: "\<And>r. f (r\<lparr>res_state := s\<rparr>) = f r" and pos: "\<And>r. r \<in> set (objects b) \<Longrightarrow> 0 \<le> f r"
    and wf': "bm_wf b'" and sm: "small T M" and len: "length (objects b) \<le> T"
  shows "tracks f (fsub r (f (objects b ! ref))) M b'"
    and "tracks f (max 0 (fsub r (f (objects b ! ref)))) M b'"
proof -
  let ?d = "half_ulp (M + 2)" and ?x = "f (objects b ! ref)"
  note h = held_release [where f = f, OF wf rid b' f]
  note sd = smallD [OF sm] and rg = tracks_range [OF t sm len]
  have ref: "ref < length (objects b)" using active_pending [OF wf rid] by simp
  then have x: "0 \<le> ?x" using pos by simp
  have pos': "0 \<le> f r" if "r \<in> set (objects b')" for r
    using that pos f ref set_update_subset_insert [of "objects b" ref] unfolding b'(2)
    by (metis insertE nth_mem subsetD)
  have h': "0 \<le> held f b'" using held_nonneg [of b' f, OF pos' wf'] by simp
  have hs: "held f b' = held f b - ?x" using h(1) by simp
  have "\<bar>r - ?x\<bar> \<le> M + 2"
    using rg x h' hs t sd(1) by (simp add: tracks_def)
  then have "\<bar>fsub r ?x - (held f b - ?x)\<bar> \<le> of_nat (touches b) * ?d + ?d"
    and "\<bar>max 0 (fsub r ?x) - (held f b - ?x)\<bar> \<le> of_nat (touches b) * ?d + ?d"
    using t h' hs by (intro ledger_fsub ledger_fsub_clamped; simp add: tracks_def)+
  then show "tracks f (fsub r ?x) M b'" and "tracks f (max 0 (fsub r ?x)) M b'"
    using t h' hs h(3) x by (simp_all add: tracks_def algebra_simps)
qed

section \<open>The invariant of the books\<close>

text \<open>
  \<open>K\<close> bounds the reservations active at one time, \<open>T\<close> those made in the life of the
  process.  The last conjunct is the safety statement: what has been spent and what is still
  promised, with the tolerance every active reservation may still claim at its commit, stays
  under the cap up to the tolerances and the rounding.
\<close>

definition books :: "nat \<Rightarrow> nat \<Rightarrow> rat \<Rightarrow> rat \<Rightarrow> bm \<Rightarrow> bool" where
  "books K T M L b \<longleftrightarrow>
     bm_wf b \<and> max_remote_budget b = M \<and> max_cumulative_latency_ms b = L \<and>
     (\<forall>r \<in> set (objects b). 0 \<le> reserved_cost r \<and> 0 \<le> reserved_latency_ms r) \<and>
     length (objects b) \<le> T \<and>
     tracks reserved_cost (reserved_for_execution b) M b \<and>
     tracks reserved_latency_ms (bm_reserved_latency_ms b) L b \<and>
     0 \<le> cumulative_remote_cost b \<and> 0 \<le> cumulative_actual_latency_ms b \<and>
     cumulative_actual_latency_ms b \<le> fadd L eps9 \<and>
     cumulative_remote_cost b + held reserved_cost b + of_nat (length (active_reservations b)) * eps9
       \<le> M + eps12 + of_nat K * eps9 + of_nat (4 * touches b) * half_ulp (M + 2)"

definition caps_ok :: "nat \<Rightarrow> nat \<Rightarrow> rat \<Rightarrow> rat \<Rightarrow> bool" where
  "caps_ok K T M L \<longleftrightarrow> small T M \<and> small T L \<and> of_nat K * eps9 \<le> 1 / 8"

text \<open>What a driver of the manager must respect: fresh identifiers, non-negative actual amounts
  (token counts and elapsed times are), and the two counts.\<close>

fun actuals_ok :: "bm_op \<Rightarrow> bool" where
  "actuals_ok (Op_commit rid ac al) \<longleftrightarrow> 0 \<le> ac \<and> 0 \<le> al"
| "actuals_ok _ \<longleftrightarrow> True"

definition books_op :: "nat \<Rightarrow> nat \<Rightarrow> bm \<Rightarrow> bm_op \<Rightarrow> bool" where
  "books_op K T b op \<longleftrightarrow>
     fresh_op b op \<and> actuals_ok op \<and>
     length (active_reservations (bm_step b op)) \<le> K \<and> length (objects (bm_step b op)) \<le> T"

lemma booksD:
  assumes "books K T M L b"
  shows "bm_wf b" "max_remote_budget b = M" "max_cumulative_latency_ms b = L"
    "r \<in> set (objects b) \<Longrightarrow> 0 \<le> reserved_cost r" "r \<in> set (objects b) \<Longrightarrow> 0 \<le> reserved_latency_ms r"
    "length (objects b) \<le> T"
    "tracks reserved_cost (reserved_for_execution b) M b"
    "tracks reserved_latency_ms (bm_reserved_latency_ms b) L b"
    "0 \<le> cumulative_remote_cost b" "0 \<le> cumulative_actual_latency_ms b"
    "cumulative_actual_latency_ms b \<le> fadd L eps9"
    "cumulative_remote_cost b + held reserved_cost b + of_nat (length (active_reservations b)) * eps9
       \<le> M + eps12 + of_nat K * eps9 + of_nat (4 * touches b) * half_ulp (M + 2)"
  using assms by (auto simp: books_def)

lemma books_spent:
  assumes "books K T M L b" "caps_ok K T M L"
  shows "cumulative_remote_cost b + held reserved_cost b \<le> M + 1 / 2"
    and "cumulative_actual_latency_ms b \<le> L + 1 / 2"
proof -
  note b = booksD [OF assms(1)]
  have sM: "small T M" and sL: "small T L" and K: "of_nat K * eps9 \<le> 1 / 8"
    using assms(2) by (auto simp: caps_ok_def)
  have "4 * (of_nat (touches b) * half_ulp (M + 2)) \<le> 4 * (1 / 16)"
    using smallD(4) [OF sM touches_le [OF b(6)]] by simp
  then have "of_nat (4 * touches b) * half_ulp (M + 2) \<le> 1 / 4" by simp
  moreover have "0 \<le> of_nat (length (active_reservations b)) * eps9" by simp
  ultimately show "cumulative_remote_cost b + held reserved_cost b \<le> M + 1 / 2"
    using b(12) K eps_small by linarith
  have "\<bar>fadd L eps9 - (L + eps9)\<bar> \<le> half_ulp (L + 2)"
    using smallD(1) [OF sL] eps_small eps_pos by (intro fadd_error) linarith
  then show "cumulative_actual_latency_ms b \<le> L + 1 / 2"
    using b(11) smallD(2) [OF sL] eps_small by linarith
qed

lemma books_grant:
  assumes bk: "books K T M L b" and ok: "caps_ok K T M L"
    and fresh: "uuid \<notin> res_id ` set (objects b)" and cost: "0 \<le> cost" and lat: "0 \<le> lat"
    and adm: "admits cost lat b"
    and K: "length (active_reservations (with_reservation now uuid cost lat b)) \<le> K"
    and T: "length (objects (with_reservation now uuid cost lat b)) \<le> T"
  shows "books K T M L (with_reservation now uuid cost lat b)"
proof -
  let ?b = "with_reservation now uuid cost lat b"
  note b = booksD [OF bk] and sp = books_spent [OF bk ok]
  have sM: "small T M" and sL: "small T L" using ok by (auto simp: caps_ok_def)
  have obj: "reserved_cost (objects ?b ! length (objects b)) = cost"
    "reserved_latency_ms (objects ?b ! length (objects b)) = lat"
    by (simp_all add: with_reservation_def)
  have "0 \<le> held reserved_cost b" using b(7) by (simp add: tracks_def)
  then have cM: "cumulative_remote_cost b \<le> M + 1 / 2" using sp(1) by linarith
  have adM: "fsub cost eps12 \<le> fsub (fsub M (cumulative_remote_cost b)) (reserved_for_execution b)"
    and adL: "fsub lat eps12 \<le> fsub (fsub L (cumulative_actual_latency_ms b)) (bm_reserved_latency_ms b)"
    using adm b(2,3) by (auto simp: admits_def)
  note c = tracks_grant [OF b(7) b(1) fresh sM b(6,9) cM cost obj(1) adM]
  note l = tracks_grant [OF b(8) b(1) fresh sL b(6,10) sp(2) lat obj(2) adL]
  have "of_nat (length (active_reservations ?b)) * eps9 \<le> of_nat K * eps9"
    using K by (intro mult_right_mono) simp_all
  moreover have "of_nat (touches b + 3) * half_ulp (M + 2) \<le> of_nat (4 * touches ?b) * half_ulp (M + 2)"
    using held_with_reservation(3) [OF b(1) fresh] smallD(3) [OF sM]
    by (intro mult_right_mono) simp_all
  ultimately have "cumulative_remote_cost b + held reserved_cost ?b
      + of_nat (length (active_reservations ?b)) * eps9
      \<le> M + eps12 + of_nat K * eps9 + of_nat (4 * touches ?b) * half_ulp (M + 2)"
    using c(2) by linarith
  with c(1) l(1) show ?thesis
    using b adm T cost lat bm_wf_with_reservation [OF b(1) fresh]
    by (auto simp: books_def admits_def with_reservation_def)
qed

lemma books_release:
  assumes bk: "books K T M L b" and ok: "caps_ok K T M L"
    and rid: "map_of (active_reservations b) rid = Some ref" and s: "s \<noteq> Pending"
    and b': "active_reservations b' = AList.delete rid (active_reservations b)"
      "objects b' = (objects b)[ref := (objects b ! ref)\<lparr>res_state := s\<rparr>]"
      "max_remote_budget b' = M" "max_cumulative_latency_ms b' = L"
    and rc: "reserved_for_execution b' =
        fsub (reserved_for_execution b) (reserved_cost (objects b ! ref)) \<or>
      reserved_for_execution b' =
        max 0 (fsub (reserved_for_execution b) (reserved_cost (objects b ! ref)))"
    and rl: "bm_reserved_latency_ms b' =
        fsub (bm_reserved_latency_ms b) (reserved_latency_ms (objects b ! ref)) \<or>
      bm_reserved_latency_ms b' =
        max 0 (fsub (bm_reserved_latency_ms b) (reserved_latency_ms (objects b ! ref)))"
    and lat: "0 \<le> cumulative_actual_latency_ms b'" "cumulative_actual_latency_ms b' \<le> fadd L eps9"
    and spend: "0 \<le> cumulative_remote_cost b'"
      "cumulative_remote_cost b' \<le> cumulative_remote_cost b + reserved_cost (objects b ! ref)
         + eps9 + 2 * half_ulp (M + 2)"
  shows "books K T M L b'"
proof -
  note b = booksD [OF bk]
  have sM: "small T M" and sL: "small T L" using ok by (auto simp: caps_ok_def)
  have wf': "bm_wf b'" using bm_wf_release [OF b(1) rid s b'(1,2)] .
  have ref: "ref < length (objects b)" using active_pending [OF b(1) rid] by simp
  have amounts: "0 \<le> reserved_cost r \<and> 0 \<le> reserved_latency_ms r" if "r \<in> set (objects b')" for r
  proof -
    have "r = (objects b ! ref)\<lparr>res_state := s\<rparr> \<or> r \<in> set (objects b)"
      using that set_update_subset_insert unfolding b'(2) by fastforce
    then show ?thesis using b(4,5) nth_mem [OF ref] by auto
  qed
  note hc = held_release [where f = reserved_cost, OF b(1) rid b'(1,2)]
  note c = tracks_release [OF b(7) b(1) rid b'(1,2) _ b(4) wf' sM b(6)]
  note l = tracks_release [OF b(8) b(1) rid b'(1,2) _ b(5) wf' sL b(6)]
  have "tracks reserved_cost (reserved_for_execution b') M b'"
    using c rc by auto
  moreover have "tracks reserved_latency_ms (bm_reserved_latency_ms b') L b'"
    using l rl by auto
  moreover have "cumulative_remote_cost b' + held reserved_cost b'
      + of_nat (length (active_reservations b')) * eps9
      \<le> M + eps12 + of_nat K * eps9 + of_nat (4 * touches b') * half_ulp (M + 2)"
    using b(12) hc spend(2) smallD(3) [OF sM] by (simp add: algebra_simps)
  ultimately show ?thesis
    using b wf' amounts b'(2-4) lat spend(1) by (auto simp: books_def)
qed

lemma books_rollback:
  assumes "books K T M L b" "caps_ok K T M L"
  shows "books K T M L (fst (rollback rid b))"
proof (rule rollback_cases [of b rid])
  fix ref
  assume r: "map_of (active_reservations b) rid = Some ref"
    "rollback rid b = (release_clamped rid ref (set_state ref RolledBack b), Inr (), settle_calls rid)"
  note b = booksD [OF assms(1)]
  have "0 \<le> reserved_cost (objects b ! ref)" using b(4) active_pending [OF b(1) r(1)] by simp
  moreover have "0 \<le> half_ulp (M + 2)" using assms(2) smallD(3) by (auto simp: caps_ok_def)
  ultimately show ?thesis
    using r b by (intro books_release [OF assms r(1), of RolledBack])
      (auto simp: release_clamped_def Let_def nth_list_update active_pending)
qed (use assms in simp)

lemma books_commit:
  assumes bk: "books K T M L b" and ok: "caps_ok K T M L" and ac: "0 \<le> ac" and al: "0 \<le> al"
  shows "books K T M L (fst (commit rid ac al b))"
proof (rule commit_cases [of b rid ac al])
  note b = booksD [OF bk]
  have sM: "small T M" using ok by (simp add: caps_ok_def)
  note sd = smallD [OF sM]
  {
    fix ref e
    assume r: "map_of (active_reservations b) rid = Some ref"
      and c: "commit rid ac al b =
        (release_plain rid ref (set_state ref RolledBack b), Inl e, settle_calls rid)"
    have "0 \<le> reserved_cost (objects b ! ref)" using b(4) active_pending [OF b(1) r] by simp
    then show ?thesis
      using r c b sd(3) active_pending [OF b(1) r]
      by (intro books_release [OF bk ok r, of RolledBack]) (auto simp: release_plain_def Let_def)
  }
  fix ref
  assume r: "map_of (active_reservations b) rid = Some ref"
    and cost: "ac \<le> fadd (reserved_cost (objects b ! ref)) eps9"
    and lat: "fadd (cumulative_actual_latency_ms b) al \<le> fadd (max_cumulative_latency_ms b) eps9"
    and c: "commit rid ac al b =
      ((release_clamped rid ref (set_state ref Committed b))
         \<lparr> cumulative_remote_cost := fadd (cumulative_remote_cost b) ac,
           cumulative_actual_latency_ms := fadd (cumulative_actual_latency_ms b) al \<rparr>,
       Inr (), settle_calls rid)"
  let ?rc = "reserved_cost (objects b ! ref)" and ?c = "cumulative_remote_cost b"
  let ?b' = "fst (commit rid ac al b)" and ?d = "half_ulp (M + 2)"
  have wf': "bm_wf ?b'" using bm_wf_commit [OF b(1)] .
  have "?rc \<le> held reserved_cost b"
  proof -
    have "held reserved_cost b = ?rc + held reserved_cost ?b'"
      by (rule held_release(1) [OF b(1) r]) (simp_all add: c)
    moreover have "0 \<le> held reserved_cost ?b'"
    proof (rule held_nonneg [OF _ wf'])
      fix r'
      assume "r' \<in> set (objects ?b')"
      then have "r' = (objects b ! ref)\<lparr>res_state := Committed\<rparr> \<or> r' \<in> set (objects b)"
        using set_update_subset_insert by (fastforce simp: c)
      then show "0 \<le> reserved_cost r'" using b(4) active_pending [OF b(1) r] by auto
    qed
    ultimately show ?thesis by simp
  qed
  moreover have rc0: "0 \<le> ?rc" using b(4) active_pending [OF b(1) r] by simp
  moreover note books_spent(1) [OF bk ok]
  ultimately have "?c + ?rc \<le> M + 1 / 2" and "?rc \<le> M + 1 / 2"
    using b(9) by linarith+
  moreover have "\<bar>fadd ?rc eps9 - (?rc + eps9)\<bar> \<le> ?d"
    using calculation rc0 eps_small eps_nonneg by (intro fadd_error) linarith
  ultimately have "ac \<le> ?rc + eps9 + ?d" and "\<bar>?c + ac\<bar> \<le> M + 2"
    using cost ac b(9) sd(2) eps_small by (linarith, linarith)
  moreover have "\<bar>fadd ?c ac - (?c + ac)\<bar> \<le> ?d" using calculation(2) by (rule fadd_error)
  ultimately have "fadd ?c ac \<le> ?c + ?rc + eps9 + 2 * ?d" by linarith
  then show ?thesis
    using r c lat b ac al active_pending [OF b(1) r]
    by (intro books_release [OF bk ok r, of Committed]) (auto simp: release_clamped_def Let_def)
qed (use bk in simp)

lemma books_step:
  assumes "caps_ok K T M L \<and> books K T M L b" and op: "books_op K T b op"
  shows "caps_ok K T M L \<and> books K T M L (bm_step b op)"
proof -
  have ok: "caps_ok K T M L" and bk: "books K T M L b" using assms(1) by auto
  have "books K T M L (bm_step b op)"
  proof (cases op)
    case (Op_reserve now uuid req cost lat)
    show ?thesis
      by (rule try_reserve_cases [of cost lat now uuid req b])
         (use op bk Op_reserve in \<open>auto simp: books_op_def intro: books_grant [OF bk ok]\<close>)
  next
    case (Op_commit rid ac al)
    with op show ?thesis using books_commit [OF bk ok] by (simp add: books_op_def)
  next
    case (Op_rollback rid)
    then show ?thesis using books_rollback [OF bk ok] by simp
  next
    case (Op_expire clock)
    have "books K T M L (fst (expire_stale_reservations clock b))"
      by (rule expire_preserves [where I = "books K T M L"])
         (use ok bk booksD(1) [OF bk] in \<open>auto intro: books_rollback\<close>)
    with Op_expire show ?thesis by simp
  qed
  with ok show ?thesis ..
qed

interpretation ledger: guarded_machine bm_step "books_op K T"
  "\<lambda>b. caps_ok K T M L \<and> books K T M L b" for K T M L
  by unfold_locales (rule books_step)

lemma books_init:
  "init_bm M L ttl = Inr b \<Longrightarrow> 0 \<le> L \<Longrightarrow> caps_ok K T M L \<Longrightarrow> books K T M L b"
  using eps_nonneg
  by (auto simp: init_bm_def books_def bm_wf_def caps_ok_def small_def tracks_def held_def touches_def
        intro!: fops_nonneg add_nonneg_nonneg mult_nonneg_nonneg split: if_splits)

lemma books_run:
  assumes "init_bm M L ttl = Inr b0" "0 \<le> L" "caps_ok K T M L" "permitted (books_op K T) bm_step b0 ops"
  shows "books K T M L (run bm_step b0 ops)"
  using ledger.inv_run [of K T M L] books_init assms by blast

section \<open>Properties of the books\<close>

lemma smallI:
  "0 \<le> M \<Longrightarrow> of_nat (32 * T + 16) * (M + 3) \<le> 2 ^ 53 \<Longrightarrow> small T M"
proof -
  assume M: "0 \<le> M" and T: "of_nat (32 * T + 16) * (M + 3) \<le> (2 ^ 53 :: rat)"
  have "of_nat (32 * T + 16) * half_ulp (M + 2) \<le> of_nat (32 * T + 16) * ((M + 3) / 2 ^ 53)"
    using half_ulp_le [of "M + 2"] by (intro mult_left_mono) (simp_all add: add.commute)
  also have "\<dots> \<le> 1" using T by (simp add: divide_le_eq)
  finally show ?thesis using M by (simp add: small_def)
qed

lemma sample_caps: "caps_ok 2 3 5 600"
  using eps_small by (simp add: caps_ok_def smallI)

lemmas sample_steps =
  sample_step1 sample_step2 [unfolded sample_step1]
  sample_state [unfolded sample_ops_def run.simps sample_step2]

lemma sample_books_ops: "permitted (books_op 2 3) bm_step sample_bm sample_ops"
  unfolding sample_ops_def permitted.simps books_op_def sample_steps
  by (simp add: sample_bm_def sample_res_def)

text \<open>
  C4: The budget is never overspent.  Whatever reserve, commit, rollback and reaper
  operations have run, and in whatever order the requests interleaved them, the money charged
  together with the money still promised to active reservations is at most the cap, plus the
  1e-12 the admission check grants, plus the 1e-9 each of at most \<open>K\<close> simultaneous
  reservations may exceed its amount by at commit, plus the rounding of the \<open>T\<close>
  reservations made so far.
\<close>

theorem budget_cap_safe:
  assumes "init_bm M L ttl = Inr b0" and "0 \<le> L" and "caps_ok K T M L"
    and "permitted (books_op K T) bm_step b0 ops"
  shows "cumulative_remote_cost (run bm_step b0 ops) + held reserved_cost (run bm_step b0 ops)
           \<le> M + eps12 + of_nat K * eps9 + of_nat (8 * T) * half_ulp (M + 2)"
proof -
  note b = booksD [OF books_run [OF assms]]
  have "of_nat (4 * touches (run bm_step b0 ops)) * half_ulp (M + 2) \<le> of_nat (8 * T) * half_ulp (M + 2)"
    using touches_le [OF b(6)] smallD(3) [of T M] assms(3)
    by (intro mult_right_mono) (simp_all only: caps_ok_def of_nat_le_iff)
  moreover have "0 \<le> of_nat (length (active_reservations (run bm_step b0 ops))) * eps9"
    by (intro mult_nonneg_nonneg) simp_all
  ultimately show ?thesis using b(12) by linarith
qed

theorem budget_cap_safe_witness:
  "cumulative_remote_cost (run bm_step sample_bm sample_ops) = 1 \<and>
   held reserved_cost (run bm_step sample_bm sample_ops) = 2 \<and>
   1 + 2 \<le> 5 + eps12 + of_nat 2 * eps9 + of_nat (8 * 3) * half_ulp (5 + 2)"
  using budget_cap_safe [OF sample_init _ sample_caps sample_books_ops]
  by (simp add: sample_state held_def sample_res_def)

text \<open>
  C8: No reservation leak in the totals.  The float totals \<open>_reserved_for_execution\<close> and
  \<open>_reserved_latency_ms\<close> differ from the exact sum of what the active reservations hold by
  at most one half-unit in the last place per reservation made and per reservation released, so
  with nothing active they are zero up to that rounding.
\<close>

theorem totals_track_reservations:
  assumes "init_bm M L ttl = Inr b0" and "0 \<le> L" and "caps_ok K T M L"
    and "permitted (books_op K T) bm_step b0 ops" and "b = run bm_step b0 ops"
  shows "\<bar>reserved_for_execution b - held reserved_cost b\<bar>
           \<le> of_nat (2 * length (objects b) - active_reservation_count b) * half_ulp (M + 2) \<and>
         \<bar>bm_reserved_latency_ms b - held reserved_latency_ms b\<bar>
           \<le> of_nat (2 * length (objects b) - active_reservation_count b) * half_ulp (L + 2) \<and>
         (active_reservation_count b = 0 \<longrightarrow> held reserved_cost b = 0 \<and> held reserved_latency_ms b = 0)"
  using booksD(7,8) [OF books_run [OF assms(1-4)]] assms(5)
  by (simp add: tracks_def touches_def active_reservation_count_def held_def)

theorem totals_track_reservations_witness:
  "\<bar>reserved_for_execution (run bm_step sample_bm sample_ops) - 2\<bar> \<le> of_nat 3 * half_ulp (5 + 2)"
  using totals_track_reservations [OF sample_init _ sample_caps sample_books_ops refl]
  by (simp add: sample_state held_def sample_res_def active_reservation_count_def)

text \<open>
  The cumulative latency never passes the global cap plus 1e-9.  This is exact in floats:
  the value that is stored is the value that was compared, for any operations whatever.
\<close>

theorem latency_cap_safe:
  assumes "init_bm M L ttl = Inr b0" and "0 \<le> L"
  shows "cumulative_actual_latency_ms (run bm_step b0 ops) \<le> fadd L eps9"
proof -
  let ?I = "\<lambda>b. max_cumulative_latency_ms b = L \<and> cumulative_actual_latency_ms b \<le> fadd L eps9"
  have reserve: "?I (fst (try_reserve now uuid req cost lat b))" if "?I b" for now uuid req cost lat b
    using that by (rule_tac try_reserve_cases [of cost lat now uuid req b]) (auto simp: with_reservation_def)
  have commit: "?I (fst (commit rid ac al b))" if "?I b" for rid ac al b
    using that by (rule_tac commit_cases [of b rid ac al]) auto
  have rollback: "?I (fst (rollback rid b))" if "?I b" for rid b
    using that by (rule_tac rollback_cases [of b rid]) auto
  have loop: "?I (fst (expire_loop clock i items b))" if "?I b" for clock i items b
    using that by (induction clock i items b rule: expire_loop.induct) (auto simp: Let_def split_beta)
  have step: "?I (bm_step b op)" if "?I b" for b op
    using reserve [OF that] commit [OF that] rollback [OF that] loop [OF that]
    by (cases op) (auto simp: expire_stale_reservations_def)
  have "?I (run bm_step b ops)" if "?I b" for b
    using that by (induction ops arbitrary: b) (auto simp: step)
  moreover have "?I b0"
    using assms by (auto simp: init_bm_def split: if_splits intro!: fops_nonneg)
  ultimately show ?thesis by blast
qed

theorem latency_cap_safe_witness:
  "cumulative_actual_latency_ms (run bm_step sample_bm sample_ops) = 90 \<and> 90 \<le> fadd 600 eps9"
  using latency_cap_safe [OF sample_init, of sample_ops] by (simp add: sample_state)

text \<open>
  Admission is complete: a well-formed request is refused only when it really does not
  fit.  If \<open>try_reserve\<close> answers \<open>None\<close>, then for the cost or for the latency the exact
  sum of what is spent, reserved and requested is above the cap (plus the 1e-12 the code grants)
  up to three half-units of rounding.  At the default latency cap the rounding is larger than
  the 1e-12, so there the tolerance has no effect.
\<close>

theorem refused_only_when_full:
  assumes "init_bm M L ttl = Inr b0" and "0 \<le> L" and "caps_ok K T M L"
    and "permitted (books_op K T) bm_step b0 ops" and b: "b = run bm_step b0 ops"
    and none: "fst (snd (try_reserve now uuid req cost lat b)) = Inr None"
  shows "M + eps12 - 3 * half_ulp (M + 2)
           < cumulative_remote_cost b + reserved_for_execution b + cost \<or>
         L + eps12 - 3 * half_ulp (L + 2)
           < cumulative_actual_latency_ms b + bm_reserved_latency_ms b + lat"
proof -
  have bk: "books K T M L b" using books_run [OF assms(1-4)] b by simp
  note bD = booksD [OF bk] and sp = books_spent [OF bk assms(3)]
  have sM: "small T M" and sL: "small T L" using assms(3) by (auto simp: caps_ok_def)
  note rM = tracks_range [OF bD(7) sM bD(6)] and rL = tracks_range [OF bD(8) sL bD(6)]
  note dM = smallD(1,2) [OF sM] and dL = smallD(1,2) [OF sL]
  have cM: "cumulative_remote_cost b \<le> M + 1 / 2" using sp(1) bD(7) by (simp add: tracks_def)
  show ?thesis
  proof (rule try_reserve_cases [of cost lat now uuid req b])
    assume x: "0 \<le> cost" "0 \<le> lat" and full: "\<not> admits cost lat b"
    from full consider
        (cost) "fsub (fsub M (cumulative_remote_cost b)) (reserved_for_execution b) < fsub cost eps12"
      | (lat) "fsub (fsub L (cumulative_actual_latency_ms b)) (bm_reserved_latency_ms b) < fsub lat eps12"
      using bD(2,3) by (auto simp: admits_def not_le)
    then show ?thesis
    proof cases
      case cost
      have "M + eps12 - 3 * half_ulp (M + 2)
          < cumulative_remote_cost b + reserved_for_execution b + cost"
        by (rule refusal [OF dM(1) bD(9) cM _ _ x(1) dM(2) cost]) (use rM in linarith)+
      then show ?thesis ..
    next
      case lat
      have "L + eps12 - 3 * half_ulp (L + 2)
          < cumulative_actual_latency_ms b + bm_reserved_latency_ms b + lat"
        by (rule refusal [OF dL(1) bD(10) sp(2) _ _ x(2) dL(2) lat]) (use rL in linarith)+
      then show ?thesis ..
    qed
  qed (use none in simp_all)
qed

lemma sample_refused:
  "fst (snd (try_reserve 0 ''c'' ''q3'' 4 100 (run bm_step sample_bm sample_ops))) = Inr None"
proof -
  have "fsub 4 1 \<le> fsub 4 eps12" using eps_small by (intro fsub_mono) auto
  moreover have "fsub 4 1 = 3" "fsub (fsub 5 1) 2 = 2" by (simp_all add: float_eval)
  ultimately have "fsub (fsub 5 1) 2 < fsub 4 eps12" by linarith
  then show ?thesis unfolding sample_state by (simp add: try_reserve_def Let_def sample_bm_def)
qed

theorem refused_only_when_full_witness:
  "5 + eps12 - 3 * half_ulp (5 + 2) < 1 + 2 + 4 \<or> 600 + eps12 - 3 * half_ulp (600 + 2) < 90 + 100 + 100"
  using refused_only_when_full [OF sample_init _ sample_caps sample_books_ops refl sample_refused]
  by (simp add: sample_state)

text \<open>
  No double spend.  When any number of requests try to reserve the same amount
  \<open>c\<close> from a fresh manager, in any order, the amounts granted add up to at most the cap,
  up to the tolerances and the rounding: the number granted is at most the cap divided by
  \<open>c\<close>.
\<close>

theorem no_double_spend:
  assumes "init_bm M L ttl = Inr b0" and "0 \<le> L" and "caps_ok K T M L"
    and "permitted (books_op K T) bm_step b0 ops" and b: "b = run bm_step b0 ops"
    and ops: "\<forall>op \<in> set ops. \<exists>now uuid req lat. op = Op_reserve now uuid req c lat"
  shows "active_reservation_count b = length (objects b) \<and>
         of_nat (length (objects b)) * c
           \<le> M + eps12 + of_nat K * eps9 + of_nat (8 * T) * half_ulp (M + 2)"
proof -
  let ?P = "\<lambda>b. bm_wf b \<and> length (active_reservations b) = length (objects b) \<and>
      (\<forall>r \<in> set (objects b). reserved_cost r = c) \<and> cumulative_remote_cost b = 0"
  have step: "?P (fst (try_reserve now uuid req c lat b))"
    if "?P b" "uuid \<notin> res_id ` set (objects b)" for b now uuid req lat
    using that held_with_reservation(2) [of b uuid now c lat]
    by (rule_tac try_reserve_cases [of c lat now uuid req b])
       (auto simp: bm_wf_with_reservation, auto simp: with_reservation_def)
  have "?P (run bm_step b ops)" if "?P b" "permitted (books_op K T) bm_step b ops" for b
    using that ops
  proof (induction ops arbitrary: b)
    case (Cons op ops)
    then obtain now uuid req lat where op: "op = Op_reserve now uuid req c lat" by auto
    from Cons.prems op have "?P (bm_step b op)" by (auto simp: books_op_def intro!: step)
    with Cons show ?case by auto
  qed simp
  moreover have "?P b0" using bm_wf_init [OF assms(1)] assms(1) by (auto simp: init_bm_def split: if_splits)
  ultimately have P: "?P b" using assms(4) b by blast
  have "held reserved_cost b = sum_list (map (\<lambda>_. c) (active_reservations b))"
    unfolding held_def using P wf_tableD(3) [of "active_reservations b" "objects b"]
    by (intro arg_cong [of _ _ sum_list] map_cong) (auto simp: bm_wf_def)
  then have "held reserved_cost b = of_nat (length (objects b)) * c"
    using P by (simp add: sum_list_triv)
  moreover have "books K T M L b" using books_run [OF assms(1-4)] b by simp
  note bk = booksD [OF this]
  moreover have "of_nat (4 * touches b) * half_ulp (M + 2) \<le> of_nat (8 * T) * half_ulp (M + 2)"
    using touches_le [OF bk(6)] smallD(3) [of T M] assms(3) b
    by (intro mult_right_mono) (simp_all only: caps_ok_def of_nat_le_iff)
  moreover have "0 \<le> of_nat (length (active_reservations b)) * eps9" by simp
  ultimately have "of_nat (length (objects b)) * c
      \<le> M + eps12 + of_nat K * eps9 + of_nat (8 * T) * half_ulp (M + 2)"
    using bk(9,12) by linarith
  with P show ?thesis by (simp add: active_reservation_count_def)
qed

lemma sample_reserves:
  "permitted (books_op 2 3) bm_step sample_bm [Op_reserve 0 ''a'' ''q1'' 1 100]"
  unfolding permitted.simps books_op_def sample_steps by (simp add: sample_bm_def)

theorem no_double_spend_witness:
  "length (objects (run bm_step sample_bm [Op_reserve 0 ''a'' ''q1'' 1 100])) = 1 \<and>
   1 * 1 \<le> 5 + eps12 + of_nat 2 * eps9 + of_nat (8 * 3) * half_ulp (5 + 2)"
  using no_double_spend [OF sample_init _ sample_caps sample_reserves refl, of 1]
  by (simp add: sample_step1 del: bm_step.simps)

text \<open>
  Reserving and rolling back with nothing else active gives the funds back exactly: both
  totals return to zero, the reservation is rolled back, and nothing is charged.
\<close>

theorem sole_reservation_roundtrip:
  assumes wf: "bm_wf b" and empty: "active_reservations b = []"
    and zero: "reserved_for_execution b = 0" "bm_reserved_latency_ms b = 0"
    and fresh: "uuid \<notin> res_id ` set (objects b)"
    and amounts: "is_float cost" "is_float lat"
    and res: "try_reserve now uuid req cost lat b = (b1, Inr (Some ref), calls)"
  shows "\<exists>b2. reservation_rollback ref b1 = (b2, Inr (), settle_calls uuid) \<and>
           b2 = b\<lparr>objects := objects b @ [(objects b1 ! ref)\<lparr>res_state := RolledBack\<rparr>]\<rparr>"
proof (rule try_reserve_cases [of cost lat now uuid req b])
  assume "try_reserve now uuid req cost lat b =
      (with_reservation now uuid cost lat b, Inr (Some (length (objects b))),
       [(req, Reserve_phase, Acquire), (req, Reserve_phase, Release)])"
  with res have "b1 = with_reservation now uuid cost lat b" "ref = length (objects b)" by auto
  then show ?thesis
    using empty zero amounts
    by (simp add: reservation_rollback_def rollback_def with_reservation_def release_clamped_def
          Let_def set_state_def)
qed (use res in simp_all)

theorem sole_reservation_roundtrip_witness:
  "\<exists>b2. reservation_rollback 0 (fst (try_reserve 0 ''a'' ''q1'' 1 100 sample_bm)) = (b2, Inr (), settle_calls ''a'')"
proof -
  have "admits 1 100 sample_bm" by (rule admitsI) (simp_all add: sample_bm_def float_eval)
  then have r: "try_reserve 0 ''a'' ''q1'' 1 100 sample_bm =
      (with_reservation 0 ''a'' 1 100 sample_bm, Inr (Some 0),
       [(''q1'', Reserve_phase, Acquire), (''q1'', Reserve_phase, Release)])"
    by (simp add: try_reserve_granted) (simp add: sample_bm_def)
  show ?thesis
    using sole_reservation_roundtrip [OF bm_wf_init [OF sample_init] _ _ _ _ _ _ r]
    by (auto simp: sample_bm_def r [unfolded sample_bm_def])
qed

end
