(* ===== verification/System.thy ===== *)
theory System
  imports Inference Budget_Ledger
begin

text \<open>
  The whole service: the application and all requests it has seen, driven by interleaved
  events.

  An event is one uninterrupted piece of work of the event loop: a request arrives, the backend
  call of a request returns or raises (cancellation included), a reaper wakes up, a run starts, a
  dashboard client connects, reads an event or leaves.  \<open>reach\<close> are the states of the
  service under any schedule of such events.  What the environment promises is \<open>event_ok\<close>:
  fresh identifiers, positive measured latencies, non-negative costs, and that the two errors
  only \<open>commit\<close> raises do not come out of a backend.
\<close>

section \<open>Events\<close>

record system =
  sy_app :: app
  sy_handlers :: "handler list"

datatype sys_event =
    Arrive "nat \<Rightarrow> flt" flt string inference_request
  | Resume nat "nat \<Rightarrow> flt" "exc + backend_result"
  | Reap nat "nat \<Rightarrow> flt"
  | Start_run string bool
  | Complete_run string string "(string \<times> json) list" "(string \<times> json) list"
  | Clear_trace
  | Sse_connect
  | Sse_read nat
  | Sse_close nat
  | Shut_down

definition resume_handler ::
  "(nat \<Rightarrow> flt) \<Rightarrow> exc + backend_result \<Rightarrow> app \<Rightarrow> handler \<Rightarrow> app \<times> handler" where
  "resume_handler clock out ap h =
     (case h of
        Awaiting_remote p \<Rightarrow> resume_remote clock p out ap
      | Awaiting_local p \<Rightarrow> resume_local clock p out ap
      | Awaiting_fallback p \<Rightarrow> resume_fallback p out ap
      | _ \<Rightarrow> (ap, h))"

definition reap :: "nat \<Rightarrow> (nat \<Rightarrow> flt) \<Rightarrow> app \<Rightarrow> app" where
  "reap g clock ap =
     (if g < length (ap_gens ap) \<and> c_reaper (ap_gens ap ! g)
      then upd_gen g (\<lambda>c. c\<lparr>c_bm := fst (expire_stale_reservations clock (c_bm c))\<rparr>) ap
      else ap)"

text \<open>The loop of the generator behind \<open>/events\<close> for one event of the client \<open>ref\<close>.\<close>

definition sse_read :: "nat \<Rightarrow> app \<Rightarrow> app" where
  "sse_read ref ap =
     (case take_event ref (ob_bus (ap_obs ap)) of
        None \<Rightarrow> ap
      | Some (e, bus) \<Rightarrow>
          let ap1 = on_obs (\<lambda>ob. ob\<lparr>ob_bus := bus\<rparr>) ap in
          (case e of
             Route_decided rid r tier why est depth liquid p \<Rightarrow> count_route r ap1
           | _ \<Rightarrow> ap1))"

fun sys_step :: "config \<Rightarrow> system \<Rightarrow> sys_event \<Rightarrow> system" where
  "sys_step cfg sy (Arrive clock now uuid req) =
     (case start_request cfg clock now uuid req (sy_app sy) of
        (ap, h) \<Rightarrow> \<lparr> sy_app = ap, sy_handlers = sy_handlers sy @ [h] \<rparr>)"
| "sys_step cfg sy (Resume i clock out) =
     (if i < length (sy_handlers sy)
      then (case resume_handler clock out (sy_app sy) (sy_handlers sy ! i) of
              (ap, h) \<Rightarrow> \<lparr> sy_app = ap, sy_handlers = (sy_handlers sy)[i := h] \<rparr>)
      else sy)"
| "sys_step cfg sy (Reap g clock) = sy\<lparr>sy_app := reap g clock (sy_app sy)\<rparr>"
| "sys_step cfg sy (Start_run run_id reset) = sy\<lparr>sy_app := fst (run_start cfg run_id reset (sy_app sy))\<rparr>"
| "sys_step cfg sy (Complete_run run_id verdict metrics routes) =
     sy\<lparr>sy_app := run_complete run_id verdict metrics routes (sy_app sy)\<rparr>"
| "sys_step cfg sy Clear_trace =
     sy\<lparr>sy_app := on_obs (\<lambda>ob. ob\<lparr>ob_trace := clear_lock_trace (ob_trace ob)\<rparr>) (sy_app sy)\<rparr>"
| "sys_step cfg sy Sse_connect =
     sy\<lparr>sy_app := on_obs (\<lambda>ob. ob\<lparr>ob_bus := fst (subscribe (ob_bus ob))\<rparr>) (sy_app sy)\<rparr>"
| "sys_step cfg sy (Sse_read ref) = sy\<lparr>sy_app := sse_read ref (sy_app sy)\<rparr>"
| "sys_step cfg sy (Sse_close ref) =
     sy\<lparr>sy_app := on_obs (\<lambda>ob. ob\<lparr>ob_bus := unsubscribe ref (ob_bus ob)\<rparr>) (sy_app sy)\<rparr>"
| "sys_step cfg sy Shut_down = sy\<lparr>sy_app := shutdown (sy_app sy)\<rparr>"

section \<open>Schedules\<close>

definition config_ok :: "config \<Rightarrow> bool" where
  "config_ok cfg \<longleftrightarrow>
     0 < MAX_REMOTE_BUDGET cfg \<and> 0 < LOCAL_QUEUE_CAPACITY cfg \<and> 0 \<le> MAX_CUMULATIVE_LATENCY_MS cfg \<and>
     0 \<le> COST_PER_REMOTE_REQUEST cfg \<and> 0 \<le> EMA_ALPHA cfg \<and> EMA_ALPHA cfg \<le> 1 \<and> 0 < LATENCY_WINDOW_SIZE cfg \<and>
     0 < AVG_LOCAL_LATENCY_MS cfg \<and> is_float (AVG_LOCAL_LATENCY_MS cfg) \<and>
     0 < AVG_REMOTE_LATENCY_MS cfg \<and> is_float (AVG_REMOTE_LATENCY_MS cfg)"

definition result_ok :: "exc + backend_result \<Rightarrow> bool" where
  "result_ok out \<longleftrightarrow>
     (case out of
        Inr res \<Rightarrow> 0 \<le> br_actual_cost res \<and> 0 < br_actual_latency_ms res \<and> is_float (br_actual_latency_ms res)
      | Inl e \<Rightarrow> (case e of ActualCostExceeded _ _ \<Rightarrow> False | ActualLatencyExceeded _ _ \<Rightarrow> False | _ \<Rightarrow> True))"

fun event_ok :: "system \<Rightarrow> sys_event \<Rightarrow> bool" where
  "event_ok sy (Arrive clock now uuid req) \<longleftrightarrow>
     uuid \<notin> res_id ` set (objects (gen_bm (sy_app sy) (current (sy_app sy))))"
| "event_ok sy (Resume i clock out) \<longleftrightarrow> result_ok out"
| "event_ok sy _ \<longleftrightarrow> True"

inductive reach :: "config \<Rightarrow> system \<Rightarrow> bool" for cfg where
  reach_start: "startup cfg health = Inr ap \<Longrightarrow> reach cfg \<lparr> sy_app = ap, sy_handlers = [] \<rparr>"
| reach_step: "reach cfg sy \<Longrightarrow> event_ok sy ev \<Longrightarrow> reach cfg (sys_step cfg sy ev)"

section \<open>What the service asks of a backend\<close>

text \<open>
  The interface between the handlers and the backends: a call, made in a state \<open>w\<close> of the outside,
  whose results satisfy \<open>result_ok\<close>.
\<close>

locale backend_contract =
  fixes call :: "'w \<Rightarrow> handler \<Rightarrow> exc + backend_result"
    and legal :: "'w \<Rightarrow> bool"
  assumes call_ok: "legal w \<Longrightarrow> result_ok (call w h)"
begin

lemma call_event: "legal w \<Longrightarrow> event_ok sy (Resume i clock (call w h))"
  by (simp add: call_ok)

lemma call_reach:
  "reach cfg sy \<Longrightarrow> legal w \<Longrightarrow> reach cfg (sys_step cfg sy (Resume i clock (call w (sy_handlers sy ! i))))"
  by (rule reach_step [OF _ call_event])

end

section \<open>Runs of one manager\<close>

definition clean_op :: "bm \<Rightarrow> bm_op \<Rightarrow> bool" where
  "clean_op b op \<longleftrightarrow> fresh_op b op \<and> actuals_ok op"

definition bm_reach :: "bm \<Rightarrow> bm \<Rightarrow> bool" where
  "bm_reach b b' \<longleftrightarrow> (\<exists>ops. permitted clean_op bm_step b ops \<and> b' = run bm_step b ops)"

lemma bm_reach_refl [simp]: "bm_reach b b"
  unfolding bm_reach_def by (rule exI [of _ "[]"]) simp

lemma bm_reach_trans: "bm_reach a b \<Longrightarrow> bm_reach b c \<Longrightarrow> bm_reach a c"
  unfolding bm_reach_def by (metis permitted_append run_append)

lemma bm_reach_step: "clean_op b op \<Longrightarrow> bm_reach b (bm_step b op)"
  unfolding bm_reach_def by (rule exI [of _ "[op]"]) simp

lemma permitted_mono:
  "(\<And>s e. ok s e \<Longrightarrow> ok' s e) \<Longrightarrow> permitted ok step s es \<Longrightarrow> permitted ok' step s es"
  by (induction es arbitrary: s) auto

lemma bm_reach_wf: "bm_reach b b' \<Longrightarrow> bm_wf b \<Longrightarrow> bm_wf b'"
  unfolding bm_reach_def using budget.inv_run permitted_mono [of clean_op fresh_op] clean_op_def by blast

lemma bm_reach_evolves: "bm_reach b b' \<Longrightarrow> bm_wf b \<Longrightarrow> evolves (objects b) (objects b')"
  unfolding bm_reach_def using evolves_run permitted_mono [of clean_op fresh_op] clean_op_def by blast

lemma bm_reach_rollback: "bm_reach b (fst (rollback rid b))"
  using bm_reach_step [of b "Op_rollback rid"] by (simp add: clean_op_def)

lemma bm_reach_commit: "0 \<le> ac \<Longrightarrow> 0 \<le> al \<Longrightarrow> bm_reach b (fst (commit rid ac al b))"
  using bm_reach_step [of b "Op_commit rid ac al"] by (simp add: clean_op_def)

lemma bm_reach_expire: "bm_reach b (fst (expire_stale_reservations clock b))"
  using bm_reach_step [of b "Op_expire clock"] by (simp add: clean_op_def)

lemma evolves_settled:
  "evolves xs ys \<Longrightarrow> ref < length xs \<Longrightarrow> res_state (xs ! ref) \<noteq> Pending \<Longrightarrow> res_state (ys ! ref) \<noteq> Pending"
  by (auto simp: evolves_def)

text \<open>Settling through a handle: afterwards the object is not pending, whatever the result.\<close>

definition commit_exc :: "exc \<Rightarrow> bool" where
  "commit_exc e \<longleftrightarrow>
     (case e of InvalidReservationState _ \<Rightarrow> True | ActualCostExceeded _ _ \<Rightarrow> True
      | ActualLatencyExceeded _ _ \<Rightarrow> True | _ \<Rightarrow> False)"

definition settles :: "nat \<Rightarrow> bm \<Rightarrow> bm \<Rightarrow> bool" where
  "settles ref b b' \<longleftrightarrow>
     bm_reach b b' \<and> length (objects b') = length (objects b) \<and> res_state (objects b' ! ref) \<noteq> Pending"

lemma pending_active:
  "bm_wf b \<Longrightarrow> ref < length (objects b) \<Longrightarrow> res_state (objects b ! ref) = Pending \<Longrightarrow>
     map_of (active_reservations b) (res_id (objects b ! ref)) = Some ref"
  using wf_tableD(1,6) map_of_is_SomeI unfolding bm_wf_def by fastforce

lemma rollback_settles:
  assumes "bm_wf b" "ref < length (objects b)" "res_state (objects b ! ref) = Pending"
    and "reservation_rollback ref b = (b', r, calls)"
  shows "r = Inr () \<and> settles ref b b'"
proof -
  note a = pending_active [OF assms(1-3)]
  have "bm_reach b b'"
    using bm_reach_rollback [of b "res_id (objects b ! ref)"] assms(4) by (simp add: reservation_rollback_def)
  with a assms(2,4) show ?thesis
    by (auto simp: reservation_rollback_def rollback_def settles_def)
qed

lemma commit_settles:
  assumes "bm_wf b" "ref < length (objects b)" "0 \<le> ac" "0 \<le> al"
    and c: "reservation_commit ref ac al b = (b', r, calls)"
  shows "settles ref b b' \<and> (\<forall>e. r = Inl e \<longrightarrow> commit_exc e)"
proof -
  let ?id = "res_id (objects b ! ref)"
  have r: "bm_reach b b'"
    using bm_reach_commit [OF assms(3,4), of b ?id] c by (simp add: reservation_commit_def)
  show ?thesis
  proof (cases "res_state (objects b ! ref) = Pending")
    case True
    note pending_active [OF assms(1,2) True]
    with c r assms(2) show ?thesis
      by (auto simp: reservation_commit_def commit_def settles_def commit_exc_def Let_def split: if_splits)
  next
    case False
    then have "map_of (active_reservations b) ?id = None" by (rule settled_not_active [OF assms(1,2)])
    with c r False show ?thesis
      by (auto simp: reservation_commit_def commit_def settles_def commit_exc_def)
  qed
qed

section \<open>What a resumed request does to its components\<close>

lemma ap_gens_simps [simp]:
  "ap_gens (on_obs f ap) = ap_gens ap" "ap_gens (count_route r ap) = ap_gens ap"
  "ap_gens (upd_gen g k ap) = (ap_gens ap)[g := k (ap_gens ap ! g)]"
  by (simp_all add: on_obs_def count_route_def upd_gen_def)

lemma current_simps [simp]: "current (on_obs f ap) = current ap" "current (count_route r ap) = current ap"
  by (simp_all add: current_def)

lemma on_bm_gens:
  assumes "f (gen_bm ap g) = (b, r, calls)"
  shows "ap_gens (fst (on_bm clock g f ap)) = (ap_gens ap)[g := (ap_gens ap ! g)\<lparr>c_bm := b\<rparr>]"
    and "snd (on_bm clock g f ap) = r"
  using assms by (simp_all add: on_bm_def)

definition valid_pending :: "app \<Rightarrow> pending \<Rightarrow> nat \<Rightarrow> bool" where
  "valid_pending ap p ref \<longleftrightarrow>
     p_gen p < length (ap_gens ap) \<and> rd_reservation (p_dec p) = Some ref \<and>
     ref < length (objects (gen_bm ap (p_gen p))) \<and> bm_wf (gen_bm ap (p_gen p))"

text \<open>\<open>ap'\<close> differs from \<open>ap\<close> in generation \<open>g\<close> at most, by the relation \<open>R\<close>.\<close>

definition changes :: "nat \<Rightarrow> (components \<Rightarrow> components \<Rightarrow> bool) \<Rightarrow> app \<Rightarrow> app \<Rightarrow> bool" where
  "changes g R ap ap' \<longleftrightarrow> (\<exists>c. ap_gens ap' = (ap_gens ap)[g := c] \<and> R (ap_gens ap ! g) c)"

definition bm_settled :: "nat \<Rightarrow> components \<Rightarrow> components \<Rightarrow> bool" where
  "bm_settled ref c c' \<longleftrightarrow> c' = c\<lparr>c_bm := c_bm c'\<rparr> \<and> settles ref (c_bm c) (c_bm c')"

lemma rollback_pending_settles:
  assumes v: "valid_pending ap p ref"
  shows "\<exists>ap' d. rollback_pending clock p ap = (ap', Inr d) \<and> changes (p_gen p) (bm_settled ref) ap ap'"
proof (cases "res_state (objects (gen_bm ap (p_gen p)) ! ref) = Pending")
  case True
  obtain b r calls where e: "reservation_rollback ref (gen_bm ap (p_gen p)) = (b, r, calls)"
    by (rule prod_cases3)
  with rollback_settles [OF _ _ True e] v have "r = Inr ()" "settles ref (gen_bm ap (p_gen p)) b"
    by (auto simp: valid_pending_def)
  with e True v show ?thesis
    by (auto simp: rollback_pending_def valid_pending_def changes_def bm_settled_def on_bm_def)
next
  case False
  with v show ?thesis
    by (auto simp: rollback_pending_def valid_pending_def changes_def bm_settled_def settles_def
        intro!: exI [of _ "ap_gens ap ! p_gen p"])
qed

lemma settle_request_settles:
  assumes v: "valid_pending ap p ref" and "0 \<le> cost" "0 \<le> lat"
    and e: "settle_request clock p cost lat ap = (ap', r)"
  shows "changes (p_gen p) (bm_settled ref) ap ap' \<and> (\<forall>e. r = Inl e \<longrightarrow> commit_exc e)"
proof -
  obtain b r' calls where c: "reservation_commit ref cost lat (gen_bm ap (p_gen p)) = (b, r', calls)"
    by (rule prod_cases3)
  with commit_settles [OF _ _ assms(2,3) c] v
  have "settles ref (gen_bm ap (p_gen p)) b" "\<forall>e. r' = Inl e \<longrightarrow> commit_exc e"
    by (auto simp: valid_pending_def)
  with c e v show ?thesis
    by (auto simp: settle_request_def valid_pending_def changes_def bm_settled_def on_bm_def split: sum.splits)
qed

text \<open>The \<open>except\<close> clauses.\<close>

definition raised :: "pending \<Rightarrow> nat \<Rightarrow> handler \<Rightarrow> components \<Rightarrow> components \<Rightarrow> bool" where
  "raised p ref h c c' \<longleftrightarrow>
     bm_reach (c_bm c) (c_bm c') \<and> length (objects (c_bm c')) = length (objects (c_bm c)) \<and>
     c' = c\<lparr>c_bm := c_bm c', c_qm := c_qm c'\<rparr> \<and>
     (case h of
        Was_cancelled p' \<Rightarrow> p' = p \<and> c' = c
      | Awaiting_fallback p' \<Rightarrow>
          p' = p \<and> res_state (objects (c_bm c') ! ref) \<noteq> Pending \<and> slot_enter (c_qm c) = Some (c_qm c', Inr ())
      | Awaiting_remote _ \<Rightarrow> False
      | Awaiting_local _ \<Rightarrow> False
      | Suspended_on_slot _ \<Rightarrow> False
      | _ \<Rightarrow> res_state (objects (c_bm c') ! ref) \<noteq> Pending \<and> c_qm c' = c_qm c)"

lemma changes_on_obs [simp]: "changes g R ap (on_obs f ap') = changes g R ap ap'"
  "changes g R (on_obs f ap) ap' = changes g R ap ap'"
  by (simp_all add: changes_def)

lemma changes_if [simp]:
  "changes g R ap (if c then on_obs f ap' else ap') = changes g R ap ap'"
  by simp

lemma changes_mono: "changes g R ap ap' \<Longrightarrow> (\<And>c c'. R c c' \<Longrightarrow> R' c c') \<Longrightarrow> changes g R' ap ap'"
  by (auto simp: changes_def)

lemma settled_raised: "bm_settled ref c c' \<Longrightarrow> h = Http_error n t \<Longrightarrow> raised p ref h c c'"
  by (cases c; cases c') (auto simp: bm_settled_def settles_def raised_def)

lemma valid_on_obs [simp]: "valid_pending (on_obs f ap) p ref = valid_pending ap p ref"
  by (simp add: valid_pending_def)

lemma except_runtime_raises:
  assumes "valid_pending ap p ref" "except_runtime clock p ap = (ap', h)"
  shows "changes (p_gen p) (raised p ref h) ap ap'"
proof -
  obtain ap1 d where r: "rollback_pending clock p ap = (ap1, Inr d)" "changes (p_gen p) (bm_settled ref) ap ap1"
    using rollback_pending_settles [OF assms(1)] by blast
  with assms(2) have h: "h = Http_error 503 (Plain ''Local queue at capacity'')"
    and "changes (p_gen p) (bm_settled ref) ap ap'"
    by (auto simp: except_runtime_def Let_def)
  from this(2) show ?thesis by (rule changes_mono) (rule settled_raised [OF _ h])
qed

lemma except_other_raises:
  assumes "valid_pending ap p ref" "except_other clock p e ap = (ap', h)"
  shows "changes (p_gen p) (raised p ref h) ap ap'"
proof -
  obtain ap1 d where r: "rollback_pending clock p ap = (ap1, Inr d)" "changes (p_gen p) (bm_settled ref) ap ap1"
    using rollback_pending_settles [OF assms(1)] by blast
  with assms(2) have h: "h = Http_error 500 (Error_text e)"
    and "changes (p_gen p) (bm_settled ref) ap ap'"
    by (auto simp: except_other_def Let_def)
  from this(2) show ?thesis by (rule changes_mono) (rule settled_raised [OF _ h])
qed

lemma except_remote_raises:
  assumes v: "valid_pending ap p ref" and q: "qm_ok (gen_qm ap (p_gen p))"
    and e: "except_remote clock p e ap = (ap', h)"
  shows "changes (p_gen p) (raised p ref h) ap ap'"
proof -
  let ?g = "p_gen p"
  let ?ap0 = "on_obs (log_remote_failure (p_id p) (Error_text e)) ap"
  obtain ap1 d where r: "rollback_pending clock p ?ap0 = (ap1, Inr d)" "changes ?g (bm_settled ref) ap ap1"
    using rollback_pending_settles [of ?ap0 p ref clock] v by auto
  define ap2 where "ap2 = (if d then on_obs (log_rollback_event (p_id p) (res_name ap1 p) (res_cost ?ap0 p) (Error_text e))
      (on_obs (log_reservation_rolled_back (p_id p) (res_name ap1 p) (Plain ''remote failure'') (res_cost ?ap0 p)) ap1)
      else ap1)"
  have g2: "ap_gens ap2 = ap_gens ap1" by (simp add: ap2_def)
  obtain c where c: "ap_gens ap1 = (ap_gens ap)[?g := c]" "bm_settled ref (ap_gens ap ! ?g) c"
    using r(2) by (auto simp: changes_def)
  have g: "?g < length (ap_gens ap)" using v by (simp add: valid_pending_def)
  then have at: "ap_gens ap2 ! ?g = c" using c g2 by simp
  have cq: "c_qm c = gen_qm ap ?g" using c(2) by (metis bm_settled_def components.simps(2) components.surjective components.update_convs(1))
  show ?thesis
  proof (cases "is_at_capacity (c_qm c)")
    case True
    have "ap' = ap2" "h = Http_error 503 (Prefixed ''Remote failed; local at capacity: '' e)"
      using e r(1) True at by (simp_all add: except_remote_def Let_def ap2_def [symmetric])
    moreover have "changes ?g (bm_settled ref) ap ap2"
      using r(2) by (simp add: changes_def g2)
    ultimately show ?thesis by (auto intro: changes_mono settled_raised)
  next
    case False
    with q cq obtain q' where q': "slot_enter (c_qm c) = Some (q', Inr ())"
      by (metis slot_enter_cases)
    have h: "ap' = upd_gen ?g (\<lambda>c. c\<lparr>c_qm := q'\<rparr>) ap2" "h = Awaiting_fallback p"
      using e r(1) False at q' by (simp_all add: except_remote_def Let_def ap2_def [symmetric])
    have "ap_gens ap' = (ap_gens ap)[?g := c\<lparr>c_qm := q'\<rparr>]"
      using at by (simp add: h g2 c(1))
    moreover have "raised p ref h (ap_gens ap ! ?g) (c\<lparr>c_qm := q'\<rparr>)"
      using c(2) q' cq by (cases "ap_gens ap ! ?g"; cases c) (auto simp: raised_def bm_settled_def settles_def h)
    ultimately show ?thesis by (auto simp: changes_def)
  qed
qed

lemma on_exception_raises:
  assumes v: "valid_pending ap p ref" and q: "qm_ok (gen_qm ap (p_gen p))"
    and x: "\<not> result_ok (Inl e) \<Longrightarrow> res_state (objects (gen_bm ap (p_gen p)) ! ref) \<noteq> Pending"
    and e: "on_exception clock p e ap = (ap', h)"
  shows "changes (p_gen p) (raised p ref h) ap ap'"
proof -
  have exceeded: "changes (p_gen p) (raised p ref h) ap ap'"
    if "except_exceeded p e ap = (ap', h)" "\<not> result_ok (Inl e)"
    using that x by (auto simp: except_exceeded_def changes_def raised_def intro!: exI [of _ "ap_gens ap ! p_gen p"])
  have cancelled: "changes (p_gen p) (raised p ref (Was_cancelled p)) ap ap"
    by (auto simp: changes_def raised_def intro!: exI [of _ "ap_gens ap ! p_gen p"])
  show ?thesis
    using e except_runtime_raises [OF v] except_other_raises [OF v] except_remote_raises [OF v q]
      exceeded cancelled
    by (cases e) (auto simp: on_exception_def result_ok_def)
qed

text \<open>Slots and the tracker.\<close>

lemma slot_exit_ok:
  "qm_ok q \<Longrightarrow> 0 < active_count q \<Longrightarrow>
     qm_ok (slot_exit q) \<and> active_count (slot_exit q) = active_count q - 1 \<and>
     max_concurrency (slot_exit q) = max_concurrency q"
  by (auto simp: slot_exit_def release_def qm_ok_def)

lemma slot_enter_ok:
  "qm_ok q \<Longrightarrow> slot_enter q = Some (q', Inr ()) \<Longrightarrow>
     qm_ok q' \<and> active_count q' = active_count q + 1 \<and> max_concurrency q' = max_concurrency q"
  by (cases rule: slot_enter_cases [of q]) (auto simp: is_at_capacity_def qm_ok_def)

definition lt_moves :: "tracker \<Rightarrow> tracker \<Rightarrow> bool" where
  "lt_moves lt lt' \<longleftrightarrow>
     lt' = lt \<or> (\<exists>key lat. 0 < lat \<and> is_float lat \<and> lt' = fst (record_latency key lat lt))"

fun is_final :: "handler \<Rightarrow> bool" where
  "is_final (Responded r) = True"
| "is_final (Http_error n t) = True"
| "is_final (Unhandled e) = True"
| "is_final _ = False"

fun in_slot :: "handler \<Rightarrow> bool" where
  "in_slot (Awaiting_local p) = True"
| "in_slot (Awaiting_fallback p) = True"
| "in_slot _ = False"

definition after_resume :: "pending \<Rightarrow> nat \<Rightarrow> handler \<Rightarrow> handler \<Rightarrow> components \<Rightarrow> components \<Rightarrow> bool" where
  "after_resume p ref h h' c c' \<longleftrightarrow>
     bm_reach (c_bm c) (c_bm c') \<and> length (objects (c_bm c')) = length (objects (c_bm c)) \<and>
     c_reaper c' = c_reaper c \<and> lt_moves (c_lt c) (c_lt c') \<and>
     qm_ok (c_qm c') \<and> max_concurrency (c_qm c') = max_concurrency (c_qm c) \<and>
     active_count (c_qm c') + of_bool (in_slot h) = active_count (c_qm c) + of_bool (in_slot h') \<and>
     (h' = Was_cancelled p \<or>
      (h' = Awaiting_fallback p \<or> is_final h') \<and> res_state (objects (c_bm c') ! ref) \<noteq> Pending)"

lemma changes_comp:
  assumes "changes g R ap ap1" "changes g S ap1 ap2" "g < length (ap_gens ap)"
    and "\<And>c1 c2. R (ap_gens ap ! g) c1 \<Longrightarrow> S c1 c2 \<Longrightarrow> T (ap_gens ap ! g) c2"
  shows "changes g T ap ap2"
  using assms by (auto simp: changes_def)

definition lt_recorded :: "components \<Rightarrow> components \<Rightarrow> bool" where
  "lt_recorded c c' \<longleftrightarrow> c' = c\<lparr>c_lt := c_lt c'\<rparr> \<and> lt_moves (c_lt c) (c_lt c')"

lemma finish_changes:
  assumes "finish_request p r cost res outcome ap = (ap', h)" and "p_gen p < length (ap_gens ap)"
    and "0 < br_actual_latency_ms res" "is_float (br_actual_latency_ms res)"
  shows "is_final h \<and> changes (p_gen p) lt_recorded ap ap'"
proof -
  let ?key = "if r = REMOTE then BACKEND_REMOTE else BACKEND_LOCAL"
  let ?lt = "fst (record_latency ?key (br_actual_latency_ms res) (gen_lt ap (p_gen p)))"
  have "is_final h" "ap_gens ap' = (ap_gens ap)[p_gen p := (ap_gens ap ! p_gen p)\<lparr>c_lt := ?lt\<rparr>]"
    using assms(1) by (auto simp: finish_request_def Let_def split: prod.splits sum.splits)
  moreover have "lt_recorded (ap_gens ap ! p_gen p) ((ap_gens ap ! p_gen p)\<lparr>c_lt := ?lt\<rparr>)"
    using assms(3,4) by (auto simp: lt_recorded_def lt_moves_def)
  ultimately show ?thesis by (auto simp: changes_def)
qed

lemma leave_slot_changes:
  "changes g (\<lambda>c c'. c' = c\<lparr>c_qm := slot_exit (c_qm c)\<rparr>) ap (leave_slot g ap)"
  by (auto simp: changes_def leave_slot_def)

lemma valid_leave_slot [simp]: "valid_pending (leave_slot g ap) p ref = valid_pending ap p ref"
  by (cases "g = p_gen p") (auto simp: valid_pending_def leave_slot_def)

lemma leave_slot_bm [simp]: "gen_bm (leave_slot g ap) i = gen_bm ap i"
  by (cases "g = i"; cases "i < length (ap_gens ap)") (auto simp: leave_slot_def list_update_beyond not_less)

lemma leave_slot_qm: "g < length (ap_gens ap) \<Longrightarrow> gen_qm (leave_slot g ap) g = slot_exit (gen_qm ap g)"
  by (simp add: leave_slot_def)

lemma settled_valid:
  assumes "changes (p_gen p) (bm_settled ref) ap ap'" "valid_pending ap p ref"
  shows "valid_pending ap' p ref" "gen_qm ap' (p_gen p) = gen_qm ap (p_gen p)"
    "res_state (objects (gen_bm ap' (p_gen p)) ! ref) \<noteq> Pending"
proof -
  let ?g = "p_gen p"
  obtain c where c: "ap_gens ap' = (ap_gens ap)[?g := c]" "bm_settled ref (ap_gens ap ! ?g) c"
    using assms(1) by (auto simp: changes_def)
  have g: "?g < length (ap_gens ap)" using assms(2) by (simp add: valid_pending_def)
  have s: "settles ref (gen_bm ap ?g) (c_bm c)" "c_qm c = gen_qm ap ?g"
    using c(2) by (cases c; cases "ap_gens ap ! ?g"; simp add: bm_settled_def)+
  show "valid_pending ap' p ref" "gen_qm ap' ?g = gen_qm ap ?g"
    "res_state (objects (gen_bm ap' ?g) ! ref) \<noteq> Pending"
    using c g s assms(2) by (auto simp: valid_pending_def settles_def intro: bm_reach_wf)
qed

lemma raised_after_remote:
  "raised p ref h c c' \<Longrightarrow> qm_ok (c_qm c) \<Longrightarrow> after_resume p ref (Awaiting_remote p') h c c'"
  by (cases c; cases c'; cases h)
     (auto simp: raised_def after_resume_def lt_moves_def dest: slot_enter_ok)

lemma raised_after_local:
  "raised p ref h c1 c' \<Longrightarrow> c1 = c\<lparr>c_qm := slot_exit (c_qm c)\<rparr> \<Longrightarrow> qm_ok (c_qm c) \<Longrightarrow> 0 < active_count (c_qm c) \<Longrightarrow>
     after_resume p ref (Awaiting_local p') h c c'"
  using slot_exit_ok [of "c_qm c"]
  by (cases c; cases c'; cases h)
     (auto simp: raised_def after_resume_def lt_moves_def dest: slot_enter_ok)

lemma settled_qm: "bm_settled ref c c1 \<Longrightarrow> c_qm c1 = c_qm c"
  by (cases c; cases c1) (simp add: bm_settled_def)

lemma settled_then_resume:
  "bm_settled ref c c1 \<Longrightarrow> after_resume p ref h h' c1 c' \<Longrightarrow> after_resume p ref h h' c c'"
  by (cases c; cases c1)
     (auto simp: bm_settled_def settles_def after_resume_def intro: bm_reach_trans)

lemma recorded_after_remote:
  "bm_settled ref c c1 \<Longrightarrow> lt_recorded c1 c' \<Longrightarrow> is_final h \<Longrightarrow> qm_ok (c_qm c) \<Longrightarrow>
     after_resume p ref (Awaiting_remote p') h c c'"
  by (cases c; cases c1; cases c'; cases h)
     (auto simp: bm_settled_def settles_def after_resume_def lt_recorded_def)

lemma recorded_after_slot:
  "bm_settled ref c c1 \<Longrightarrow> lt_recorded (c1\<lparr>c_qm := slot_exit (c_qm c1)\<rparr>) c' \<Longrightarrow> is_final h \<Longrightarrow> qm_ok (c_qm c) \<Longrightarrow>
     0 < active_count (c_qm c) \<Longrightarrow> after_resume p ref (Awaiting_local p') h c c'"
  using slot_exit_ok [of "c_qm c"]
  by (cases c; cases c1; cases c'; cases h)
     (auto simp: bm_settled_def settles_def after_resume_def lt_recorded_def)

text \<open>A resumed request that was awaiting the remote backend.\<close>

lemma resume_remote_changes:
  assumes v: "valid_pending ap p ref" and q: "qm_ok (gen_qm ap (p_gen p))" and out: "result_ok out"
    and e: "resume_remote clock p out ap = (ap', h)"
  shows "changes (p_gen p) (after_resume p ref (Awaiting_remote p) h) ap ap'"
proof (cases out)
  case (Inl x)
  then have "changes (p_gen p) (raised p ref h) ap ap'"
    using on_exception_raises [OF v q, of x clock ap' h] out e by (simp add: resume_remote_def)
  then show ?thesis using q raised_after_remote by (auto simp: changes_def)
next
  case (Inr res)
  then have res: "0 \<le> br_actual_cost res" "0 \<le> br_actual_latency_ms res" "0 < br_actual_latency_ms res"
    "is_float (br_actual_latency_ms res)" using out by (auto simp: result_ok_def)
  obtain ap1 r where s: "settle_request clock p (br_actual_cost res) (br_actual_latency_ms res) ap = (ap1, r)"
    by (rule prod.exhaust)
  note st = conjunct1 [OF settle_request_settles [OF v res(1,2) s]]
  note v1 = settled_valid [OF st v]
  have g: "p_gen p < length (ap_gens ap)" "p_gen p < length (ap_gens ap1)"
    using v v1(1) by (simp_all add: valid_pending_def)
  show ?thesis
  proof (cases r)
    case (Inl x)
    have "changes (p_gen p) (raised p ref h) ap1 ap'"
      using on_exception_raises [OF v1(1), of x clock ap' h] q v1(2,3) e s \<open>out = Inr res\<close> Inl
      by (simp add: resume_remote_def)
    with st show ?thesis
    proof (rule changes_comp [OF _ _ g(1)])
      fix c1 c2
      assume c: "bm_settled ref (ap_gens ap ! p_gen p) c1" "raised p ref h c1 c2"
      have "qm_ok (c_qm c1)" using settled_qm [OF c(1)] q by simp
      then show "after_resume p ref (Awaiting_remote p) h (ap_gens ap ! p_gen p) c2"
        by (rule settled_then_resume [OF c(1) raised_after_remote [OF c(2)]])
    qed
  next
    case (Inr u)
    then have "finish_request p REMOTE (br_actual_cost res) res ''committed'' ap1 = (ap', h)"
      using e s \<open>out = Inr res\<close> by (simp add: resume_remote_def)
    note f = finish_changes [OF this g(2) res(3,4)]
    show ?thesis
      by (rule changes_comp [OF st conjunct2 [OF f] g(1)]) (rule recorded_after_remote [OF _ _ conjunct1 [OF f] q])
  qed
qed

text \<open>A resumed request that was holding a local slot.\<close>

lemma resume_local_changes:
  assumes v: "valid_pending ap p ref" and q: "qm_ok (gen_qm ap (p_gen p))" and out: "result_ok out"
    and a: "0 < active_count (gen_qm ap (p_gen p))"
    and e: "resume_local clock p out ap = (ap', h)"
  shows "changes (p_gen p) (after_resume p ref (Awaiting_local p) h) ap ap'"
proof (cases out)
  case (Inl x)
  let ?ap = "leave_slot (p_gen p) ap"
  have g: "p_gen p < length (ap_gens ap)" using v by (simp add: valid_pending_def)
  have "qm_ok (gen_qm ?ap (p_gen p))" using slot_exit_ok [OF q a] g by (simp add: leave_slot_qm)
  then have "changes (p_gen p) (raised p ref h) ?ap ap'"
    using on_exception_raises [of ?ap p ref x clock ap' h] v out e Inl by (simp add: resume_local_def)
  with leave_slot_changes show ?thesis
    by (rule changes_comp [OF _ _ g]) (rule raised_after_local [OF _ _ q a])
next
  case (Inr res)
  then have res: "0 \<le> br_actual_latency_ms res" "0 < br_actual_latency_ms res" "is_float (br_actual_latency_ms res)"
    using out by (auto simp: result_ok_def)
  obtain ap1 r where s: "settle_request clock p 0 (br_actual_latency_ms res) ap = (ap1, r)"
    by (rule prod.exhaust)
  note st = conjunct1 [OF settle_request_settles [OF v order_refl res(1) s]]
  note v1 = settled_valid [OF st v]
  let ?ap1 = "leave_slot (p_gen p) ap1"
  have g: "p_gen p < length (ap_gens ap)" "p_gen p < length (ap_gens ap1)" "p_gen p < length (ap_gens ?ap1)"
    using v v1(1) by (simp_all add: valid_pending_def leave_slot_def)
  have q1: "qm_ok (gen_qm ap1 (p_gen p))" "0 < active_count (gen_qm ap1 (p_gen p))" using q a v1(2) by simp_all
  have left: "changes (p_gen p) (\<lambda>c c'. \<exists>c1. bm_settled ref c c1 \<and> c' = c1\<lparr>c_qm := slot_exit (c_qm c1)\<rparr>) ap ?ap1"
    using st leave_slot_changes by (rule changes_comp [OF _ _ g(1)]) blast
  show ?thesis
  proof (cases r)
    case (Inl x)
    have "qm_ok (gen_qm ?ap1 (p_gen p))" using slot_exit_ok [OF q1] g by (simp add: leave_slot_qm)
    then have "changes (p_gen p) (raised p ref h) ?ap1 ap'"
      using on_exception_raises [of ?ap1 p ref x clock ap' h] v1 e s \<open>out = Inr res\<close> Inl
      by (simp add: resume_local_def)
    with left show ?thesis
    proof (rule changes_comp [OF _ _ g(1)])
      fix c2 c3
      assume "\<exists>c1. bm_settled ref (ap_gens ap ! p_gen p) c1 \<and> c2 = c1\<lparr>c_qm := slot_exit (c_qm c1)\<rparr>"
        and r: "raised p ref h c2 c3"
      then obtain c1 where c1: "bm_settled ref (ap_gens ap ! p_gen p) c1" "c2 = c1\<lparr>c_qm := slot_exit (c_qm c1)\<rparr>"
        by blast
      have "qm_ok (c_qm c1)" "0 < active_count (c_qm c1)" using settled_qm [OF c1(1)] q a by simp_all
      then show "after_resume p ref (Awaiting_local p) h (ap_gens ap ! p_gen p) c3"
        by (rule settled_then_resume [OF c1(1) raised_after_local [OF r c1(2)]])
    qed
  next
    case (Inr u)
    then have "finish_request p (rd_route (p_dec p)) (br_actual_cost res) res ''committed'' ?ap1 = (ap', h)"
      using e s \<open>out = Inr res\<close> by (simp add: resume_local_def)
    note f = finish_changes [OF this g(3) res(2,3)]
    show ?thesis
      by (rule changes_comp [OF left conjunct2 [OF f] g(1)])
         (use q a conjunct1 [OF f] recorded_after_slot in blast)
  qed
qed

lemma resume_fallback_changes:
  assumes v: "valid_pending ap p ref" and q: "qm_ok (gen_qm ap (p_gen p))" and out: "result_ok out"
    and a: "0 < active_count (gen_qm ap (p_gen p))"
    and n: "res_state (objects (gen_bm ap (p_gen p)) ! ref) \<noteq> Pending"
    and e: "resume_fallback p out ap = (ap', h)"
  shows "changes (p_gen p) (after_resume p ref (Awaiting_fallback p) h) ap ap'"
proof -
  let ?c = "ap_gens ap ! p_gen p" and ?ap = "leave_slot (p_gen p) ap"
  have g: "p_gen p < length (ap_gens ap)" "p_gen p < length (ap_gens ?ap)"
    using v by (simp_all add: valid_pending_def leave_slot_def)
  note x = slot_exit_ok [OF q a]
  show ?thesis
  proof (cases out)
    case (Inl y)
    have "(ap', h) \<in> {?ap} \<times> {h. h = Was_cancelled p \<or> is_final h}"
      unfolding e [symmetric] resume_fallback_def Inl by (cases y) simp_all
    then have "ap' = ?ap" "h = Was_cancelled p \<or> is_final h" by simp_all
    moreover have "after_resume p ref (Awaiting_fallback p) h ?c (?c\<lparr>c_qm := slot_exit (c_qm ?c)\<rparr>)"
      using x n \<open>h = Was_cancelled p \<or> is_final h\<close>
      by (cases h) (auto simp: after_resume_def lt_moves_def)
    ultimately show ?thesis by (auto simp: changes_def leave_slot_def)
  next
    case (Inr res)
    then have "finish_request p QUEUE_LOCAL 0 res ''fallback_local'' ?ap = (ap', h)"
      using e by (simp add: resume_fallback_def)
    moreover have "0 < br_actual_latency_ms res" "is_float (br_actual_latency_ms res)"
      using out Inr by (auto simp: result_ok_def)
    ultimately have f: "is_final h" "changes (p_gen p) lt_recorded ?ap ap'"
      using finish_changes g(2) by blast+
    from leave_slot_changes f(2) show ?thesis
    proof (rule changes_comp [OF _ _ g(1)])
      fix c1 c2
      assume "c1 = ?c\<lparr>c_qm := slot_exit (c_qm ?c)\<rparr>" "lt_recorded c1 c2"
      with x n f(1) show "after_resume p ref (Awaiting_fallback p) h ?c c2"
        by (cases ?c; cases c2; cases h) (auto simp: after_resume_def lt_recorded_def)
    qed
  qed
qed

end
