(* ===== verification/System_Invariant.thy ===== *)
theory System_Invariant
  imports System
begin

text \<open>
  The invariant of the service and the properties that span its components: slots are
  accounted for, no reservation is lost, every manager is driven only by clean operations, and
  every request comes to an end.
\<close>

section \<open>The invariant\<close>

definition lt_ok :: "config \<Rightarrow> tracker \<Rightarrow> bool" where
  "lt_ok cfg lt \<longleftrightarrow>
     (\<exists>h. matches cfg (EMA_ALPHA cfg) (LATENCY_WINDOW_SIZE cfg) h lt \<and>
          (\<forall>b. \<forall>x \<in> set (h b). 0 < x \<and> is_float x))"

definition gen_ok :: "config \<Rightarrow> components \<Rightarrow> bool" where
  "gen_ok cfg c \<longleftrightarrow>
     (\<exists>b0. init_bm (MAX_REMOTE_BUDGET cfg) (MAX_CUMULATIVE_LATENCY_MS cfg) (RESERVATION_TTL_SECONDS cfg) = Inr b0 \<and>
           bm_reach b0 (c_bm c)) \<and>
     qm_ok (c_qm c) \<and> max_concurrency (c_qm c) = LOCAL_QUEUE_CAPACITY cfg \<and> lt_ok cfg (c_lt c)"

lemma gen_ok_reaper [simp]: "gen_ok cfg (start_reaper c) = gen_ok cfg c"
  by (simp add: gen_ok_def)

text \<open>Which handlers hold a slot of generation \<open>g\<close>, and which may hold a pending reservation.\<close>

fun holds :: "nat \<Rightarrow> handler \<Rightarrow> bool" where
  "holds g (Awaiting_local p) = (p_gen p = g)"
| "holds g (Awaiting_fallback p) = (p_gen p = g)"
| "holds g _ = False"

fun owns :: "nat \<Rightarrow> nat \<Rightarrow> handler \<Rightarrow> bool" where
  "owns g ref (Awaiting_remote p) = (p_gen p = g \<and> rd_reservation (p_dec p) = Some ref)"
| "owns g ref (Awaiting_local p) = (p_gen p = g \<and> rd_reservation (p_dec p) = Some ref)"
| "owns g ref (Was_cancelled p) = (p_gen p = g \<and> rd_reservation (p_dec p) = Some ref)"
| "owns g ref _ = False"

fun handler_ok :: "app \<Rightarrow> handler \<Rightarrow> bool" where
  "handler_ok ap (Awaiting_remote p) = (\<exists>ref. valid_pending ap p ref)"
| "handler_ok ap (Awaiting_local p) = (\<exists>ref. valid_pending ap p ref)"
| "handler_ok ap (Awaiting_fallback p) =
     (\<exists>ref. valid_pending ap p ref \<and> res_state (objects (gen_bm ap (p_gen p)) ! ref) \<noteq> Pending)"
| "handler_ok ap (Suspended_on_slot p) = False"
| "handler_ok ap _ = True"

definition slots_ok :: "app \<Rightarrow> handler list \<Rightarrow> bool" where
  "slots_ok ap hs \<longleftrightarrow>
     (\<forall>g < length (ap_gens ap). active_count (gen_qm ap g) = int (length (filter (holds g) hs)))"

definition owned_ok :: "app \<Rightarrow> handler list \<Rightarrow> bool" where
  "owned_ok ap hs \<longleftrightarrow>
     (\<forall>g < length (ap_gens ap). \<forall>ref < length (objects (gen_bm ap g)).
        res_state (objects (gen_bm ap g) ! ref) = Pending \<longrightarrow> (\<exists>h \<in> set hs. owns g ref h))"

definition sys_inv :: "config \<Rightarrow> system \<Rightarrow> bool" where
  "sys_inv cfg sy \<longleftrightarrow>
     (let ap = sy_app sy; hs = sy_handlers sy in
      ap_gens ap \<noteq> [] \<and> (\<forall>c \<in> set (ap_gens ap). gen_ok cfg c) \<and> (\<forall>h \<in> set hs. handler_ok ap h) \<and>
      slots_ok ap hs \<and> owned_ok ap hs \<and>
      (\<forall>g < length (ap_gens ap). length (objects (gen_bm ap g)) \<le> length hs))"

lemma sys_invI:
  assumes "ap_gens ap \<noteq> []" "\<And>c. c \<in> set (ap_gens ap) \<Longrightarrow> gen_ok cfg c" "\<And>h. h \<in> set hs \<Longrightarrow> handler_ok ap h"
    and "slots_ok ap hs" "owned_ok ap hs" "\<And>g. g < length (ap_gens ap) \<Longrightarrow> length (objects (gen_bm ap g)) \<le> length hs"
  shows "sys_inv cfg \<lparr> sy_app = ap, sy_handlers = hs \<rparr>"
  using assms by (simp add: sys_inv_def Let_def)

lemma sys_invD:
  assumes "sys_inv cfg \<lparr> sy_app = ap, sy_handlers = hs \<rparr>"
  shows "ap_gens ap \<noteq> []" "c \<in> set (ap_gens ap) \<Longrightarrow> gen_ok cfg c" "h \<in> set hs \<Longrightarrow> handler_ok ap h"
    and "slots_ok ap hs" "owned_ok ap hs" "g < length (ap_gens ap) \<Longrightarrow> length (objects (gen_bm ap g)) \<le> length hs"
    and "g < length (ap_gens ap) \<Longrightarrow> gen_ok cfg (ap_gens ap ! g)"
  using assms by (auto simp: sys_inv_def Let_def)

section \<open>Trackers\<close>

lemma lt_ok_moves: "lt_ok cfg lt \<Longrightarrow> lt_moves lt lt' \<Longrightarrow> lt_ok cfg lt'"
proof -
  assume ok: "lt_ok cfg lt" and m: "lt_moves lt lt'"
  show ?thesis
  proof (cases "lt' = lt")
    case False
    with m obtain key lat where k: "0 < lat" "is_float lat" "lt' = fst (record_latency key lat lt)"
      by (auto simp: lt_moves_def)
    obtain h where h: "matches cfg (EMA_ALPHA cfg) (LATENCY_WINDOW_SIZE cfg) h lt"
        "\<forall>b. \<forall>x \<in> set (h b). 0 < x \<and> is_float x" using ok by (auto simp: lt_ok_def)
    have "matches cfg (EMA_ALPHA cfg) (LATENCY_WINDOW_SIZE cfg) (h(key := h key @ [lat])) lt'"
      using matches_record [OF h(1), of key lat] k(3) by simp
    moreover have "\<forall>b. \<forall>x \<in> set ((h(key := h key @ [lat])) b). 0 < x \<and> is_float x"
      using h(2) k by auto
    ultimately show ?thesis unfolding lt_ok_def by blast
  qed (use ok in simp)
qed

lemma ema_of_float: "is_float seed \<Longrightarrow> is_float (ema_of alpha seed xs)"
  by (cases xs rule: rev_cases) (auto simp: ema_of_def ema_update_def)

lemma foldr_max_float: "\<forall>x \<in> set xs. is_float x \<Longrightarrow> is_float e \<Longrightarrow> is_float (foldr max xs e)"
  by (induction xs) (auto simp: max_def)

lemma lt_ok_estimates:
  assumes "config_ok cfg" "lt_ok cfg lt" "b = BACKEND_LOCAL \<or> b = BACKEND_REMOTE"
  shows "0 < get_estimate lt b \<and> is_float (get_estimate lt b)"
proof -
  obtain h where h: "matches cfg (EMA_ALPHA cfg) (LATENCY_WINDOW_SIZE cfg) h lt"
      "\<forall>b. \<forall>x \<in> set (h b). 0 < x \<and> is_float x" using assms(2) by (auto simp: lt_ok_def)
  have seed: "0 < seed_of cfg b" "is_float (seed_of cfg b)"
    using assms(1) by (auto simp: config_ok_def seed_of_def)
  have c: "0 < LATENCY_WINDOW_SIZE cfg" "0 \<le> EMA_ALPHA cfg" "EMA_ALPHA cfg \<le> 1"
    using assms(1) by (simp_all add: config_ok_def)
  have "0 < estimate_of (EMA_ALPHA cfg) (LATENCY_WINDOW_SIZE cfg) (seed_of cfg b) (h b)"
    using seed h(2) by (intro estimate_of_pos c) auto
  moreover have "\<forall>x \<in> set (take_last (LATENCY_WINDOW_SIZE cfg) (h b)). is_float x"
    using h(2) set_take_last [of "LATENCY_WINDOW_SIZE cfg" "h b"] by auto
  then have "is_float (estimate_of (EMA_ALPHA cfg) (LATENCY_WINDOW_SIZE cfg) (seed_of cfg b) (h b))"
    unfolding estimate_of_def by (rule foldr_max_float [OF _ ema_of_float [OF seed(2)]])
  ultimately show ?thesis using estimate_matches(1) [OF h(1) assms(3)] by simp
qed

lemma gen_ok_sane: "config_ok cfg \<Longrightarrow> gen_ok cfg c \<Longrightarrow> sane cfg (c_qm c) (c_lt c)"
  using lt_ok_estimates [of cfg "c_lt c"]
  by (intro sane_tracker) (auto simp: config_ok_def gen_ok_def)

lemma gen_ok_wf: "gen_ok cfg c \<Longrightarrow> bm_wf (c_bm c)"
  using bm_reach_wf bm_wf_init by (auto simp: gen_ok_def)

lemma init_values:
  "init_qm n = Inr q \<Longrightarrow> max_concurrency q = n \<and> active_count q = 0"
  "init_bm mb ml ttl = Inr b \<Longrightarrow> objects b = []"
  by (auto simp: init_qm_def init_bm_def split: if_splits)

lemma new_components_ok:
  assumes "config_ok cfg" "new_components cfg = Inr c"
  shows "gen_ok cfg c \<and> active_count (c_qm c) = 0 \<and> objects (c_bm c) = []"
proof -
  have "lt_ok cfg (init_tracker cfg (EMA_ALPHA cfg) (LATENCY_WINDOW_SIZE cfg))"
    unfolding lt_ok_def by (rule exI [of _ "\<lambda>_. []"]) (simp add: matches_init)
  moreover have "init_bm (MAX_REMOTE_BUDGET cfg) (MAX_CUMULATIVE_LATENCY_MS cfg) (RESERVATION_TTL_SECONDS cfg) = Inr (c_bm c)"
    "init_qm (LOCAL_QUEUE_CAPACITY cfg) = Inr (c_qm c)"
    "c_lt c = init_tracker cfg (EMA_ALPHA cfg) (LATENCY_WINDOW_SIZE cfg)"
    using assms(2) by (auto simp: new_components_def split: sum.splits)
  moreover from this(2) have "qm_ok (c_qm c)" by (rule qm_ok_init)
  ultimately show ?thesis
    using init_values by (fastforce simp: gen_ok_def)
qed

section \<open>Growing applications\<close>

text \<open>What never happens to a generation: losing objects, or a settled object becoming pending.\<close>

definition grows :: "app \<Rightarrow> app \<Rightarrow> bool" where
  "grows ap ap' \<longleftrightarrow>
     length (ap_gens ap) \<le> length (ap_gens ap') \<and>
     (\<forall>g < length (ap_gens ap). bm_reach (gen_bm ap g) (gen_bm ap' g))"

lemma handler_ok_grows:
  assumes "handler_ok ap h" "grows ap ap'"
  shows "handler_ok ap' h"
proof -
  have v: "valid_pending ap' p ref \<and>
      (res_state (objects (gen_bm ap (p_gen p)) ! ref) \<noteq> Pending \<longrightarrow>
       res_state (objects (gen_bm ap' (p_gen p)) ! ref) \<noteq> Pending)"
    if v: "valid_pending ap p ref" for p ref
  proof -
    have g: "p_gen p < length (ap_gens ap)" and w: "bm_wf (gen_bm ap (p_gen p))"
      and r: "ref < length (objects (gen_bm ap (p_gen p)))"
      using v by (simp_all add: valid_pending_def)
    have b: "bm_reach (gen_bm ap (p_gen p)) (gen_bm ap' (p_gen p))" using assms(2) g by (simp add: grows_def)
    note ev = bm_reach_evolves [OF b w]
    have "length (objects (gen_bm ap (p_gen p))) \<le> length (objects (gen_bm ap' (p_gen p)))"
      using ev by (simp add: evolves_def)
    then show ?thesis
      using v bm_reach_wf [OF b w] assms(2) evolves_settled [OF ev r] by (auto simp: valid_pending_def grows_def)
  qed
  from assms(1) show ?thesis by (cases h; simp; use v in blast)
qed

lemma pending_before:
  assumes "bm_reach b b'" "bm_wf b" "ref < length (objects b)" "res_state (objects b' ! ref) = Pending"
  shows "res_state (objects b ! ref) = Pending"
  using evolves_settled [OF bm_reach_evolves [OF assms(1,2)] assms(3)] assms(4) by blast

lemma length_filter_update:
  "i < length xs \<Longrightarrow>
     int (length (filter P (xs[i := x]))) = int (length (filter P xs)) - of_bool (P (xs ! i)) + of_bool (P x)"
proof (induction xs arbitrary: i)
  case (Cons y ys)
  then show ?case by (cases i) auto
qed simp

section \<open>Each event keeps the invariant\<close>

fun pending_of :: "handler \<Rightarrow> pending option" where
  "pending_of (Awaiting_remote p) = Some p"
| "pending_of (Awaiting_local p) = Some p"
| "pending_of (Awaiting_fallback p) = Some p"
| "pending_of _ = None"

lemma holds_pending: "pending_of h = Some p \<Longrightarrow> holds g h = (in_slot h \<and> p_gen p = g)"
  by (cases h) auto

lemma owns_pending: "pending_of h = Some p \<Longrightarrow> owns g ref h \<Longrightarrow> p_gen p = g \<and> rd_reservation (p_dec p) = Some ref"
  by (cases h) auto

lemma inv_resume:
  assumes inv: "sys_inv cfg \<lparr> sy_app = ap, sy_handlers = hs \<rparr>" and i: "i < length hs"
    and h: "pending_of (hs ! i) = Some p" and v: "valid_pending ap p ref"
    and ch: "changes (p_gen p) (after_resume p ref (hs ! i) h') ap ap'"
  shows "sys_inv cfg \<lparr> sy_app = ap', sy_handlers = hs[i := h'] \<rparr>"
proof -
  let ?g = "p_gen p"
  obtain c where c: "ap_gens ap' = (ap_gens ap)[?g := c]" "after_resume p ref (hs ! i) h' (ap_gens ap ! ?g) c"
    using ch by (auto simp: changes_def)
  have g: "?g < length (ap_gens ap)" and rd: "rd_reservation (p_dec p) = Some ref" and ref: "ref < length (objects (gen_bm ap ?g))"
    using v by (simp_all add: valid_pending_def)
  have ok: "gen_ok cfg (ap_gens ap ! ?g)" using sys_invD(7) [OF inv g] .
  have r: "bm_reach (gen_bm ap ?g) (c_bm c)" "length (objects (c_bm c)) = length (objects (gen_bm ap ?g))"
    "lt_moves (gen_lt ap ?g) (c_lt c)" "qm_ok (c_qm c)" "max_concurrency (c_qm c) = max_concurrency (gen_qm ap ?g)"
    "active_count (c_qm c) + of_bool (in_slot (hs ! i)) = active_count (gen_qm ap ?g) + of_bool (in_slot h')"
    "h' = Was_cancelled p \<or> (h' = Awaiting_fallback p \<or> is_final h') \<and> res_state (objects (c_bm c) ! ref) \<noteq> Pending"
    using c(2) by (simp_all add: after_resume_def)
  have at: "ap_gens ap' ! j = (if j = ?g then c else ap_gens ap ! j)" if "j < length (ap_gens ap)" for j
    using that by (simp add: c(1))
  have len: "length (ap_gens ap') = length (ap_gens ap)" by (simp add: c(1))
  have grow: "grows ap ap'" unfolding grows_def using at r(1) len by auto
  have cok: "gen_ok cfg c"
    using ok r(1,3-5) lt_ok_moves bm_reach_trans by (auto simp: gen_ok_def)
  show ?thesis
  proof (rule sys_invI)
    show "ap_gens ap' \<noteq> []" using g len by auto
    show "gen_ok cfg x" if "x \<in> set (ap_gens ap')" for x
      using that cok sys_invD(2) [OF inv] set_update_subset_insert by (fastforce simp: c(1))
    have v': "valid_pending ap' p ref"
      using v r(1,2) g at len bm_reach_wf by (auto simp: valid_pending_def)
    have "handler_ok ap' h'" using r(7) v' at [OF g] by (cases h') auto
    moreover have "handler_ok ap' x" if "x \<in> set hs" for x
      using handler_ok_grows [OF sys_invD(3) [OF inv that] grow] .
    ultimately show "handler_ok ap' x" if "x \<in> set (hs[i := h'])" for x
      using that set_update_subset_insert by fastforce
    show "slots_ok ap' (hs[i := h'])"
      unfolding slots_ok_def
    proof (intro allI impI)
      fix j assume j: "j < length (ap_gens ap')"
      have hh: "holds j h' = (in_slot h' \<and> ?g = j)" using r(7) by (cases h') auto
      have "active_count (gen_qm ap j) = int (length (filter (holds j) hs))"
        using sys_invD(4) [OF inv] j len by (simp add: slots_ok_def)
      moreover have "active_count (gen_qm ap' j) =
          active_count (gen_qm ap j) - of_bool (holds j (hs ! i)) + of_bool (holds j h')"
        using r(6) at j len by (auto simp: hh holds_pending [OF h])
      ultimately show "active_count (gen_qm ap' j) = int (length (filter (holds j) (hs[i := h'])))"
        using length_filter_update [OF i, of "holds j" h'] by simp
    qed
    show "owned_ok ap' (hs[i := h'])"
      unfolding owned_ok_def
    proof (intro allI impI)
      fix j k
      assume j: "j < length (ap_gens ap')" and k: "k < length (objects (gen_bm ap' j))"
        and pend: "res_state (objects (gen_bm ap' j) ! k) = Pending"
      have k': "k < length (objects (gen_bm ap j))" using k r(2) at j len by (auto split: if_splits)
      have "res_state (objects (gen_bm ap j) ! k) = Pending"
        using pending_before [of "gen_bm ap j" "gen_bm ap' j" k] grow gen_ok_wf [OF sys_invD(7) [OF inv]] j k' len pend
        by (simp add: grows_def)
      then obtain x where x: "x \<in> set hs" "owns j k x"
        using sys_invD(5) [OF inv] j k' len by (auto simp: owned_ok_def)
      then obtain m where m: "m < length hs" "x = hs ! m" by (auto simp: in_set_conv_nth)
      show "\<exists>y \<in> set (hs[i := h']). owns j k y"
      proof (cases "m = i")
        case False
        then have "hs[i := h'] ! m = x" using m by simp
        then show ?thesis using m x by (metis length_list_update nth_mem)
      next
        case True
        then have eq: "j = ?g" "k = ref" using owns_pending [OF h] x m rd by auto
        then have "h' = Was_cancelled p" using r(7) pend at g by auto
        then have "owns j k h'" using eq rd by simp
        then show ?thesis using i by (metis set_update_memI)
      qed
    qed
    show "length (objects (gen_bm ap' j)) \<le> length (hs[i := h'])" if "j < length (ap_gens ap')" for j
      using that sys_invD(6) [OF inv, of j] r(2) at len by auto
  qed
qed

text \<open>The tier, and the request as the agent sees it.\<close>

definition tier_of :: "inference_request \<Rightarrow> complexity_tier" where
  "tier_of req = (case req_complexity_tier req of None \<Rightarrow> classify (prompt req) | Some t \<Rightarrow> t)"

definition pending_for :: "nat \<Rightarrow> inference_request \<Rightarrow> routing_decision \<Rightarrow> pending" where
  "pending_for g req d =
     \<lparr> p_gen = g, p_req = req\<lparr>req_complexity_tier := Some (tier_of req)\<rparr>, p_tier = tier_of req, p_dec = d \<rparr>"

definition started :: "nat \<Rightarrow> inference_request \<Rightarrow> routing_decision \<Rightarrow> bm \<Rightarrow> handler \<Rightarrow> components \<Rightarrow> components \<Rightarrow> bool" where
  "started g req d b h c c' \<longleftrightarrow>
     (case rd_route d of
        FAIL_FAST \<Rightarrow> c' = c \<and> h = Http_error 503 (Because (rd_reason d))
      | REMOTE \<Rightarrow> c' = c\<lparr>c_bm := b\<rparr> \<and> h = Awaiting_remote (pending_for g req d)
      | _ \<Rightarrow> (\<exists>q. slot_enter (c_qm c) = Some (q, Inr ()) \<and> c' = c\<lparr>c_bm := b, c_qm := q\<rparr> \<and>
                  h = Awaiting_local (pending_for g req d)))"

lemma case_obs_gens [simp]:
  "ap_gens (case x of None \<Rightarrow> ap | Some r \<Rightarrow> on_obs (f r) ap) = ap_gens ap"
  by (cases x) simp_all

lemma start_request_effect:
  assumes cfg: "config_ok cfg" and ne: "ap_gens ap \<noteq> []" and ok: "gen_ok cfg (ap_gens ap ! current ap)"
    and e: "start_request cfg clock now uuid req ap = (ap', h)"
  shows "\<exists>d b. backed cfg now uuid (gen_qm ap (current ap)) (gen_lt ap (current ap)) (latency_budget_ms req)
                 (gen_bm ap (current ap)) b d \<and>
               changes (current ap) (started (current ap) req d b h) ap ap' \<and>
               (\<exists>calls. route cfg now uuid (gen_qm ap (current ap)) (gen_lt ap (current ap))
                   (req\<lparr>req_complexity_tier := Some (tier_of req)\<rparr>) (gen_bm ap (current ap)) = (b, Inr d, calls))"
proof -
  let ?g = "current ap" and ?req = "req\<lparr>req_complexity_tier := Some (tier_of req)\<rparr>"
  let ?c = "ap_gens ap ! ?g"
  have g: "?g < length (ap_gens ap)" using ne by (simp add: current_def)
  note sane = gen_ok_sane [OF cfg ok]
  obtain b r calls where rt: "route cfg now uuid (c_qm ?c) (c_lt ?c) ?req (c_bm ?c) = (b, r, calls)"
    by (rule prod_cases3)
  obtain d where r: "r = Inr d" using routeE [OF sane rt] by blast
  note d = rt [unfolded r]
  have bk: "backed cfg now uuid (c_qm ?c) (c_lt ?c) (latency_budget_ms req) (c_bm ?c) b d"
    using routeD(1) [OF sane d] by simp
  define ap1 where "ap1 = fst (on_bm clock ?g (route cfg now uuid (c_qm ?c) (c_lt ?c) ?req)
      (on_obs (log_request_received (request_id req) (latency_budget_ms req) (tier_of req)) ap))"
  have ap1: "ap_gens ap1 = (ap_gens ap)[?g := ?c\<lparr>c_bm := b\<rparr>]"
    using d by (simp add: ap1_def on_bm_def)
  have bm: "on_bm clock ?g (route cfg now uuid (c_qm ?c) (c_lt ?c) ?req)
      (on_obs (log_request_received (request_id req) (latency_budget_ms req) (tier_of req)) ap) = (ap1, Inr d)"
    using d by (simp add: ap1_def on_bm_def)
  have st: "(ap', h) = start_request cfg clock now uuid req ap" using e ..
  show ?thesis
  proof (cases "rd_route d")
    case FAIL_FAST
    then have "c_bm ?c = b" using bk by (simp add: backed_def)
    then have "?c\<lparr>c_bm := b\<rparr> = ?c" by (cases ?c) simp
    with st FAIL_FAST bm ap1 have "ap_gens ap' = (ap_gens ap)[?g := ?c]" "h = Http_error 503 (Because (rd_reason d))"
      by (simp_all add: start_request_def Let_def tier_of_def [symmetric])
    then have "changes ?g (started ?g req d b h) ap ap'" using FAIL_FAST by (auto simp: changes_def started_def)
    with bk d show ?thesis by blast
  next
    case REMOTE
    with st bm ap1 have "ap_gens ap' = (ap_gens ap)[?g := ?c\<lparr>c_bm := b\<rparr>]" "h = Awaiting_remote (pending_for ?g req d)"
      by (simp_all add: start_request_def Let_def tier_of_def [symmetric] pending_for_def)
    then have "changes ?g (started ?g req d b h) ap ap'" using REMOTE by (auto simp: changes_def started_def)
    with bk d show ?thesis by blast
  next
    case LOCAL
    then obtain q where q: "slot_enter (c_qm ?c) = Some (q, Inr ())"
      using backed_slot [OF bk] ok by (auto simp: gen_ok_def)
    with st bm ap1 LOCAL g have "ap_gens ap' = (ap_gens ap)[?g := ?c\<lparr>c_bm := b, c_qm := q\<rparr>]"
      "h = Awaiting_local (pending_for ?g req d)"
      by (simp_all add: start_request_def Let_def tier_of_def [symmetric] pending_for_def)
    then have "changes ?g (started ?g req d b h) ap ap'" using LOCAL q by (auto simp: changes_def started_def)
    with bk d show ?thesis by blast
  next
    case QUEUE_LOCAL
    then obtain q where q: "slot_enter (c_qm ?c) = Some (q, Inr ())"
      using backed_slot [OF bk] ok by (auto simp: gen_ok_def)
    with st bm ap1 QUEUE_LOCAL g have "ap_gens ap' = (ap_gens ap)[?g := ?c\<lparr>c_bm := b, c_qm := q\<rparr>]"
      "h = Awaiting_local (pending_for ?g req d)"
      by (simp_all add: start_request_def Let_def tier_of_def [symmetric] pending_for_def)
    then have "changes ?g (started ?g req d b h) ap ap'" using QUEUE_LOCAL q by (auto simp: changes_def started_def)
    with bk d show ?thesis by blast
  qed
qed

lemma backed_reach:
  assumes "sane cfg q lt" "backed cfg now uuid q lt sla b b' d" "uuid \<notin> res_id ` set (objects b)"
  shows "bm_reach b b'"
proof -
  let ?op = "Op_reserve now uuid ''r'' (fst (route_price cfg q lt (rd_route d))) (snd (route_price cfg q lt (rd_route d)))"
  have "clean_op b ?op" using assms(3) by (simp add: clean_op_def)
  from bm_reach_step [OF this] backed_step [OF assms(1,2), of "''r''"] show ?thesis
    by (elim disjE) (simp_all only: bm_reach_refl)
qed

lemma backed_objects:
  assumes "backed cfg now uuid q lt sla b b' d"
  shows "if rd_route d = FAIL_FAST then b' = b
         else rd_reservation d = Some (length (objects b)) \<and> length (objects b') = Suc (length (objects b))"
  using assms by (auto simp: backed_def with_reservation_def)

lemma inv_arrive:
  assumes cfg: "config_ok cfg" and inv: "sys_inv cfg \<lparr> sy_app = ap, sy_handlers = hs \<rparr>"
    and fresh: "uuid \<notin> res_id ` set (objects (gen_bm ap (current ap)))"
    and e: "start_request cfg clock now uuid req ap = (ap', h)"
  shows "sys_inv cfg \<lparr> sy_app = ap', sy_handlers = hs @ [h] \<rparr>"
proof -
  let ?g = "current ap"
  let ?c = "ap_gens ap ! ?g"
  have g: "?g < length (ap_gens ap)" using sys_invD(1) [OF inv] by (simp add: current_def)
  note ok = sys_invD(7) [OF inv g]
  obtain d b where bk: "backed cfg now uuid (c_qm ?c) (c_lt ?c) (latency_budget_ms req) (c_bm ?c) b d"
    and ch: "changes ?g (started ?g req d b h) ap ap'"
    using start_request_effect [OF cfg sys_invD(1) [OF inv] ok e] by blast
  obtain c where c: "ap_gens ap' = (ap_gens ap)[?g := c]" "started ?g req d b h ?c c"
    using ch by (auto simp: changes_def)
  have b: "bm_reach (c_bm ?c) b" by (rule backed_reach [OF gen_ok_sane [OF cfg ok] bk fresh])
  note ob = backed_objects [OF bk]
  have cb: "c_bm c = b" "c_lt c = c_lt ?c"
    using c(2) ob by (auto simp: started_def split: route_decision.splits)
  have cq: "qm_ok (c_qm c) \<and> max_concurrency (c_qm c) = max_concurrency (c_qm ?c) \<and>
      active_count (c_qm c) = active_count (c_qm ?c) + of_bool (holds ?g h)"
    using c(2) ok slot_enter_ok [of "c_qm ?c"]
    by (auto simp: started_def gen_ok_def pending_for_def split: route_decision.splits)
  have hold: "holds j h \<Longrightarrow> j = ?g" for j
    using c(2) by (auto simp: started_def pending_for_def split: route_decision.splits)
  have at: "ap_gens ap' ! j = (if j = ?g then c else ap_gens ap ! j)" if "j < length (ap_gens ap)" for j
    using that by (simp add: c(1))
  have len: "length (ap_gens ap') = length (ap_gens ap)" by (simp add: c(1))
  have grow: "grows ap ap'" unfolding grows_def using at b cb(1) len by auto
  have cok: "gen_ok cfg c"
    using ok b cb cq bm_reach_trans by (auto simp: gen_ok_def)
  have new: "owns ?g (length (objects (c_bm ?c))) h" if "rd_route d \<noteq> FAIL_FAST"
    using that c(2) ob by (auto simp: started_def pending_for_def split: route_decision.splits)
  show ?thesis
  proof (rule sys_invI)
    show "ap_gens ap' \<noteq> []" using g len by auto
    show "gen_ok cfg x" if "x \<in> set (ap_gens ap')" for x
      using that cok sys_invD(2) [OF inv] set_update_subset_insert by (fastforce simp: c(1))
    have "valid_pending ap' (pending_for ?g req d) (length (objects (c_bm ?c)))" if "rd_route d \<noteq> FAIL_FAST"
      using that ob g len at [OF g] cb(1) gen_ok_wf [OF cok] by (simp add: valid_pending_def pending_for_def)
    then have "handler_ok ap' h"
      using c(2) by (auto simp: started_def split: route_decision.splits)
    then show "handler_ok ap' x" if "x \<in> set (hs @ [h])" for x
      using that handler_ok_grows [OF sys_invD(3) [OF inv] grow] by auto
    show "slots_ok ap' (hs @ [h])"
      unfolding slots_ok_def
    proof (intro allI impI)
      fix j assume j: "j < length (ap_gens ap')"
      have "active_count (gen_qm ap j) = int (length (filter (holds j) hs))"
        using sys_invD(4) [OF inv] j len by (simp add: slots_ok_def)
      moreover have "active_count (gen_qm ap' j) = active_count (gen_qm ap j) + of_bool (holds j h)"
      proof (cases "j = ?g")
        case True
        then show ?thesis using at [OF g] cq by simp
      next
        case False
        then show ?thesis using at [of j] hold [of j] j len by auto
      qed
      ultimately show "active_count (gen_qm ap' j) = int (length (filter (holds j) (hs @ [h])))" by simp
    qed
    show "owned_ok ap' (hs @ [h])"
      unfolding owned_ok_def
    proof (intro allI impI)
      fix j k
      assume j: "j < length (ap_gens ap')" and k: "k < length (objects (gen_bm ap' j))"
        and pend: "res_state (objects (gen_bm ap' j) ! k) = Pending"
      show "\<exists>y \<in> set (hs @ [h]). owns j k y"
      proof (cases "k < length (objects (gen_bm ap j))")
        case True
        then have "res_state (objects (gen_bm ap j) ! k) = Pending"
          using pending_before [of "gen_bm ap j" "gen_bm ap' j" k] grow gen_ok_wf [OF sys_invD(7) [OF inv]] j len pend
          by (simp add: grows_def)
        then show ?thesis using sys_invD(5) [OF inv] j True len by (auto simp: owned_ok_def)
      next
        case False
        then have "j = ?g" using at j k len by (auto split: if_splits)
        moreover from this False k have "rd_route d \<noteq> FAIL_FAST" "k = length (objects (c_bm ?c))"
          using ob at [OF g] cb(1) by (auto split: if_splits)
        ultimately show ?thesis using new by auto
      qed
    qed
    show "length (objects (gen_bm ap' j)) \<le> length (hs @ [h])" if "j < length (ap_gens ap')" for j
      using that sys_invD(6) [OF inv, of j] ob at len cb(1) by (auto split: if_splits)
  qed
qed

lemma inv_background:
  assumes inv: "sys_inv cfg \<lparr> sy_app = ap, sy_handlers = hs \<rparr>"
    and len: "length (ap_gens ap) \<le> length (ap_gens ap')"
    and old: "\<And>g. g < length (ap_gens ap) \<Longrightarrow>
      bm_reach (gen_bm ap g) (gen_bm ap' g) \<and> length (objects (gen_bm ap' g)) = length (objects (gen_bm ap g)) \<and>
      gen_qm ap' g = gen_qm ap g \<and> gen_lt ap' g = gen_lt ap g"
    and new: "\<And>g. length (ap_gens ap) \<le> g \<Longrightarrow> g < length (ap_gens ap') \<Longrightarrow>
      gen_ok cfg (ap_gens ap' ! g) \<and> active_count (gen_qm ap' g) = 0 \<and> objects (gen_bm ap' g) = [] \<and>
      (\<forall>h \<in> set hs. \<not> holds g h)"
  shows "sys_inv cfg \<lparr> sy_app = ap', sy_handlers = hs \<rparr>"
proof (rule sys_invI)
  show "ap_gens ap' \<noteq> []" using sys_invD(1) [OF inv] len by auto
  have grow: "grows ap ap'" using len old by (simp add: grows_def)
  show "gen_ok cfg x" if x: "x \<in> set (ap_gens ap')" for x
  proof -
    obtain g where g: "g < length (ap_gens ap')" "x = ap_gens ap' ! g" using x by (auto simp: in_set_conv_nth)
    show ?thesis
    proof (cases "g < length (ap_gens ap)")
      case True
      with sys_invD(7) [OF inv True] old [OF True] show ?thesis
        by (auto simp: gen_ok_def g(2) intro: bm_reach_trans)
    next
      case False
      then show ?thesis using new g by auto
    qed
  qed
  show "handler_ok ap' h" if "h \<in> set hs" for h
    by (rule handler_ok_grows [OF sys_invD(3) [OF inv that] grow])
  show "slots_ok ap' hs"
    unfolding slots_ok_def
  proof (intro allI impI)
    fix g assume g: "g < length (ap_gens ap')"
    show "active_count (gen_qm ap' g) = int (length (filter (holds g) hs))"
    proof (cases "g < length (ap_gens ap)")
      case True
      then show ?thesis using sys_invD(4) [OF inv] old by (simp add: slots_ok_def)
    next
      case False
      then have "filter (holds g) hs = []" using new g by (simp add: filter_empty_conv)
      then show ?thesis using new g False by simp
    qed
  qed
  show "owned_ok ap' hs"
    unfolding owned_ok_def
  proof (intro allI impI)
    fix g k
    assume g: "g < length (ap_gens ap')" "k < length (objects (gen_bm ap' g))"
      "res_state (objects (gen_bm ap' g) ! k) = Pending"
    then have g': "g < length (ap_gens ap)" using new by (metis length_0_conv not_less not_less_zero)
    then have k: "k < length (objects (gen_bm ap g))" using old g(2) by simp
    have "res_state (objects (gen_bm ap g) ! k) = Pending"
      using pending_before [OF _ _ k g(3)] old [OF g'] gen_ok_wf [OF sys_invD(7) [OF inv g']] by blast
    then show "\<exists>h \<in> set hs. owns g k h"
      using sys_invD(5) [OF inv] g' k by (auto simp: owned_ok_def)
  qed
  show "length (objects (gen_bm ap' g)) \<le> length hs" if "g < length (ap_gens ap')" for g
    using that sys_invD(6) [OF inv, of g] old [of g] new [of g] by (cases "g < length (ap_gens ap)") auto
qed

lemma holds_old:
  assumes "sys_inv cfg \<lparr> sy_app = ap, sy_handlers = hs \<rparr>" "h \<in> set hs" "holds g h"
  shows "g < length (ap_gens ap)"
  using sys_invD(3) [OF assms(1,2)] assms(3) by (cases h) (auto simp: valid_pending_def)

lemma inv_same_gens:
  assumes "sys_inv cfg \<lparr> sy_app = ap, sy_handlers = hs \<rparr>" "ap_gens ap' = ap_gens ap"
  shows "sys_inv cfg \<lparr> sy_app = ap', sy_handlers = hs \<rparr>"
  by (rule inv_background [OF assms(1)]) (simp_all add: assms(2))

lemma expire_length: "length (objects (fst (expire_stale_reservations clock b))) = length (objects b)"
proof -
  have "length (objects (fst (expire_loop clock i its c))) = length (objects c)" for i its c
    by (induction clock i its c rule: expire_loop.induct) (simp_all add: Let_def split_beta)
  then show ?thesis by (simp add: expire_stale_reservations_def)
qed

lemma inv_upd_gen:
  assumes inv: "sys_inv cfg \<lparr> sy_app = ap, sy_handlers = hs \<rparr>"
    and k: "\<And>c. c \<in> set (ap_gens ap) \<Longrightarrow> bm_reach (c_bm c) (c_bm (k c)) \<and>
      length (objects (c_bm (k c))) = length (objects (c_bm c)) \<and> c_qm (k c) = c_qm c \<and> c_lt (k c) = c_lt c"
  shows "sys_inv cfg \<lparr> sy_app = upd_gen g k ap, sy_handlers = hs \<rparr>"
proof (rule inv_background [OF inv])
  fix j assume j: "j < length (ap_gens ap)"
  show "bm_reach (gen_bm ap j) (gen_bm (upd_gen g k ap) j) \<and>
      length (objects (gen_bm (upd_gen g k ap) j)) = length (objects (gen_bm ap j)) \<and>
      gen_qm (upd_gen g k ap) j = gen_qm ap j \<and> gen_lt (upd_gen g k ap) j = gen_lt ap j"
    using j k [of "ap_gens ap ! j"] by (cases "j = g") simp_all
qed simp_all

lemma inv_stop_reaper:
  "sys_inv cfg \<lparr> sy_app = ap, sy_handlers = hs \<rparr> \<Longrightarrow>
     sys_inv cfg \<lparr> sy_app = stop_reaper g ap, sy_handlers = hs \<rparr>"
  unfolding stop_reaper_def by (rule inv_upd_gen) simp_all

lemma inv_run_start:
  assumes "config_ok cfg" and inv: "sys_inv cfg \<lparr> sy_app = ap, sy_handlers = hs \<rparr>"
  shows "sys_inv cfg \<lparr> sy_app = fst (run_start cfg run_id reset ap), sy_handlers = hs \<rparr>"
proof (cases reset)
  case False
  then show ?thesis by (intro inv_same_gens [OF inv]) (simp add: run_start_def)
next
  case True
  let ?ap = "stop_reaper (current ap) ap"
  have inv1: "sys_inv cfg \<lparr> sy_app = ?ap, sy_handlers = hs \<rparr>" by (rule inv_stop_reaper [OF inv])
  show ?thesis
  proof (cases "new_components cfg")
    case (Inl e)
    with inv1 True show ?thesis by (simp add: run_start_def Let_def)
  next
    case (Inr c)
    note new = new_components_ok [OF assms(1) Inr]
    have gens: "ap_gens (fst (run_start cfg run_id reset ap)) = ap_gens ?ap @ [start_reaper c]"
      using True Inr by (simp add: run_start_def Let_def)
    show ?thesis
    proof (rule inv_background [OF inv1])
      fix g
      assume "g < length (ap_gens ?ap)"
      then show "bm_reach (gen_bm ?ap g) (gen_bm (fst (run_start cfg run_id reset ap)) g) \<and>
          length (objects (gen_bm (fst (run_start cfg run_id reset ap)) g)) = length (objects (gen_bm ?ap g)) \<and>
          gen_qm (fst (run_start cfg run_id reset ap)) g = gen_qm ?ap g \<and>
          gen_lt (fst (run_start cfg run_id reset ap)) g = gen_lt ?ap g"
        unfolding gens by (simp add: nth_append)
    next
      fix g
      assume "length (ap_gens ?ap) \<le> g" "g < length (ap_gens (fst (run_start cfg run_id reset ap)))"
      then have "g = length (ap_gens ?ap)" unfolding gens by simp
      with new holds_old [OF inv1] show "gen_ok cfg (ap_gens (fst (run_start cfg run_id reset ap)) ! g) \<and>
          active_count (gen_qm (fst (run_start cfg run_id reset ap)) g) = 0 \<and>
          objects (gen_bm (fst (run_start cfg run_id reset ap)) g) = [] \<and> (\<forall>h \<in> set hs. \<not> holds g h)"
        unfolding gens by auto
    qed (simp add: gens)
  qed
qed

lemma resume_handler_changes:
  assumes inv: "sys_inv cfg \<lparr> sy_app = ap, sy_handlers = hs \<rparr>" and i: "i < length hs" and out: "result_ok out"
    and e: "resume_handler clock out ap (hs ! i) = (ap', h')" and p: "pending_of (hs ! i) = Some p"
  shows "\<exists>ref. valid_pending ap p ref \<and> changes (p_gen p) (after_resume p ref (hs ! i) h') ap ap'"
proof -
  have m: "hs ! i \<in> set hs" using i by simp
  have ho: "handler_ok ap (hs ! i)" by (rule sys_invD(3) [OF inv m])
  then obtain ref where v: "valid_pending ap p ref"
      and f: "hs ! i = Awaiting_fallback p \<Longrightarrow> res_state (objects (gen_bm ap (p_gen p)) ! ref) \<noteq> Pending"
    using p by (cases "hs ! i") auto
  have g: "p_gen p < length (ap_gens ap)" using v by (simp add: valid_pending_def)
  have q: "qm_ok (gen_qm ap (p_gen p))" using sys_invD(7) [OF inv g] by (simp add: gen_ok_def)
  have a: "0 < active_count (gen_qm ap (p_gen p))" if "in_slot (hs ! i)"
  proof -
    have "hs ! i \<in> set (filter (holds (p_gen p)) hs)" using that m holds_pending [OF p] by simp
    then have "0 < length (filter (holds (p_gen p)) hs)" by (rule length_pos_if_in_set)
    then show ?thesis using sys_invD(4) [OF inv] g by (simp add: slots_ok_def)
  qed
  have "changes (p_gen p) (after_resume p ref (hs ! i) h') ap ap'"
  proof (cases "hs ! i")
    case (Awaiting_remote p')
    with p e show ?thesis
      using resume_remote_changes [OF v q out, of clock ap' h'] by (simp add: resume_handler_def)
  next
    case (Awaiting_local p')
    with p e show ?thesis
      using resume_local_changes [OF v q out a, of clock ap' h'] by (simp add: resume_handler_def)
  next
    case (Awaiting_fallback p')
    with p e show ?thesis
      using resume_fallback_changes [OF v q out a f, of ap' h'] by (simp add: resume_handler_def)
  qed (use p in simp_all)
  with v show ?thesis by blast
qed

lemma inv_resume_handler:
  assumes inv: "sys_inv cfg \<lparr> sy_app = ap, sy_handlers = hs \<rparr>" and i: "i < length hs" and out: "result_ok out"
    and e: "resume_handler clock out ap (hs ! i) = (ap', h')"
  shows "sys_inv cfg \<lparr> sy_app = ap', sy_handlers = hs[i := h'] \<rparr>"
proof (cases "pending_of (hs ! i)")
  case None
  then have "ap' = ap" "h' = hs ! i"
    using e by (cases "hs ! i"; simp add: resume_handler_def)+
  then show ?thesis using inv by simp
next
  case (Some p)
  then show ?thesis
    using resume_handler_changes [OF assms] inv_resume [OF inv i] by blast
qed

lemma inv_sys_step:
  assumes cfg: "config_ok cfg" and inv: "sys_inv cfg sy" and ok: "event_ok sy ev"
  shows "sys_inv cfg (sys_step cfg sy ev)"
proof -
  obtain ap hs where sy: "sy = \<lparr> sy_app = ap, sy_handlers = hs \<rparr>" by (cases sy) simp
  note inv = inv [unfolded sy]
  show ?thesis
  proof (cases ev)
    case (Arrive clock now uuid req)
    with inv_arrive [OF cfg inv] ok show ?thesis by (auto simp: sy split: prod.splits)
  next
    case (Resume i clock out)
    with inv_resume_handler [OF inv] ok inv show ?thesis by (auto simp: sy split: prod.splits)
  next
    case (Reap g clock)
    have "sys_inv cfg \<lparr> sy_app = reap g clock ap, sy_handlers = hs \<rparr>"
      unfolding reap_def using inv
      by (auto intro!: inv_upd_gen simp: bm_reach_expire expire_length)
    with Reap show ?thesis by (simp add: sy)
  next
    case (Start_run run_id reset)
    with inv_run_start [OF cfg inv] show ?thesis by (simp add: sy)
  next
    case (Sse_read ref)
    have "ap_gens (sse_read ref ap) = ap_gens ap"
      by (simp add: sse_read_def Let_def split: option.splits log_event.splits)
    with Sse_read inv_same_gens [OF inv] show ?thesis by (simp add: sy)
  next
    case Shut_down
    with inv_stop_reaper [OF inv] show ?thesis by (simp add: sy shutdown_def)
  qed (auto simp: sy run_complete_def intro: inv_same_gens [OF inv])
qed

lemma reach_inv: "reach cfg sy \<Longrightarrow> config_ok cfg \<Longrightarrow> sys_inv cfg sy"
proof (induction rule: reach.induct)
  case (reach_start health ap)
  then obtain c where c: "new_components cfg = Inr c" "ap_gens ap = [start_reaper c]"
    by (auto simp: startup_def split: sum.splits)
  with new_components_ok [OF reach_start(2) c(1)] show ?case
    by (intro sys_invI) (auto simp: slots_ok_def owned_ok_def)
next
  case (reach_step sy ev)
  then show ?case using inv_sys_step by blast
qed

section \<open>Consequences\<close>

text \<open>Every active entry of a manager belongs to a handler.\<close>

lemma active_owned:
  assumes "sys_inv cfg sy" "g < length (ap_gens (sy_app sy))"
    and "(rid, ref) \<in> set (active_reservations (gen_bm (sy_app sy) g))"
  shows "\<exists>h \<in> set (sy_handlers sy). owns g ref h"
proof -
  have "gen_ok cfg (ap_gens (sy_app sy) ! g)" "owned_ok (sy_app sy) (sy_handlers sy)"
    using assms(1,2) by (simp_all add: sys_inv_def Let_def)
  moreover from this(1) have "bm_wf (gen_bm (sy_app sy) g)" by (rule gen_ok_wf)
  then have "ref < length (objects (gen_bm (sy_app sy) g))" "res_state (objects (gen_bm (sy_app sy) g) ! ref) = Pending"
    using assms(3) wf_tableD(3,5) by (auto simp: bm_wf_def)
  ultimately show ?thesis using assms(2) by (simp add: owned_ok_def)
qed

text \<open>A manager of the service satisfies the books.\<close>

lemma permitted_books:
  assumes "permitted clean_op bm_step b ops" "bm_wf b" "length (objects (run bm_step b ops)) \<le> N"
  shows "permitted (books_op N N) bm_step b ops"
  using assms
proof (induction ops arbitrary: b)
  case (Cons op ops)
  let ?b = "bm_step b op"
  have op: "fresh_op b op" "actuals_ok op" "permitted clean_op bm_step ?b ops"
    using Cons.prems(1) clean_op_def [of b op] by simp_all
  have wf: "bm_wf ?b" using bm_wf_step [OF Cons.prems(2) op(1)] .
  have "permitted fresh_op bm_step ?b ops"
    using permitted_mono [of clean_op fresh_op] op(3) clean_op_def by blast
  then have "length (objects ?b) \<le> length (objects (run bm_step ?b ops))"
    using evolves_run [OF wf] by (simp add: evolves_def)
  then have "length (objects ?b) \<le> N" using Cons.prems(3) by simp
  moreover have "length (active_reservations ?b) \<le> N"
    using active_le_objects [OF wf] calculation by simp
  ultimately show ?case
    using op Cons.IH [OF op(3) wf] Cons.prems(3) by (simp add: books_op_def)
qed simp

lemma gen_books:
  assumes "gen_ok cfg c" "length (objects (c_bm c)) \<le> N" "0 \<le> MAX_CUMULATIVE_LATENCY_MS cfg"
    and "caps_ok N N (MAX_REMOTE_BUDGET cfg) (MAX_CUMULATIVE_LATENCY_MS cfg)"
  shows "books N N (MAX_REMOTE_BUDGET cfg) (MAX_CUMULATIVE_LATENCY_MS cfg) (c_bm c)"
proof -
  obtain b0 ops where b0: "init_bm (MAX_REMOTE_BUDGET cfg) (MAX_CUMULATIVE_LATENCY_MS cfg) (RESERVATION_TTL_SECONDS cfg) = Inr b0"
    and ops: "permitted clean_op bm_step b0 ops" "c_bm c = run bm_step b0 ops"
    using assms(1) by (auto simp: gen_ok_def bm_reach_def)
  have "permitted (books_op N N) bm_step b0 ops"
    by (rule permitted_books [OF ops(1) bm_wf_init [OF b0]]) (use assms(2) ops(2) in simp)
  from books_run [OF b0 assms(3,4) this] show ?thesis using ops(2) by simp
qed

text \<open>The number of backend calls a request may still make.\<close>

fun stage :: "handler \<Rightarrow> nat" where
  "stage (Awaiting_remote p) = 2"
| "stage (Awaiting_local p) = 2"
| "stage (Awaiting_fallback p) = 1"
| "stage (Suspended_on_slot p) = 1"
| "stage _ = 0"

lemma idle_stage: "handler_ok ap h \<Longrightarrow> pending_of h = None \<Longrightarrow> stage h = 0"
  by (cases h) auto

lemma stage_resume:
  assumes inv: "sys_inv cfg \<lparr> sy_app = ap, sy_handlers = hs \<rparr>" and i: "i < length hs" and out: "result_ok out"
    and e: "resume_handler clock out ap (hs ! i) = (ap', h')"
  shows "stage h' \<le> stage (hs ! i) - 1"
proof -
  have ok: "handler_ok ap' h'"
    using inv_resume_handler [OF assms] i by (auto simp: sys_inv_def Let_def set_update_memI)
  have m: "hs ! i \<in> set hs" using i by simp
  have ho: "handler_ok ap (hs ! i)" by (rule sys_invD(3) [OF inv m])
  have exc: "stage h \<le> 1" if "on_exception clock p x a = (a', h)" "handler_ok a' h" for p x a a' h
    using that
    by (cases x; cases h)
       (auto simp: on_exception_def except_runtime_def except_exceeded_def except_remote_def except_other_def Let_def
          split: prod.splits sum.splits option.splits if_splits)
  have fin: "stage h = 0" if "finish_request p r cost res outcome a = (a', h)" for p r cost res outcome a a' h
    using that by (auto simp: finish_request_def Let_def split: prod.splits sum.splits)
  have idle: "stage h' = 0" if "pending_of (hs ! i) = None"
  proof -
    have "h' = hs ! i" using e that by (cases "hs ! i") (simp_all add: resume_handler_def)
    then show ?thesis using idle_stage [OF ho that] by simp
  qed
  show ?thesis
  proof (cases "hs ! i")
    case (Awaiting_remote p)
    with e ok exc fin show ?thesis
      by (fastforce simp: resume_handler_def resume_remote_def split: sum.splits prod.splits)
  next
    case (Awaiting_local p)
    with e ok exc fin show ?thesis
      by (fastforce simp: resume_handler_def resume_local_def split: sum.splits prod.splits)
  next
    case (Awaiting_fallback p)
    with e fin show ?thesis
      by (fastforce simp: resume_handler_def resume_fallback_def Let_def split: sum.splits exc.splits)
  qed (use idle in simp_all)
qed

lemma stage_le: "stage h \<le> 2"
  by (cases h) simp_all

fun is_resume :: "nat \<Rightarrow> sys_event \<Rightarrow> bool" where
  "is_resume i (Resume j clock out) = (i = j)"
| "is_resume i _ = False"

lemma stage_step:
  assumes "sys_inv cfg sy" "event_ok sy ev" "i < length (sy_handlers sy)"
  shows "i < length (sy_handlers (sys_step cfg sy ev)) \<and>
         stage (sy_handlers (sys_step cfg sy ev) ! i) \<le> stage (sy_handlers sy ! i) - of_bool (is_resume i ev)"
proof -
  obtain ap hs where sy: "sy = \<lparr> sy_app = ap, sy_handlers = hs \<rparr>" by (cases sy) simp
  show ?thesis
  proof (cases ev)
    case (Arrive clock now uuid req)
    with assms(3) show ?thesis by (simp add: sy nth_append split: prod.splits)
  next
    case (Resume j clock out)
    obtain ap' h' where e: "resume_handler clock out ap (hs ! j) = (ap', h')" by (rule prod.exhaust)
    show ?thesis
    proof (cases "j = i")
      case True
      with assms stage_resume [of cfg ap hs i out clock ap' h'] e Resume show ?thesis by (simp add: sy)
    next
      case False
      with assms(3) e Resume show ?thesis by (simp add: sy)
    qed
  qed (use assms(3) in simp_all)
qed

lemma stage_run:
  assumes "config_ok cfg" "reach cfg sy" "permitted event_ok (sys_step cfg) sy evs" "i < length (sy_handlers sy)"
  shows "stage (sy_handlers (run (sys_step cfg) sy evs) ! i)
           \<le> stage (sy_handlers sy ! i) - length (filter (is_resume i) evs)"
  using assms(2-4)
proof (induction evs arbitrary: sy)
  case (Cons ev evs)
  have ok: "event_ok sy ev" "permitted event_ok (sys_step cfg) (sys_step cfg sy ev) evs" using Cons.prems(2) by simp_all
  note st = stage_step [OF reach_inv [OF Cons.prems(1) assms(1)] ok(1) Cons.prems(3)]
  from Cons.IH [OF reach_step [OF Cons.prems(1) ok(1)] ok(2)] st show ?case by auto
qed simp

end
