(* ===== verification/Budget_Drift.thy ===== *)
theory Budget_Drift
  imports Budget_Ledger
begin

text \<open>
  A sharper bound on the drift of the reserved latency of \<open>app/budget_manager.py\<close>.

  \<open>Budget_Ledger\<close> measures the rounding of a total by the cap.  The latency cap is large (600 seconds,
  in milliseconds), so that bound passes 1e-9 after a few requests.  A total of at most \<open>T\<close>
  reservations of at most \<open>X\<close> each never leaves \<open>T * X\<close>, and its rounding is measured by that.
\<close>

section \<open>One operation\<close>

lemma held_bounded:
  assumes wf: "bm_wf b" and X: "0 \<le> X" "\<And>r. r \<in> set (objects b) \<Longrightarrow> f r \<le> X" and T: "length (objects b) \<le> T"
  shows "held f b \<le> of_nat T * X"
proof -
  have "held f b \<le> sum_list (map (\<lambda>_. X) (active_reservations b))"
    unfolding held_def using X(2) wf_tableD(3) wf
    by (intro sum_list_mono) (auto simp: bm_wf_def)
  also have "\<dots> = of_nat (length (active_reservations b)) * X" by (simp add: sum_list_triv)
  also have "\<dots> \<le> of_nat T * X"
    using active_le_objects [OF wf] T X(1) by (intro mult_right_mono) simp_all
  finally show ?thesis .
qed

lemma tracks_grow:
  assumes t: "tracks f r M b" and wf: "bm_wf b" and fresh: "uuid \<notin> res_id ` set (objects b)"
    and sm: "small T M" and len: "length (objects b) \<le> T" and x: "0 \<le> x"
    and f: "f (objects (with_reservation now uuid cost lat b) ! length (objects b)) = x"
    and h': "held f (with_reservation now uuid cost lat b) \<le> M"
  shows "tracks f (fadd r x) M (with_reservation now uuid cost lat b)"
proof -
  let ?d = "half_ulp (M + 2)"
  note h = held_with_reservation(1) [OF wf fresh, where f = f] held_with_reservation(2,3) [OF wf fresh]
  have "of_nat (touches b) * ?d \<le> 1 / 16" by (rule smallD(4) [OF sm touches_le [OF len]])
  then have "\<bar>r - held f b\<bar> \<le> 1 / 16" "0 \<le> held f b" "held f b + x \<le> M"
    using t h' by (auto simp: tracks_def h f)
  then have "\<bar>r + x\<bar> \<le> M + 2" using x by linarith
  then have "\<bar>fadd r x - (held f b + x)\<bar> \<le> of_nat (touches b) * ?d + ?d"
    using t by (intro ledger_fadd) (simp_all add: tracks_def)
  then show ?thesis using t x h' by (simp add: tracks_def h f algebra_simps)
qed

section \<open>The invariant\<close>

text \<open>Objects are never removed and their amounts never change, so a bound on the amounts at the end was
  one all along.\<close>

definition lat_bounded :: "nat \<Rightarrow> flt \<Rightarrow> bm \<Rightarrow> bool" where
  "lat_bounded T X b \<longleftrightarrow> length (objects b) \<le> T \<and> (\<forall>r \<in> set (objects b). reserved_latency_ms r \<le> X)"

definition drift_ok :: "nat \<Rightarrow> flt \<Rightarrow> bm \<Rightarrow> bool" where
  "drift_ok T X b \<longleftrightarrow>
     0 \<le> X \<and> small T (of_nat T * X) \<and> bm_wf b \<and> (\<forall>r \<in> set (objects b). 0 \<le> reserved_latency_ms r) \<and>
     (lat_bounded T X b \<longrightarrow> tracks reserved_latency_ms (bm_reserved_latency_ms b) (of_nat T * X) b)"

lemma drift_grant:
  assumes d: "drift_ok T X b" and fresh: "uuid \<notin> res_id ` set (objects b)" and lat: "0 \<le> lat"
  shows "drift_ok T X (with_reservation now uuid cost lat b)"
proof -
  let ?b = "with_reservation now uuid cost lat b" and ?M = "of_nat T * X"
  have X: "0 \<le> X" and sm: "small T ?M" and wf: "bm_wf b" using d by (simp_all add: drift_ok_def)
  have wf': "bm_wf ?b" using bm_wf_with_reservation [OF wf fresh] .
  have obj: "objects ?b = objects b @ [objects ?b ! length (objects b)]"
    "reserved_latency_ms (objects ?b ! length (objects b)) = lat"
    "bm_reserved_latency_ms ?b = fadd (bm_reserved_latency_ms b) lat"
    by (simp_all add: with_reservation_def)
  have "tracks reserved_latency_ms (bm_reserved_latency_ms ?b) ?M ?b" if lb: "lat_bounded T X ?b"
  proof -
    have "set (objects b) \<subseteq> set (objects ?b)" "length (objects ?b) = Suc (length (objects b))"
      by (auto simp: with_reservation_def)
    with lb have lb': "lat_bounded T X b" by (auto simp: lat_bounded_def)
    have "held reserved_latency_ms ?b \<le> ?M"
      using lb by (intro held_bounded [OF wf' X]) (auto simp: lat_bounded_def)
    then show ?thesis
      unfolding obj(3) using d lb'
      by (intro tracks_grow [where f = reserved_latency_ms and x = lat, OF _ wf fresh sm _ lat obj(2)])
         (auto simp: drift_ok_def lat_bounded_def)
  qed
  moreover have "\<forall>r \<in> set (objects ?b). 0 \<le> reserved_latency_ms r"
    using d lat by (auto simp: drift_ok_def with_reservation_def)
  ultimately show ?thesis using X sm wf' by (simp add: drift_ok_def)
qed

lemma drift_release:
  assumes d: "drift_ok T X b" and rid: "map_of (active_reservations b) rid = Some ref" and s: "s \<noteq> Pending"
    and b': "active_reservations b' = AList.delete rid (active_reservations b)"
      "objects b' = (objects b)[ref := (objects b ! ref)\<lparr>res_state := s\<rparr>]"
    and rl: "bm_reserved_latency_ms b' \<in>
      {fsub (bm_reserved_latency_ms b) (reserved_latency_ms (objects b ! ref)),
       max 0 (fsub (bm_reserved_latency_ms b) (reserved_latency_ms (objects b ! ref)))}"
  shows "drift_ok T X b'"
proof -
  let ?M = "of_nat T * X"
  have X: "0 \<le> X" and sm: "small T ?M" and wf: "bm_wf b"
    and pos: "r \<in> set (objects b) \<Longrightarrow> 0 \<le> reserved_latency_ms r" for r
    using d by (simp_all add: drift_ok_def)
  have wf': "bm_wf b'" using bm_wf_release [OF wf rid s b'] .
  have amounts: "map reserved_latency_ms (objects b') = map reserved_latency_ms (objects b)"
    unfolding b'(2) by (cases "ref < length (objects b)") (simp_all add: map_update list_update_same_conv list_update_beyond)
  have same: "reserved_latency_ms ` set (objects b') = reserved_latency_ms ` set (objects b)"
    using arg_cong [OF amounts, of set] by simp
  have "tracks reserved_latency_ms (bm_reserved_latency_ms b') ?M b'" if lb: "lat_bounded T X b'"
  proof -
    have len: "length (objects b) \<le> T" using lb by (simp add: lat_bounded_def b'(2))
    have "\<forall>x \<in> reserved_latency_ms ` set (objects b). x \<le> X"
      using lb unfolding lat_bounded_def same [symmetric] by blast
    with len d have "tracks reserved_latency_ms (bm_reserved_latency_ms b) ?M b"
      by (simp add: drift_ok_def lat_bounded_def)
    from tracks_release [OF this wf rid b' _ pos wf' sm len] rl show ?thesis by auto
  qed
  moreover have "\<forall>x \<in> reserved_latency_ms ` set (objects b'). 0 \<le> x" unfolding same using pos by blast
  ultimately show ?thesis using X sm wf' by (simp add: drift_ok_def)
qed

lemma drift_rollback: "drift_ok T X b \<Longrightarrow> drift_ok T X (fst (rollback rid b))"
proof (rule rollback_cases [of b rid])
  fix ref
  assume d: "drift_ok T X b" and r: "map_of (active_reservations b) rid = Some ref"
    and e: "rollback rid b = (release_clamped rid ref (set_state ref RolledBack b), Inr (), settle_calls rid)"
  have "bm_wf b" using d by (simp add: drift_ok_def)
  then show ?thesis
    by (intro drift_release [OF d r, of RolledBack])
       (auto simp: e release_clamped_def Let_def set_state_def nth_list_update active_pending [OF _ r])
qed simp

lemma drift_commit: "drift_ok T X b \<Longrightarrow> drift_ok T X (fst (commit rid ac al b))"
proof (rule commit_cases [of b rid ac al])
  fix ref e
  assume d: "drift_ok T X b" and r: "map_of (active_reservations b) rid = Some ref"
    and e: "commit rid ac al b = (release_plain rid ref (set_state ref RolledBack b), Inl e, settle_calls rid)"
  have "bm_wf b" using d by (simp add: drift_ok_def)
  then show ?thesis
    by (intro drift_release [OF d r, of RolledBack])
       (auto simp: e release_plain_def Let_def set_state_def nth_list_update active_pending [OF _ r])
next
  fix ref
  assume d: "drift_ok T X b" and r: "map_of (active_reservations b) rid = Some ref"
    and e: "commit rid ac al b =
      ((release_clamped rid ref (set_state ref Committed b))
         \<lparr> cumulative_remote_cost := fadd (cumulative_remote_cost b) ac,
           cumulative_actual_latency_ms := fadd (cumulative_actual_latency_ms b) al \<rparr>,
       Inr (), settle_calls rid)"
  have "bm_wf b" using d by (simp add: drift_ok_def)
  then show ?thesis
    by (intro drift_release [OF d r, of Committed])
       (auto simp: e release_clamped_def Let_def set_state_def nth_list_update active_pending [OF _ r])
qed simp

lemma drift_step: "drift_ok T X b \<Longrightarrow> fresh_op b op \<Longrightarrow> drift_ok T X (bm_step b op)"
proof (cases op)
  case (Op_reserve now uuid req cost lat)
  assume "drift_ok T X b" "fresh_op b op"
  then show ?thesis
    by (rule_tac try_reserve_cases [of cost lat now uuid req b]) (auto simp: Op_reserve intro: drift_grant)
next
  case (Op_expire clock)
  assume d: "drift_ok T X b"
  then have "bm_wf b" by (simp add: drift_ok_def)
  with d have "drift_ok T X (fst (expire_stale_reservations clock b))"
    by (intro expire_preserves [where I = "drift_ok T X"] drift_rollback)
  then show ?thesis by (simp add: Op_expire)
qed (simp_all add: drift_rollback drift_commit)

interpretation drift: guarded_machine bm_step fresh_op "drift_ok T X" for T X
  by unfold_locales (rule drift_step)

lemma drift_init:
  "init_bm M L ttl = Inr b \<Longrightarrow> 0 \<le> X \<Longrightarrow> small T (of_nat T * X) \<Longrightarrow> drift_ok T X b"
  using bm_wf_init [of M L ttl b] smallD(1) [of T "of_nat T * X"]
  by (auto simp: init_bm_def drift_ok_def tracks_def held_def touches_def split: if_splits)

lemma small_of_drift:
  assumes "of_nat (2 * T) * half_ulp (M + 2) \<le> eps9" "0 \<le> M" "T = 0 \<Longrightarrow> M = 0" shows "small T M"
proof -
  have h: "0 \<le> half_ulp (M + 2)" using assms(2) by (simp add: half_ulp_nonneg)
  have "of_nat (32 * T + 16) * half_ulp (M + 2) \<le> 1"
  proof (cases "T = 0")
    case True
    with assms(3) half_ulp_le [of 2] show ?thesis by simp
  next
    case False
    then have "of_nat (32 * T + 16) * half_ulp (M + 2) \<le> of_nat (24 * (2 * T)) * half_ulp (M + 2)"
      using h by (intro mult_right_mono of_nat_mono) linarith+
    also have "\<dots> = 24 * (of_nat (2 * T) * half_ulp (M + 2))" by simp
    also have "\<dots> \<le> 24 * eps9" using assms(1) by (intro mult_left_mono) simp_all
    also have "\<dots> \<le> 1" using eps_small by linarith
    finally show ?thesis .
  qed
  with assms(2) show ?thesis by (simp add: small_def)
qed

text \<open>
  With nothing active, the reserved latency is zero up to the rounding at the magnitude of what was
  reserved.
\<close>

lemma idle_latency:
  assumes "init_bm M L ttl = Inr b0" "permitted fresh_op bm_step b0 ops" "b = run bm_step b0 ops"
    and "0 \<le> X" "small T (of_nat T * X)" "lat_bounded T X b" "active_reservations b = []"
  shows "\<bar>bm_reserved_latency_ms b\<bar> \<le> of_nat (2 * T) * half_ulp (of_nat T * X + 2)"
proof -
  let ?d = "half_ulp (of_nat T * X + 2)"
  have "drift_ok T X b" unfolding assms(3) by (rule drift.inv_run [OF drift_init [OF assms(1,4,5)] assms(2)])
  with assms(6,7) have "\<bar>bm_reserved_latency_ms b\<bar> \<le> of_nat (touches b) * ?d"
    by (simp add: drift_ok_def tracks_def held_def)
  also have "\<dots> \<le> of_nat (2 * T) * ?d"
    using touches_le [of b T] assms(6) smallD(3) [OF assms(5)]
    by (intro mult_right_mono) (simp_all only: lat_bounded_def of_nat_le_iff)
  finally show ?thesis .
qed

end
