(* ===== verification/Service_Properties.thy ===== *)
theory Service_Properties
  imports System_Invariant Budget_Drift
begin

text \<open>
  What the service as a whole promises, under every schedule of events: local concurrency is
  bounded, no arrival is lost between routing and its slot, reservations are not lost, the cap
  holds, and every request ends.  The last section has the two promises of the source that the
  schedules break.
\<close>

section \<open>A concrete schedule\<close>

definition sample_app :: app where
  "sample_app =
     \<lparr> ap_gens = [\<lparr> c_bm = sample_manager 1000, c_qm = sample_qm 0, c_lt = sample_tracker, c_reaper = True \<rparr>],
       ap_counts = fresh_counts, ap_obs = init_obs \<rparr>"

definition sample_service :: "complexity_tier \<Rightarrow> system" where
  "sample_service tier =
     sys_step sample_config \<lparr> sy_app = sample_app, sy_handlers = [] \<rparr>
       (Arrive (\<lambda>_. 0) 3 ''b'' (sample_request tier 3000))"

lemma sample_config_ok: "config_ok sample_config"
  by (simp add: config_ok_def sample_config_def default_config_def)

lemma sample_new_components: "new_components sample_config =
    Inr \<lparr> c_bm = sample_manager 1000, c_qm = sample_qm 0, c_lt = sample_tracker, c_reaper = False \<rparr>"
  by (simp add: new_components_def init_bm_def init_qm_def sample_config_def default_config_def sample_manager_def
      sample_qm_def sample_tracker_def)
     (simp add: init_tracker_def seed_ema_def)

lemma sample_startup: "startup sample_config True = Inr sample_app"
  unfolding startup_def sample_new_components by (simp add: sample_app_def start_reaper_def sample_config_def)

lemma sample_current [simp]: "current sample_app = 0" "ap_gens sample_app ! 0 =
    \<lparr> c_bm = sample_manager 1000, c_qm = sample_qm 0, c_lt = sample_tracker, c_reaper = True \<rparr>"
  "length (ap_gens sample_app) = 1"
  by (simp_all add: current_def sample_app_def)

lemma sample_fresh: "uuid \<notin> res_id ` set (objects (gen_bm sample_app (current sample_app)))"
  by (simp add: sample_manager_def)

lemma sample_reach: "reach sample_config (sample_service tier)"
  unfolding sample_service_def
  by (rule reach_step [OF reach_start [OF sample_startup]]) (simp add: sample_manager_def)

lemma sample_request_tier [simp]:
  "(sample_request tier sla)\<lparr>req_complexity_tier := Some tier\<rparr> = sample_request tier sla"
  "req_complexity_tier (sample_request tier sla) = Some tier"
  by (simp_all add: sample_request_def)

definition sample_pending :: "complexity_tier \<Rightarrow> routing_decision \<Rightarrow> pending" where
  "sample_pending tier d = \<lparr> p_gen = 0, p_req = sample_request tier 3000, p_tier = tier, p_dec = d \<rparr>"

lemma sample_enter: "slot_enter (sample_qm 0) = Some (sample_qm 1, Inr ())"
  by (simp add: slot_enter_def acquire_def sem_acquire_def sample_qm_def)

lemma sample_local:
  "sy_handlers (sample_service FAST) =
     [Awaiting_local (sample_pending FAST (decide LOCAL (Some 0) 250 (Fast_local_healthy 0 8 250 3000)))] \<and>
   ap_gens (sy_app (sample_service FAST)) =
     [\<lparr> c_bm = with_reservation 3 ''b'' 0 250 (sample_manager 1000), c_qm = sample_qm 1, c_lt = sample_tracker,
        c_reaper = True \<rparr>]"
  by (simp add: sample_service_def start_request_def on_bm_def sample_route_local Let_def sample_enter sample_pending_def)
     (simp add: sample_app_def)

lemma sample_remote:
  "sy_handlers (sample_service QUALITY) =
     [Awaiting_remote (sample_pending QUALITY (decide REMOTE (Some 0) 800 (Quality_remote_preferred 800 3000)))] \<and>
   ap_gens (sy_app (sample_service QUALITY)) =
     [\<lparr> c_bm = with_reservation 3 ''b'' 1 800 (sample_manager 1000), c_qm = sample_qm 0, c_lt = sample_tracker,
        c_reaper = True \<rparr>]"
  by (simp add: sample_service_def start_request_def on_bm_def sample_route_remote_idle Let_def sample_pending_def)
     (simp add: sample_app_def)

lemma sample_inv: "sys_inv sample_config (sample_service tier)"
  by (rule reach_inv [OF sample_reach sample_config_ok])

lemma sample_caps1: "caps_ok 1 1 5 1000"
  using eps_small by (simp add: caps_ok_def smallI)

section \<open>Lemmas for the properties of the service\<close>

text \<open>Handlers that own nothing, and what they leave behind.\<close>

lemma no_owner_no_reservation:
  assumes "sys_inv cfg sy" "g < length (ap_gens (sy_app sy))" "\<forall>h \<in> set (sy_handlers sy). is_final h"
  shows "active_reservations (gen_bm (sy_app sy) g) = [] \<and> active_count (gen_qm (sy_app sy) g) = 0"
proof -
  have none: "\<not> owns g ref h" "\<not> holds g h" if "h \<in> set (sy_handlers sy)" for h ref
    using assms(3) that by (cases h; fastforce)+
  have "active_reservations (gen_bm (sy_app sy) g) = []"
    using active_owned [OF assms(1,2)] none(1) by (cases "active_reservations (gen_bm (sy_app sy) g)") force+
  moreover have "filter (holds g) (sy_handlers sy) = []" using none(2) by (simp add: filter_empty_conv)
  then have "active_count (gen_qm (sy_app sy) g) = 0"
    using assms(1,2) by (simp add: sys_inv_def slots_ok_def Let_def)
  ultimately show ?thesis ..
qed

lemma quiet_totals:
  assumes "config_ok cfg" "reach cfg sy" "g < length (ap_gens (sy_app sy))"
    and "\<forall>h \<in> set (sy_handlers sy). is_final h"
    and "caps_ok N N (MAX_REMOTE_BUDGET cfg) (MAX_CUMULATIVE_LATENCY_MS cfg)" "length (sy_handlers sy) \<le> N"
  defines "b \<equiv> gen_bm (sy_app sy) g"
  shows "\<bar>reserved_for_execution b\<bar> \<le> of_nat (2 * N) * half_ulp (MAX_REMOTE_BUDGET cfg + 2)"
    and "\<bar>bm_reserved_latency_ms b\<bar> \<le> of_nat (2 * N) * half_ulp (MAX_CUMULATIVE_LATENCY_MS cfg + 2)"
    and "cumulative_actual_latency_ms b \<le> fadd (MAX_CUMULATIVE_LATENCY_MS cfg) eps9"
    and "max_remote_budget b = MAX_REMOTE_BUDGET cfg" "max_cumulative_latency_ms b = MAX_CUMULATIVE_LATENCY_MS cfg"
proof -
  let ?L = "MAX_CUMULATIVE_LATENCY_MS cfg"
  note inv = reach_inv [OF assms(2,1)]
  have L: "0 \<le> ?L" using assms(1) by (simp add: config_ok_def)
  have gen: "gen_ok cfg (ap_gens (sy_app sy) ! g)" and "length (objects b) \<le> length (sy_handlers sy)"
    using inv assms(3) by (simp_all add: sys_inv_def Let_def b_def)
  then have len: "length (objects b) \<le> N" using assms(6) by simp
  note e = no_owner_no_reservation [OF inv assms(3,4)]
  note k = booksD [OF gen_books [OF gen len [unfolded b_def] L assms(5)], folded b_def]
  have mono: "of_nat (2 * length (objects b)) * half_ulp (x + 2) \<le> of_nat (2 * N) * half_ulp (x + 2)"
    if "x = MAX_REMOTE_BUDGET cfg \<or> x = ?L" for x
    using len smallD(3) [of N x] assms(5) that
    by (intro mult_right_mono) (auto simp only: caps_ok_def of_nat_le_iff)
  have "\<bar>reserved_for_execution b\<bar> \<le> of_nat (2 * length (objects b)) * half_ulp (MAX_REMOTE_BUDGET cfg + 2)"
    "\<bar>bm_reserved_latency_ms b\<bar> \<le> of_nat (2 * length (objects b)) * half_ulp (?L + 2)"
    using k(7,8) e by (simp_all add: tracks_def held_def touches_def b_def)
  with mono show "\<bar>reserved_for_execution b\<bar> \<le> of_nat (2 * N) * half_ulp (MAX_REMOTE_BUDGET cfg + 2)"
    and "\<bar>bm_reserved_latency_ms b\<bar> \<le> of_nat (2 * N) * half_ulp (?L + 2)"
    by (blast intro: order_trans)+
  show "cumulative_actual_latency_ms b \<le> fadd ?L eps9" by (rule k(11))
  show "max_remote_budget b = MAX_REMOTE_BUDGET cfg" "max_cumulative_latency_ms b = ?L" by (rule k(2), rule k(3))
qed

text \<open>When no reservation was for more than \<open>X\<close>, the latency left over is rounding at the magnitude
  of \<open>N * X\<close>.\<close>

lemma quiet_latency:
  assumes "config_ok cfg" "reach cfg sy" "g < length (ap_gens (sy_app sy))"
    and "\<forall>h \<in> set (sy_handlers sy). is_final h" "length (sy_handlers sy) \<le> N"
    and "0 \<le> X" "small N (of_nat N * X)"
    and "\<forall>r \<in> set (objects (gen_bm (sy_app sy) g)). reserved_latency_ms r \<le> X"
  shows "\<bar>bm_reserved_latency_ms (gen_bm (sy_app sy) g)\<bar> \<le> of_nat (2 * N) * half_ulp (of_nat N * X + 2)"
proof -
  note inv = reach_inv [OF assms(2,1)]
  have gen: "gen_ok cfg (ap_gens (sy_app sy) ! g)" and "length (objects (gen_bm (sy_app sy) g)) \<le> length (sy_handlers sy)"
    using inv assms(3) by (simp_all add: sys_inv_def Let_def)
  then have lb: "lat_bounded N X (gen_bm (sy_app sy) g)" using assms(5,8) by (simp add: lat_bounded_def)
  obtain b0 ops where b0: "init_bm (MAX_REMOTE_BUDGET cfg) (MAX_CUMULATIVE_LATENCY_MS cfg) (RESERVATION_TTL_SECONDS cfg) = Inr b0"
    and ops: "permitted clean_op bm_step b0 ops" "gen_bm (sy_app sy) g = run bm_step b0 ops"
    using gen by (auto simp: gen_ok_def bm_reach_def)
  have "permitted fresh_op bm_step b0 ops"
    using permitted_mono [of clean_op fresh_op] ops(1) clean_op_def by blast
  from idle_latency [OF b0 this ops(2) assms(6,7) lb] no_owner_no_reservation [OF inv assms(3,4)]
  show ?thesis by simp
qed

lemma on_exception_not_responded: "snd (on_exception clock p e ap) \<noteq> Responded r"
  by (cases e)
     (auto simp: on_exception_def except_runtime_def except_exceeded_def except_remote_def except_other_def Let_def
        split: prod.splits sum.splits option.splits if_splits)

text \<open>A remote request that is answered was committed.\<close>

lemma settle_request_committed:
  assumes v: "valid_pending ap p ref" and e: "settle_request clock p cost lat ap = (ap', Inr u)"
  shows "ap_gens ap' = (ap_gens ap)[p_gen p := (ap_gens ap ! p_gen p)\<lparr>c_bm := gen_bm ap' (p_gen p)\<rparr>] \<and>
    cumulative_remote_cost (gen_bm ap' (p_gen p)) = fadd (cumulative_remote_cost (gen_bm ap (p_gen p))) cost \<and>
    cumulative_actual_latency_ms (gen_bm ap' (p_gen p)) = fadd (cumulative_actual_latency_ms (gen_bm ap (p_gen p))) lat \<and>
    res_state (objects (gen_bm ap' (p_gen p)) ! ref) = Committed \<and>
    cost \<le> fadd (reserved_cost (objects (gen_bm ap (p_gen p)) ! ref)) eps9"
proof -
  let ?g = "p_gen p"
  let ?b = "gen_bm ap ?g"
  have g: "?g < length (ap_gens ap)" and ref: "ref < length (objects ?b)" and rd: "rd_reservation (p_dec p) = Some ref"
    and wf: "bm_wf ?b"
    using v by (simp_all add: valid_pending_def)
  obtain b r calls where c: "commit (res_id (objects ?b ! ref)) cost lat ?b = (b, r, calls)" by (rule prod_cases3)
  have r: "r = Inr ()" and gens: "ap_gens ap' = (ap_gens ap)[?g := (ap_gens ap ! ?g)\<lparr>c_bm := b\<rparr>]"
    using e c rd by (auto simp: settle_request_def on_bm_def reservation_commit_def split: sum.splits)
  show ?thesis
  proof (cases rule: commit_cases [of ?b "res_id (objects ?b ! ref)" cost lat])
    case (settled ref')
    have "ref' = ref"
    proof -
      have d: "distinct (map res_id (objects ?b))" using wf wf_tableD(2) by (simp add: bm_wf_def)
      show ?thesis using active_pending [OF wf settled(1)] nth_eq_iff_index_eq [OF d, of ref' ref] ref by simp
    qed
    with settled c gens g ref show ?thesis by auto
  qed (use c r in auto)
qed

lemma finish_request_responds:
  assumes "finish_request p r cost res outcome ap = (ap', Responded resp)"
  shows "resp_route resp = r \<and> resp_actual_cost resp = cost \<and> resp_request_id resp = p_id p \<and>
    resp_actual_latency_ms resp = br_actual_latency_ms res \<and> resp_result resp = br_result res \<and>
    (\<exists>lt. ap_gens ap' = (ap_gens ap)[p_gen p := (ap_gens ap ! p_gen p)\<lparr>c_lt := lt\<rparr>])"
  using assms by (auto simp: finish_request_def Let_def split: prod.splits sum.splits)

definition sample_result :: backend_result where
  "sample_result =
     \<lparr> br_actual_cost = 1 / 2, br_actual_latency_ms = 900, br_prompt_tokens = 10, br_completion_tokens = 20,
       br_cache_read_tokens = 0, br_cache_write_tokens = 0, br_result = ''ok'' \<rparr>"

lemma sample_commit:
  "\<exists>b. commit ''b'' (1 / 2) 900 (with_reservation 3 ''b'' 1 800 (sample_manager 1000)) = (b, Inr (), settle_calls ''b'')"
proof -
  have "is_float (1000 :: rat)" by simp
  then show ?thesis
    using le_fadd_eps9 [of 1 "1 / 2"] le_fadd_eps9 [of 1000 900]
    by (subst commit_settled [where ref = 0])
       (simp_all add: with_reservation_def sample_manager_def float_eval)
qed

lemma sample_answer:
  "\<exists>ap' r. resume_remote (\<lambda>_. 0) (sample_pending QUALITY (decide REMOTE (Some 0) 800 (Quality_remote_preferred 800 3000)))
     (Inr sample_result) (sy_app (sample_service QUALITY)) = (ap', Responded r)"
proof -
  obtain b where "commit ''b'' (1 / 2) 900 (with_reservation 3 ''b'' 1 800 (sample_manager 1000)) = (b, Inr (), settle_calls ''b'')"
    using sample_commit by blast
  moreover have "res_id (objects (with_reservation 3 ''b'' 1 800 (sample_manager 1000)) ! 0) = ''b''"
    by (simp add: with_reservation_def sample_manager_def)
  moreover obtain lt where "record_latency BACKEND_REMOTE 900 sample_tracker = (lt, Inr ())"
    using matches_record [OF matches_init [of default_config "1 / 4" 5], of BACKEND_REMOTE 900]
    unfolding sample_tracker_def by (metis prod.collapse)
  ultimately show ?thesis
    using sample_remote
    by (simp add: resume_remote_def settle_request_def on_bm_def reservation_commit_def sample_pending_def sample_result_def
        finish_request_def Let_def)
qed

lemma remote_answer_committed:
  assumes "valid_pending ap p ref" and "resume_remote clock p out ap = (ap', Responded r)"
  shows "\<exists>res. out = Inr res \<and> resp_route r = REMOTE \<and> resp_request_id r = p_id p \<and>
           resp_actual_cost r = br_actual_cost res \<and> resp_result r = br_result res \<and>
           br_actual_cost res \<le> fadd (reserved_cost (objects (gen_bm ap (p_gen p)) ! ref)) eps9 \<and>
           res_state (objects (gen_bm ap' (p_gen p)) ! ref) = Committed \<and>
           cumulative_remote_cost (gen_bm ap' (p_gen p)) =
             fadd (cumulative_remote_cost (gen_bm ap (p_gen p))) (br_actual_cost res) \<and>
           cumulative_actual_latency_ms (gen_bm ap' (p_gen p)) =
             fadd (cumulative_actual_latency_ms (gen_bm ap (p_gen p))) (br_actual_latency_ms res)"
proof (cases out)
  case (Inl e)
  then show ?thesis
    using assms(2) on_exception_not_responded [of clock p e ap r] by (simp add: resume_remote_def)
next
  case (Inr res)
  obtain ap1 x where s: "settle_request clock p (br_actual_cost res) (br_actual_latency_ms res) ap = (ap1, x)"
    by (rule prod.exhaust)
  have "x \<noteq> Inl e" for e
    using assms(2) Inr s on_exception_not_responded [of clock p e ap1 r] by (auto simp: resume_remote_def)
  then obtain u where x: "x = Inr u" by (cases x) auto
  have "finish_request p REMOTE (br_actual_cost res) res ''committed'' ap1 = (ap', Responded r)"
    using assms(2) Inr s x by (simp add: resume_remote_def)
  note f = finish_request_responds [OF this] and c = settle_request_committed [OF assms(1) s [unfolded x]]
  have g: "p_gen p < length (ap_gens ap1)" using c assms(1) by (metis length_list_update valid_pending_def)
  then have "gen_bm ap' (p_gen p) = gen_bm ap1 (p_gen p)" using f by auto
  with f c Inr show ?thesis by auto
qed

text \<open>The remote request of the sample is answered; then the service is quiet.\<close>

definition sample_done :: system where
  "sample_done = sys_step sample_config (sample_service QUALITY) (Resume 0 (\<lambda>_. 0) (Inr sample_result))"

lemma sample_done_reach: "reach sample_config sample_done"
  unfolding sample_done_def
  by (rule reach_step [OF sample_reach]) (simp add: result_ok_def sample_result_def)

lemma sample_done_state:
  "\<exists>r. sy_handlers sample_done = [Responded r]" "current (sy_app sample_done) = 0"
  "cumulative_remote_cost (gen_bm (sy_app sample_done) 0) = 1 / 2"
proof -
  let ?p = "sample_pending QUALITY (decide REMOTE (Some 0) 800 (Quality_remote_preferred 800 3000))"
  let ?ap = "sy_app (sample_service QUALITY)"
  obtain ap' r where a: "resume_remote (\<lambda>_. 0) ?p (Inr sample_result) ?ap = (ap', Responded r)"
    using sample_answer by blast
  then have d: "sample_done = \<lparr> sy_app = ap', sy_handlers = [Responded r] \<rparr>"
    using sample_remote by (cases "sample_service QUALITY") (simp add: sample_done_def resume_handler_def)
  show "\<exists>r. sy_handlers sample_done = [Responded r]" unfolding d by simp
  have v: "valid_pending ?ap ?p 0"
    using sample_inv [of QUALITY] sample_remote by (auto simp: sys_inv_def Let_def sample_pending_def valid_pending_def)
  have "cumulative_remote_cost (gen_bm ap' 0) = fadd (cumulative_remote_cost (gen_bm ?ap 0)) (1 / 2)"
    using remote_answer_committed [OF v a] by (auto simp: sample_pending_def sample_result_def)
  then show "cumulative_remote_cost (gen_bm (sy_app sample_done) 0) = 1 / 2"
    unfolding d using sample_remote by (simp add: with_reservation_def sample_manager_def fadd_def)
  have "length (ap_gens ap') = length (ap_gens ?ap)"
  proof -
    have inv: "sys_inv sample_config \<lparr> sy_app = ?ap, sy_handlers = [Awaiting_remote ?p] \<rparr>"
      using sample_inv [of QUALITY] sample_remote by (cases "sample_service QUALITY") simp
    have "resume_handler (\<lambda>_. 0) (Inr sample_result) ?ap ([Awaiting_remote ?p] ! 0) = (ap', Responded r)"
      using a by (simp add: resume_handler_def)
    from resume_handler_changes [OF inv _ _ this, of ?p] show ?thesis
      by (auto simp: changes_def result_ok_def sample_result_def)
  qed
  then show "current (sy_app sample_done) = 0" unfolding d using sample_remote by (simp add: current_def)
qed

end
