(* ===== verification/Backends.thy ===== *)
theory Backends
  imports Service_Properties
begin

text \<open>
  \<open>app/backends.py\<close>: the inference backends, real and mock.

  The network, the clock, the sleep and the random numbers are outside the program: a
  \<open>world\<close> holds what they do during one call of a backend.  So are \<open>tenacity\<close>
  (\<open>w_retry\<close>), pydantic's validation of the two token counts (\<open>w_tokens\<close>) and
  the text Python prints for a float, a list or a dictionary (\<open>w_repr\<close>).  A body parsed by
  \<open>resp.json()\<close> is a value of \<open>json\<close>.
\<close>

section \<open>The outside of a backend call\<close>

record http_response =
  http_status :: int
  http_text :: string
  http_json :: "exc + json"

text \<open>What \<open>@retry(stop=.., wait=.., retry=.., reraise=..)\<close> is told.\<close>

record retry_policy =
  stop_after_attempt :: nat
  wait_multiplier :: flt
  wait_min :: flt
  wait_max :: flt
  retry_if_exception :: "exc \<Rightarrow> bool"
  reraise :: bool

record world =
  w_start :: flt
  w_end :: flt
  w_ollama :: "exc + http_response"
  w_attempts :: "nat \<Rightarrow> exc + http_response"
  w_retry :: "retry_policy \<Rightarrow> (nat \<Rightarrow> exc + http_response) \<Rightarrow> exc + http_response"
  w_tokens :: "json \<Rightarrow> json \<Rightarrow> exc + int \<times> int"
  w_repr :: "json \<Rightarrow> string"
  w_mock_start :: flt
  w_sleep :: "flt \<Rightarrow> exc + flt"
  w_jitter :: flt
  w_prompt_tokens :: int
  w_completion_tokens :: int
  w_read_coin :: flt
  w_read_tokens :: int
  w_write_coin :: flt
  w_write_tokens :: int

definition elapsed_ms :: "flt \<Rightarrow> flt \<Rightarrow> flt" where
  "elapsed_ms t0 t1 = fmul (fsub t1 t0) 1000"

text \<open>\<open>f"[{request_id}] .."\<close>\<close>

definition tagged :: "string \<Rightarrow> string \<Rightarrow> string" where
  "tagged rid m = CHR ''['' # rid @ ''] '' @ m"

definition check_ollama_health :: "exc + http_response \<Rightarrow> exc + bool" where
  "check_ollama_health reply =
     (case reply of
        Inr r \<Rightarrow> Inr (http_status r = 200)
      | Inl CancelledError \<Rightarrow> Inl CancelledError
      | Inl _ \<Rightarrow> Inr False)"

section \<open>The local backend: Ollama\<close>

definition ollama_result :: "config \<Rightarrow> world \<Rightarrow> json \<Rightarrow> exc + backend_result" where
  "ollama_result cfg w data =
     try_then (json_get data ''response'' (JString [])) (\<lambda>txt.
     try_then (json_get data ''prompt_eval_count'' (JInt 0)) (\<lambda>pt.
     try_then (json_get data ''eval_count'' (JInt 0)) (\<lambda>ct.
     try_then (json_slice 120 txt) (\<lambda>shown.
     try_then (w_tokens w pt ct) (\<lambda>(p, c).
       Inr \<lparr> br_actual_cost = 0, br_actual_latency_ms = elapsed_ms (w_start w) (w_end w),
             br_prompt_tokens = p, br_completion_tokens = c,
             br_cache_read_tokens = 0, br_cache_write_tokens = 0,
             br_result = ''[OLLAMA:'' @ OLLAMA_MODEL cfg @ ''] tokens='' @ json_text (w_repr w) pt @ ''+''
               @ json_text (w_repr w) ct @ '' | '' @ json_text (w_repr w) shown \<rparr>)))))"

definition call_ollama :: "config \<Rightarrow> world \<Rightarrow> string \<Rightarrow> exc + backend_result" where
  "call_ollama cfg w rid =
     (case try_then (w_ollama w) (\<lambda>r.
             if http_status r \<noteq> 200 then
               Inl (RemoteInferenceError (tagged rid (''Ollama returned HTTP '' @ show_int (http_status r)
                      @ '': '' @ take 200 (http_text r))))
             else try_then (http_json r) (ollama_result cfg w)) of
        Inr res \<Rightarrow> Inr res
      | Inl (RemoteInferenceError m) \<Rightarrow> Inl (RemoteInferenceError m)
      | Inl (HttpUnreachable c m) \<Rightarrow>
          Inl (RemoteInferenceError (tagged rid (''Ollama unreachable: '' @ c @ '': '' @ m)))
      | Inl CancelledError \<Rightarrow> Inl CancelledError
      | Inl e \<Rightarrow>
          Inl (RemoteInferenceError
                 (tagged rid (''Ollama unexpected error: '' @ class_name e @ '': '' @ exc_text e))))"

section \<open>The remote backend\<close>

text \<open>The decorator of \<open>_execute_tokenrouter_request\<close>, and one attempt of it.\<close>

fun is_transient_error :: "exc \<Rightarrow> bool" where
  "is_transient_error (TransientRemoteError _) = True"
| "is_transient_error _ = False"

definition remote_retry :: retry_policy where
  "remote_retry =
     \<lparr> stop_after_attempt = 3, wait_multiplier = 1, wait_min = 1, wait_max = 10,
       retry_if_exception = is_transient_error, reraise = True \<rparr>"

definition execute_tokenrouter_request :: "string \<Rightarrow> exc + http_response \<Rightarrow> exc + http_response" where
  "execute_tokenrouter_request rid reply =
     (case reply of
        Inr r \<Rightarrow>
          if http_status r \<in> {429, 502, 503, 504} then
            Inl (TransientRemoteError
                   (tagged rid (''Remote LLM Provider transient HTTP '' @ show_int (http_status r))))
          else Inr r
      | Inl (HttpUnreachable c m) \<Rightarrow>
          Inl (TransientRemoteError (tagged rid (''Remote LLM Provider transient unreachable: '' @ c)))
      | Inl e \<Rightarrow> Inl e)"

definition real_cost :: "config \<Rightarrow> json \<Rightarrow> json \<Rightarrow> exc + flt" where
  "real_cost cfg pt ct =
     try_then (json_times pt (REMOTE_LLM_INPUT_PRICE_PER_TOKEN cfg)) (\<lambda>a.
     try_then (json_times ct (REMOTE_LLM_OUTPUT_PRICE_PER_TOKEN cfg)) (\<lambda>b. Inr (fadd a b)))"

definition choice_text :: "json \<Rightarrow> exc + json" where
  "choice_text choices =
     (if truthy choices then
        try_then (json_first choices) (\<lambda>c.
        try_then (json_get c ''message'' (JObject [])) (\<lambda>m. json_get m ''content'' (JString [])))
      else Inr (JString []))"

definition tokenrouter_result :: "config \<Rightarrow> world \<Rightarrow> json \<Rightarrow> exc + backend_result" where
  "tokenrouter_result cfg w data =
     try_then (json_get data ''usage'' (JObject [])) (\<lambda>usage.
     try_then (json_get usage ''prompt_tokens'' (JInt 0)) (\<lambda>pt.
     try_then (json_get usage ''completion_tokens'' (JInt 0)) (\<lambda>ct.
     try_then (real_cost cfg pt ct) (\<lambda>cost.
     try_then (json_get data ''choices'' (JList [])) (\<lambda>choices.
     try_then (choice_text choices) (\<lambda>txt.
     try_then (json_slice 120 txt) (\<lambda>shown.
     try_then (w_tokens w pt ct) (\<lambda>(p, c).
       Inr \<lparr> br_actual_cost = cost, br_actual_latency_ms = elapsed_ms (w_start w) (w_end w),
             br_prompt_tokens = p, br_completion_tokens = c,
             br_cache_read_tokens = 0, br_cache_write_tokens = 0,
             br_result = ''[TOKENROUTER:'' @ REMOTE_LLM_MODEL cfg @ ''] tokens='' @ json_text (w_repr w) pt @ ''+''
               @ json_text (w_repr w) ct @ '' cost=$'' @ show_fixed 6 cost @ '' | ''
               @ json_text (w_repr w) shown \<rparr>))))))))"

text \<open>The \<open>except\<close> clauses of \<open>_call_tokenrouter\<close>.\<close>

definition except_tokenrouter :: "string \<Rightarrow> exc + backend_result \<Rightarrow> exc + backend_result" where
  "except_tokenrouter rid r =
     (case r of
        Inr res \<Rightarrow> Inr res
      | Inl (RemoteInferenceError m) \<Rightarrow> Inl (RemoteInferenceError m)
      | Inl (TransientRemoteError m) \<Rightarrow>
          Inl (RemoteInferenceError (tagged rid (''Remote LLM Provider failed after retries: '' @ m)))
      | Inl (RetryError m) \<Rightarrow>
          Inl (RemoteInferenceError (tagged rid (''Remote LLM Provider failed after retries: '' @ m)))
      | Inl CancelledError \<Rightarrow> Inl CancelledError
      | Inl e \<Rightarrow>
          Inl (RemoteInferenceError
                 (tagged rid (''Remote LLM Provider unexpected error: '' @ class_name e @ '': '' @ exc_text e))))"

definition call_tokenrouter :: "config \<Rightarrow> world \<Rightarrow> string \<Rightarrow> bool \<Rightarrow> exc + backend_result" where
  "call_tokenrouter cfg w rid should_fail =
     (if should_fail then
        Inl (RemoteInferenceError (tagged rid ''Injected remote failure for rollback test''))
      else
        except_tokenrouter rid
          (try_then (w_retry w remote_retry (\<lambda>k. execute_tokenrouter_request rid (w_attempts w k))) (\<lambda>r.
             if 400 \<le> http_status r then
               Inl (RemoteInferenceError (tagged rid (''Remote LLM Provider HTTP '' @ show_int (http_status r)
                      @ '': '' @ take 200 (http_text r))))
             else try_then (http_json r) (tokenrouter_result cfg w))))"

lemma except_tokenrouter_simps [simp]:
  "except_tokenrouter rid r = Inr res \<longleftrightarrow> r = Inr res"
  "except_tokenrouter rid (Inl CancelledError) = Inl CancelledError"
  "except_tokenrouter rid (Inl (RemoteInferenceError m)) = Inl (RemoteInferenceError m)"
  by (auto simp: except_tokenrouter_def split: sum.splits exc.splits)

lemma except_tokenrouter_Inl:
  "except_tokenrouter rid r = Inl e \<Longrightarrow> e = CancelledError \<or> (\<exists>m. e = RemoteInferenceError m)"
  by (auto simp: except_tokenrouter_def split: sum.splits exc.splits)

section \<open>The mock backends\<close>

definition mock_local_inference :: "config \<Rightarrow> world \<Rightarrow> string \<Rightarrow> exc + backend_result" where
  "mock_local_inference cfg w p =
     try_then (w_sleep w (fdiv (fmul (AVG_LOCAL_LATENCY_MS cfg) (w_jitter w)) 1000)) (\<lambda>t.
       Inr \<lparr> br_actual_cost = 0, br_actual_latency_ms = elapsed_ms (w_mock_start w) t,
             br_prompt_tokens = 0, br_completion_tokens = 0,
             br_cache_read_tokens = 0, br_cache_write_tokens = 0,
             br_result = ''[LOCAL-MOCK] Echo: '' @ take 60 p \<rparr>)"

definition mock_cost :: "config \<Rightarrow> int \<Rightarrow> int \<Rightarrow> int \<Rightarrow> int \<Rightarrow> flt" where
  "mock_cost cfg pt ct cr cw =
     fadd (fadd (fadd (fmul (rnd (of_int pt)) (REMOTE_LLM_INPUT_PRICE_PER_TOKEN cfg))
                      (fmul (rnd (of_int ct)) (REMOTE_LLM_OUTPUT_PRICE_PER_TOKEN cfg)))
                (fmul (rnd (of_int cr)) (REMOTE_LLM_CACHE_READ_PRICE_PER_TOKEN cfg)))
          (fmul (rnd (of_int cw)) (REMOTE_LLM_CACHE_WRITE_PRICE_PER_TOKEN cfg))"

definition mock_remote_inference :: "config \<Rightarrow> world \<Rightarrow> string \<Rightarrow> bool \<Rightarrow> exc + backend_result" where
  "mock_remote_inference cfg w rid should_fail =
     try_then (w_sleep w (fdiv (fmul (AVG_REMOTE_LATENCY_MS cfg) (w_jitter w)) 1000)) (\<lambda>t.
       if should_fail then
         Inl (RemoteInferenceError (''Simulated remote failure for request '' @ rid))
       else
         let pt = w_prompt_tokens w;
             ct = w_completion_tokens w;
             cr = (if 1 / 2 < w_read_coin w then w_read_tokens w else 0);
             cw = (if 1 / 2 < w_write_coin w then w_write_tokens w else 0);
             cost = mock_cost cfg pt ct cr cw
         in Inr \<lparr> br_actual_cost = cost, br_actual_latency_ms = elapsed_ms (w_mock_start w) t,
                  br_prompt_tokens = pt, br_completion_tokens = ct,
                  br_cache_read_tokens = cr, br_cache_write_tokens = cw,
                  br_result = ''[REMOTE-MOCK] tokens='' @ show_int pt @ '' cost=$'' @ show_fixed 5 cost \<rparr>)"

section \<open>The public interface\<close>

definition simulate_local_inference :: "config \<Rightarrow> world \<Rightarrow> string \<Rightarrow> string \<Rightarrow> exc + backend_result" where
  "simulate_local_inference cfg w p rid =
     (if BACKEND_MODE cfg = ''mock'' then mock_local_inference cfg w p
      else case call_ollama cfg w rid of
             Inl (RemoteInferenceError _) \<Rightarrow> mock_local_inference cfg w p
           | r \<Rightarrow> r)"

definition simulate_remote_inference ::
  "config \<Rightarrow> world \<Rightarrow> string \<Rightarrow> bool \<Rightarrow> exc + backend_result" where
  "simulate_remote_inference cfg w rid should_fail =
     (if BACKEND_MODE cfg = ''mock'' then mock_remote_inference cfg w rid should_fail
      else if REMOTE_LLM_API_KEY cfg = [] then mock_remote_inference cfg w rid should_fail
      else call_tokenrouter cfg w rid should_fail)"

text \<open>\<open>"fail_remote" in request_data.prompt.lower()\<close>\<close>

fun contains :: "string \<Rightarrow> string \<Rightarrow> bool" where
  "contains pat [] = (pat = [])"
| "contains pat (c # s) = (take (length pat) (c # s) = pat \<or> contains pat s)"

definition should_fail :: "string \<Rightarrow> bool" where
  "should_fail p = contains ''fail_remote'' (map to_lower p)"

text \<open>What the handler of a suspended request awaits.\<close>

definition backend_call :: "config \<Rightarrow> world \<Rightarrow> handler \<Rightarrow> exc + backend_result" where
  "backend_call cfg w h =
     (case h of
        Awaiting_remote p \<Rightarrow> simulate_remote_inference cfg w (p_id p) (should_fail (prompt (p_req p)))
      | Awaiting_local p \<Rightarrow> simulate_local_inference cfg w (prompt (p_req p)) (p_id p)
      | Awaiting_fallback p \<Rightarrow> simulate_local_inference cfg w (prompt (p_req p)) (p_id p)
      | _ \<Rightarrow> Inl CancelledError)"

section \<open>What the outside promises\<close>

text \<open>
  \<open>asyncio.sleep\<close> raises only when the task is cancelled, and the clock has moved on after
  it.  \<open>randint\<close> stays in its range.  \<open>tenacity\<close> makes attempts until one does not raise
  an exception of the policy, which it returns or raises, or the allowed number is reached: then it raises the
  last exception again, or a \<open>RetryError\<close> without \<open>reraise\<close>.  It sleeps between two
  attempts, and may be cancelled there.
\<close>

definition sleeps_ok :: "world \<Rightarrow> bool" where
  "sleeps_ok w \<longleftrightarrow>
     is_float (w_mock_start w) \<and>
     (\<forall>d. case w_sleep w d of Inl e \<Rightarrow> e = CancelledError | Inr t \<Rightarrow> is_float t \<and> w_mock_start w < t)"

definition draws_ok :: "world \<Rightarrow> bool" where
  "draws_ok w \<longleftrightarrow>
     w_prompt_tokens w \<in> {500..1500} \<and> w_completion_tokens w \<in> {200..800} \<and>
     w_read_tokens w \<in> {500..1500} \<and> w_write_tokens w \<in> {200..1000}"

fun retried :: "retry_policy \<Rightarrow> exc + 'a \<Rightarrow> bool" where
  "retried p (Inl e) = retry_if_exception p e"
| "retried p (Inr _) = False"

definition retry_law :: "(retry_policy \<Rightarrow> (nat \<Rightarrow> exc + 'a) \<Rightarrow> exc + 'a) \<Rightarrow> bool" where
  "retry_law retry \<longleftrightarrow>
     (\<forall>p f. 0 < stop_after_attempt p \<longrightarrow>
        (\<exists>k < stop_after_attempt p. (\<forall>j<k. retried p (f j)) \<and>
           (if \<not> retried p (f k) then retry p f = f k
            else if Suc k < stop_after_attempt p then retry p f = Inl CancelledError
            else if reraise p then retry p f = f k
            else \<exists>m. retry p f = Inl (RetryError m))))"

text \<open>The token counts a provider reports are not negative.\<close>

fun count_ok :: "json \<Rightarrow> bool" where
  "count_ok (JInt n) = (0 \<le> n)"
| "count_ok (JFloat x) = (0 \<le> x)"
| "count_ok _ = True"

definition usage_ok :: "json \<Rightarrow> bool" where
  "usage_ok data \<longleftrightarrow>
     (case json_get data ''usage'' (JObject []) of
        Inr (JObject us) \<Rightarrow> list_all (count_ok \<circ> snd) us
      | _ \<Rightarrow> True)"

definition provider_ok :: "world \<Rightarrow> bool" where
  "provider_ok w \<longleftrightarrow>
     (\<forall>k r data. w_attempts w k = Inr r \<longrightarrow> http_json r = Inr data \<longrightarrow> usage_ok data)"

definition clock_ok :: "world \<Rightarrow> bool" where
  "clock_ok w \<longleftrightarrow> is_float (w_start w) \<and> is_float (w_end w) \<and> w_start w < w_end w"

definition prices_ok :: "config \<Rightarrow> bool" where
  "prices_ok cfg \<longleftrightarrow>
     0 \<le> REMOTE_LLM_INPUT_PRICE_PER_TOKEN cfg \<and> 0 \<le> REMOTE_LLM_OUTPUT_PRICE_PER_TOKEN cfg \<and>
     0 \<le> REMOTE_LLM_CACHE_READ_PRICE_PER_TOKEN cfg \<and> 0 \<le> REMOTE_LLM_CACHE_WRITE_PRICE_PER_TOKEN cfg"

section \<open>Lemmas\<close>

lemma elapsed_ms_pos:
  assumes "is_float t0" "is_float t1" "t0 < t1"
  shows "0 < elapsed_ms t0 t1" and "is_float (elapsed_ms t0 t1)"
proof -
  have "0 < fsub t1 t0" using assms by (intro fsub_pos)
  moreover from this have "fsub t1 t0 \<le> elapsed_ms t0 t1"
    unfolding elapsed_ms_def by (intro fmul_ge) auto
  ultimately show "0 < elapsed_ms t0 t1" by linarith
qed (simp add: elapsed_ms_def)

lemma mock_local_cases:
  assumes "sleeps_ok w"
  shows "mock_local_inference cfg w p = Inl CancelledError \<or>
    (\<exists>res. mock_local_inference cfg w p = Inr res \<and> br_actual_cost res = 0 \<and>
           0 < br_actual_latency_ms res \<and> is_float (br_actual_latency_ms res))"
proof -
  let ?r = "w_sleep w (fdiv (fmul (AVG_LOCAL_LATENCY_MS cfg) (w_jitter w)) 1000)"
  have s: "is_float (w_mock_start w)"
    "case ?r of Inl e \<Rightarrow> e = CancelledError | Inr t \<Rightarrow> is_float t \<and> w_mock_start w < t"
    using assms by (simp_all add: sleeps_ok_def)
  then show ?thesis by (cases ?r) (simp_all add: mock_local_inference_def elapsed_ms_pos)
qed

lemma call_ollama_cases:
  obtains res where "call_ollama cfg w rid = Inr res" "br_actual_cost res = 0"
      "br_actual_latency_ms res = elapsed_ms (w_start w) (w_end w)"
  | m where "call_ollama cfg w rid = Inl (RemoteInferenceError m)"
  | "call_ollama cfg w rid = Inl CancelledError"
proof -
  have r: "br_actual_cost res = 0 \<and> br_actual_latency_ms res = elapsed_ms (w_start w) (w_end w)"
    if "ollama_result cfg w data = Inr res" for res data
    using that by (auto simp: ollama_result_def try_then_Inr)
  show ?thesis
  proof (cases "call_ollama cfg w rid")
    case (Inl e)
    then show ?thesis using that(2,3)
      by (auto simp: call_ollama_def split: sum.splits exc.splits)
  next
    case (Inr res)
    then have "\<exists>data. ollama_result cfg w data = Inr res"
      by (auto simp: call_ollama_def try_then_Inr split: sum.splits exc.splits if_splits)
    with r Inr that(1) show ?thesis by blast
  qed
qed

lemma mock_cost_nonneg:
  "prices_ok cfg \<Longrightarrow> 0 \<le> pt \<Longrightarrow> 0 \<le> ct \<Longrightarrow> 0 \<le> cr \<Longrightarrow> 0 \<le> cw \<Longrightarrow> 0 \<le> mock_cost cfg pt ct cr cw"
  unfolding mock_cost_def prices_ok_def by (intro fops_nonneg rnd_nonneg) simp_all

lemma mock_cost_mono:
  assumes "prices_ok cfg" "0 \<le> pt" "pt \<le> pt'" "0 \<le> ct" "ct \<le> ct'" "0 \<le> cr" "cr \<le> cr'" "0 \<le> cw" "cw \<le> cw'"
  shows "mock_cost cfg pt ct cr cw \<le> mock_cost cfg pt' ct' cr' cw'"
  using assms unfolding mock_cost_def prices_ok_def
  by (intro fadd_mono fmul_mono rnd_mono rnd_nonneg) simp_all

lemma draws_nonneg:
  assumes "draws_ok w"
  shows "0 \<le> w_prompt_tokens w" "0 \<le> w_completion_tokens w" "0 \<le> w_read_tokens w" "0 \<le> w_write_tokens w"
  using assms by (simp_all add: draws_ok_def)

lemma mock_remote_cases:
  assumes "sleeps_ok w"
  obtains "mock_remote_inference cfg w rid fl = Inl CancelledError"
  | m where "fl" "mock_remote_inference cfg w rid fl = Inl (RemoteInferenceError m)"
  | res cr cw where "\<not> fl" "mock_remote_inference cfg w rid fl = Inr res"
      "0 < br_actual_latency_ms res" "is_float (br_actual_latency_ms res)"
      "br_actual_cost res = mock_cost cfg (w_prompt_tokens w) (w_completion_tokens w) cr cw"
      "cr \<in> {0, w_read_tokens w}" "cw \<in> {0, w_write_tokens w}"
proof -
  let ?r = "w_sleep w (fdiv (fmul (AVG_REMOTE_LATENCY_MS cfg) (w_jitter w)) 1000)"
  have s: "is_float (w_mock_start w)"
    "case ?r of Inl e \<Rightarrow> e = CancelledError | Inr t \<Rightarrow> is_float t \<and> w_mock_start w < t"
    using assms by (simp_all add: sleeps_ok_def)
  show ?thesis
  proof (cases ?r)
    case (Inl e)
    with s that(1) show ?thesis by (simp add: mock_remote_inference_def)
  next
    case (Inr t)
    with s have t: "0 < elapsed_ms (w_mock_start w) t" "is_float (elapsed_ms (w_mock_start w) t)"
      by (simp_all add: elapsed_ms_pos)
    show ?thesis
    proof (cases fl)
      case True
      with Inr that(2) show ?thesis by (simp add: mock_remote_inference_def)
    next
      case False
      have "\<exists>res. mock_remote_inference cfg w rid fl = Inr res \<and>
          br_actual_latency_ms res = elapsed_ms (w_mock_start w) t \<and>
          br_actual_cost res = mock_cost cfg (w_prompt_tokens w) (w_completion_tokens w)
            (if 1 / 2 < w_read_coin w then w_read_tokens w else 0)
            (if 1 / 2 < w_write_coin w then w_write_tokens w else 0)"
        using Inr False by (simp add: mock_remote_inference_def Let_def)
      then obtain res where "mock_remote_inference cfg w rid fl = Inr res"
          "br_actual_latency_ms res = elapsed_ms (w_mock_start w) t"
          "br_actual_cost res = mock_cost cfg (w_prompt_tokens w) (w_completion_tokens w)
            (if 1 / 2 < w_read_coin w then w_read_tokens w else 0)
            (if 1 / 2 < w_write_coin w then w_write_tokens w else 0)"
        by blast
      with t that(3) [OF False, of res] show ?thesis by (simp split: if_splits)
    qed
  qed
qed

lemma call_tokenrouter_cases:
  obtains res r data where "\<not> fl" "call_tokenrouter cfg w rid fl = Inr res"
      "w_retry w remote_retry (\<lambda>k. execute_tokenrouter_request rid (w_attempts w k)) = Inr r"
      "http_json r = Inr data" "tokenrouter_result cfg w data = Inr res"
  | m where "call_tokenrouter cfg w rid fl = Inl (RemoteInferenceError m)"
  | "\<not> fl" "call_tokenrouter cfg w rid fl = Inl CancelledError"
proof (cases "call_tokenrouter cfg w rid fl")
  case (Inl e)
  then show ?thesis using that(2,3)
    by (auto simp: call_tokenrouter_def split: if_splits dest!: except_tokenrouter_Inl)
next
  case (Inr res)
  then have "\<not> fl \<and> (\<exists>r data. w_retry w remote_retry (\<lambda>k. execute_tokenrouter_request rid (w_attempts w k)) = Inr r \<and>
      http_json r = Inr data \<and> tokenrouter_result cfg w data = Inr res)"
    by (auto simp: call_tokenrouter_def try_then_Inr split: if_splits)
  with Inr that(1) show ?thesis by blast
qed

lemma json_get_usage:
  assumes "usage_ok data" "json_get data ''usage'' (JObject []) = Inr usage" "json_get usage k (JInt 0) = Inr v"
  shows "count_ok v"
proof (cases usage)
  case (JObject us)
  with assms have "list_all (count_ok \<circ> snd) us" by (simp add: usage_ok_def)
  with JObject assms(3) show ?thesis
    by (auto simp: list_all_iff split: option.splits dest!: map_of_SomeD)
qed (use assms(3) in auto)

lemma json_times_nonneg: "json_times v x = Inr y \<Longrightarrow> count_ok v \<Longrightarrow> 0 \<le> x \<Longrightarrow> 0 \<le> y"
  by (cases v) (auto intro!: fops_nonneg)

lemma tokenrouter_result_ok:
  assumes "tokenrouter_result cfg w data = Inr res" "prices_ok cfg" "usage_ok data"
  shows "0 \<le> br_actual_cost res \<and> br_actual_latency_ms res = elapsed_ms (w_start w) (w_end w)"
proof -
  obtain usage pt ct a b where
    u: "json_get data ''usage'' (JObject []) = Inr usage"
      "json_get usage ''prompt_tokens'' (JInt 0) = Inr pt"
      "json_get usage ''completion_tokens'' (JInt 0) = Inr ct"
    and ab: "json_times pt (REMOTE_LLM_INPUT_PRICE_PER_TOKEN cfg) = Inr a"
      "json_times ct (REMOTE_LLM_OUTPUT_PRICE_PER_TOKEN cfg) = Inr b"
    and res: "br_actual_cost res = fadd a b" "br_actual_latency_ms res = elapsed_ms (w_start w) (w_end w)"
    using assms(1) by (auto simp: tokenrouter_result_def real_cost_def try_then_Inr)
  have "count_ok pt" "count_ok ct" using json_get_usage assms(3) u by blast+
  with ab assms(2) have "0 \<le> a" "0 \<le> b" by (auto simp: prices_ok_def intro: json_times_nonneg)
  with res show ?thesis by (auto intro: fops_nonneg)
qed

lemma execute_Inr: "execute_tokenrouter_request rid reply = Inr r \<Longrightarrow> reply = Inr r"
  by (auto simp: execute_tokenrouter_request_def split: sum.splits exc.splits if_splits)

text \<open>The law at the policy of the code.\<close>

lemma retry_law_remote:
  assumes "retry_law retry"
  shows "\<exists>k<3. (\<forall>j<k. retried remote_retry (f j)) \<and>
    (if retried remote_retry (f k) \<and> k < 2 then retry remote_retry f = Inl CancelledError else retry remote_retry f = f k)"
proof -
  have "0 < stop_after_attempt remote_retry" by (simp add: remote_retry_def)
  then obtain k where "k < stop_after_attempt remote_retry" "\<forall>j<k. retried remote_retry (f j)"
    "if \<not> retried remote_retry (f k) then retry remote_retry f = f k
     else if Suc k < stop_after_attempt remote_retry then retry remote_retry f = Inl CancelledError
     else if reraise remote_retry then retry remote_retry f = f k
     else \<exists>m. retry remote_retry f = Inl (RetryError m)"
    using assms unfolding retry_law_def by metis
  then show ?thesis by (intro exI [of _ k]) (auto simp: remote_retry_def split: if_splits)
qed

lemma retry_Inr:
  assumes "retry_law retry" "retry remote_retry (\<lambda>k. execute_tokenrouter_request rid (att k)) = Inr r"
  shows "\<exists>k. att k = Inr r"
proof -
  obtain k where "if retried remote_retry (execute_tokenrouter_request rid (att k)) \<and> k < 2 then Inr r = Inl CancelledError
      else Inr r = execute_tokenrouter_request rid (att k)"
    using retry_law_remote [OF assms(1), of "\<lambda>k. execute_tokenrouter_request rid (att k)"] unfolding assms(2) by blast
  then show ?thesis using execute_Inr by (metis sum.distinct(1))
qed

section \<open>A concrete world\<close>

text \<open>Ollama is down; the provider answers; the random numbers lie in their ranges.\<close>

fun retry_loop :: "retry_policy \<Rightarrow> nat \<Rightarrow> nat \<Rightarrow> (nat \<Rightarrow> exc + 'a) \<Rightarrow> exc + 'a" where
  "retry_loop p 0 k f = Inl (RetryError [])"
| "retry_loop p (Suc n) k f =
     (if \<not> retried p (f k) then f k
      else if n \<noteq> 0 then retry_loop p n (Suc k) f
      else if reraise p then f k else Inl (RetryError []))"

definition patient_retry :: "retry_policy \<Rightarrow> (nat \<Rightarrow> exc + 'a) \<Rightarrow> exc + 'a" where
  "patient_retry p f = retry_loop p (stop_after_attempt p) 0 f"

lemma retry_loop_law:
  "0 < n \<Longrightarrow> \<exists>i<n. (\<forall>j<i. retried p (f (k + j))) \<and>
     (if \<not> retried p (f (k + i)) then retry_loop p n k f = f (k + i)
      else Suc i = n \<and> retry_loop p n k f = (if reraise p then f (k + i) else Inl (RetryError [])))"
proof (induction n arbitrary: k)
  case (Suc n)
  show ?case
  proof (cases "retried p (f k) \<and> n \<noteq> 0")
    case True
    with Suc.IH [of "Suc k"] obtain i where i: "i < n" "\<forall>j<i. retried p (f (Suc k + j))"
      "if \<not> retried p (f (Suc k + i)) then retry_loop p n (Suc k) f = f (Suc k + i)
       else Suc i = n \<and> retry_loop p n (Suc k) f = (if reraise p then f (Suc k + i) else Inl (RetryError []))"
      by auto
    have "retried p (f (k + j))" if "j < Suc i" for j
      using that i(2) True by (cases j) auto
    with i True show ?thesis by (intro exI [of _ "Suc i"]) (auto split: if_splits)
  next
    case False
    then show ?thesis by (intro exI [of _ 0]) auto
  qed
qed simp

lemma patient_retry_law: "retry_law patient_retry"
  unfolding retry_law_def
proof (intro allI impI)
  fix p :: retry_policy and f :: "nat \<Rightarrow> exc + 'a"
  assume "0 < stop_after_attempt p"
  from retry_loop_law [OF this, of p f 0] obtain i where i: "i < stop_after_attempt p" "\<forall>j<i. retried p (f j)"
    "if \<not> retried p (f i) then patient_retry p f = f i
     else Suc i = stop_after_attempt p \<and> patient_retry p f = (if reraise p then f i else Inl (RetryError []))"
    by (auto simp: patient_retry_def)
  then show "\<exists>k<stop_after_attempt p. (\<forall>j<k. retried p (f j)) \<and>
           (if \<not> retried p (f k) then patient_retry p f = f k
            else if Suc k < stop_after_attempt p then patient_retry p f = Inl CancelledError
            else if reraise p then patient_retry p f = f k
            else \<exists>m. patient_retry p f = Inl (RetryError m))"
    by (intro exI [of _ i]) (auto split: if_splits)
qed

definition sample_data :: json where
  "sample_data =
     JObject [(''usage'', JObject [(''prompt_tokens'', JInt 1000), (''completion_tokens'', JInt 200)]),
              (''choices'', JList [JObject [(''message'', JObject [(''content'', JString ''hi'')])]])]"

definition sample_world :: world where
  "sample_world =
     \<lparr> w_start = 0, w_end = 1, w_ollama = Inl (HttpUnreachable ''ConnectError'' ''refused''),
       w_attempts = (\<lambda>_. Inr \<lparr> http_status = 200, http_text = [], http_json = Inr sample_data \<rparr>),
       w_retry = patient_retry,
       w_tokens = (\<lambda>p c. case (p, c) of (JInt a, JInt b) \<Rightarrow> Inr (a, b)
                         | _ \<Rightarrow> Inl (OtherException ''ValidationError'' [])),
       w_repr = (\<lambda>_. []), w_mock_start = 0, w_sleep = (\<lambda>_. Inr 1), w_jitter = 1,
       w_prompt_tokens = 1000, w_completion_tokens = 500, w_read_coin = 3 / 4, w_read_tokens = 600,
       w_write_coin = 1 / 4, w_write_tokens = 300 \<rparr>"

definition sample_real :: config where
  "sample_real = default_config\<lparr>REMOTE_LLM_API_KEY := ''key''\<rparr>"

lemma sample_world_ok:
  "sleeps_ok sample_world" "draws_ok sample_world" "clock_ok sample_world" "provider_ok sample_world"
  "retry_law (w_retry sample_world)"
  by (simp_all add: sample_world_def sleeps_ok_def draws_ok_def clock_ok_def provider_ok_def patient_retry_law
      usage_ok_def sample_data_def)

lemma sample_prices: "prices_ok sample_real"
  by (simp add: prices_ok_def sample_real_def default_config_def fdiv_def)

section \<open>Errors and results\<close>

text \<open>
  The local backend cannot fail.  Whatever Ollama answers (nothing, an error status, a body that is
  not JSON, fields of the wrong type), \<open>simulate_local_inference\<close> raises nothing but
  \<open>CancelledError\<close>, and its result costs nothing.
\<close>

theorem local_backend_total:
  assumes "sleeps_ok w"
  shows "simulate_local_inference cfg w p rid = Inl CancelledError \<or>
         (\<exists>res. simulate_local_inference cfg w p rid = Inr res \<and> br_actual_cost res = 0)"
  using mock_local_cases [OF assms, of cfg p]
  by (rule_tac call_ollama_cases [of cfg w rid]) (auto simp: simulate_local_inference_def)

theorem local_backend_total_witness:
  "\<exists>res. simulate_local_inference sample_real sample_world ''hello'' ''r1'' = Inr res \<and> br_actual_cost res = 0"
  using local_backend_total [OF sample_world_ok(1), of sample_real "''hello''" "''r1''"]
  by (simp add: simulate_local_inference_def call_ollama_def mock_local_inference_def sample_world_def
      sample_real_def default_config_def)

text \<open>
  The remote backend converts its errors.  Whatever the network, \<open>tenacity\<close> and the body of
  the answer do, \<open>simulate_remote_inference\<close> raises only \<open>RemoteInferenceError\<close>, for
  which the handler has a rollback path, or \<open>CancelledError\<close>; an injected failure always raises.
\<close>

theorem remote_errors_converted:
  assumes "sleeps_ok w"
  shows "case simulate_remote_inference cfg w rid fl of
           Inr res \<Rightarrow> \<not> fl
         | Inl e \<Rightarrow> e = CancelledError \<or> (\<exists>m. e = RemoteInferenceError m)"
proof -
  have "case mock_remote_inference cfg w rid fl of
           Inr res \<Rightarrow> \<not> fl | Inl e \<Rightarrow> e = CancelledError \<or> (\<exists>m. e = RemoteInferenceError m)"
    by (rule mock_remote_cases [OF assms, of cfg rid fl]) simp_all
  moreover have "case call_tokenrouter cfg w rid fl of
           Inr res \<Rightarrow> \<not> fl | Inl e \<Rightarrow> e = CancelledError \<or> (\<exists>m. e = RemoteInferenceError m)"
    by (rule call_tokenrouter_cases [of fl cfg w rid]) simp_all
  ultimately show ?thesis by (simp add: simulate_remote_inference_def)
qed

theorem remote_errors_converted_witness:
  "\<exists>m. simulate_remote_inference sample_real sample_world ''r1'' True = Inl (RemoteInferenceError m)"
  using remote_errors_converted [OF sample_world_ok(1), where cfg = sample_real and rid = "''r1''" and fl = True]
  by (simp add: simulate_remote_inference_def call_tokenrouter_def sample_real_def default_config_def)

section \<open>The service with its own backends\<close>

lemma backend_call_ok:
  assumes "prices_ok cfg" and "clock_ok w" and "sleeps_ok w" and "draws_ok w" and "provider_ok w"
    and "retry_law (w_retry w)"
  shows "result_ok (backend_call cfg w h)"
proof -
  note el = elapsed_ms_pos [of "w_start w" "w_end w"]
  have ok: "0 < elapsed_ms (w_start w) (w_end w)" "is_float (elapsed_ms (w_start w) (w_end w))"
    using assms(2) el by (simp_all add: clock_ok_def)
  have mock_local: "result_ok (mock_local_inference cfg w p)" for p
    using mock_local_cases [OF assms(3), of cfg p] by (auto simp: result_ok_def)
  have local: "result_ok (simulate_local_inference cfg w p rid)" for p rid
    using mock_local [of p] ok
    by (rule_tac call_ollama_cases [of cfg w rid]) (auto simp: simulate_local_inference_def result_ok_def)
  have mock_remote: "result_ok (mock_remote_inference cfg w rid fl)" for rid fl
    using draws_nonneg [OF assms(4)] mock_cost_nonneg [OF assms(1)]
    by (rule_tac mock_remote_cases [OF assms(3), of cfg rid fl]) (auto simp: result_ok_def)
  have call: "result_ok (call_tokenrouter cfg w rid fl)" for rid fl
  proof (rule call_tokenrouter_cases [of fl cfg w rid])
    fix res r data
    assume c: "call_tokenrouter cfg w rid fl = Inr res" and d: "http_json r = Inr data"
      "tokenrouter_result cfg w data = Inr res"
      and "w_retry w remote_retry (\<lambda>k. execute_tokenrouter_request rid (w_attempts w k)) = Inr r"
    then have "\<exists>k. w_attempts w k = Inr r" by (intro retry_Inr [OF assms(6)])
    then have "usage_ok data" using assms(5) d(1) by (auto simp: provider_ok_def)
    with tokenrouter_result_ok [OF d(2) assms(1)] c ok show ?thesis by (simp add: result_ok_def)
  qed (simp_all add: result_ok_def)
  show ?thesis
    using local mock_remote call
    by (cases h) (simp_all add: backend_call_def simulate_remote_inference_def result_ok_def)
qed

definition world_ok :: "world \<Rightarrow> bool" where
  "world_ok w \<longleftrightarrow> clock_ok w \<and> sleeps_ok w \<and> draws_ok w \<and> provider_ok w \<and> retry_law (w_retry w)"

interpretation own: backend_contract "\<lambda>(cfg, w). backend_call cfg w" "\<lambda>(cfg, w). prices_ok cfg \<and> world_ok w"
  by unfold_locales (auto simp: world_ok_def intro: backend_call_ok)

fun is_resume_event :: "sys_event \<Rightarrow> bool" where
  "is_resume_event (Resume i clock out) = True"
| "is_resume_event _ = False"

text \<open>
  The deployed service: a suspended request is resumed only by its own backend call, in some world that
  behaves as documented.
\<close>

inductive deployed :: "config \<Rightarrow> system \<Rightarrow> bool" for cfg where
  deployed_start: "startup cfg health = Inr ap \<Longrightarrow> deployed cfg \<lparr> sy_app = ap, sy_handlers = [] \<rparr>"
| deployed_event: "deployed cfg sy \<Longrightarrow> \<not> is_resume_event ev \<Longrightarrow> event_ok sy ev \<Longrightarrow> deployed cfg (sys_step cfg sy ev)"
| deployed_call: "deployed cfg sy \<Longrightarrow> i < length (sy_handlers sy) \<Longrightarrow> world_ok w \<Longrightarrow>
    deployed cfg (sys_step cfg sy (Resume i clock (backend_call cfg w (sy_handlers sy ! i))))"

lemma sample_deployed:
  "deployed sample_config (sys_step sample_config (sample_service QUALITY)
     (Resume 0 (\<lambda>_. 0) (backend_call sample_config sample_world (sy_handlers (sample_service QUALITY) ! 0))))"
proof -
  have "deployed sample_config (sample_service QUALITY)"
    unfolding sample_service_def
    by (rule deployed_event [OF deployed_start [OF sample_startup]]) (simp_all add: sample_manager_def)
  moreover have "world_ok sample_world" using sample_world_ok by (simp add: world_ok_def)
  ultimately show ?thesis using sample_remote by (intro deployed_call) simp_all
qed

lemma sample_mock_prices: "prices_ok sample_config"
  by (simp add: prices_ok_def sample_config_def default_config_def fdiv_def)

text \<open>
  C10: The backends keep the contract the service relies on.  Under the documented behaviour of the
  network, the clock, the random numbers and the retry library, what a backend call returns or raises
  satisfies \<open>result_ok\<close> (a non-negative cost, a positive measured latency, none of the two errors that
  only \<open>commit\<close> may raise), so every state of the deployed service is a reachable state of the service,
  and what is proved of those holds of it.
\<close>

theorem deployed_refines_service:
  assumes "deployed cfg sy" and "prices_ok cfg"
  shows "reach cfg sy"
  using assms(1)
proof induction
  case (deployed_start health ap)
  then show ?case by (rule reach_start)
next
  case (deployed_event sy ev)
  then show ?case by (intro reach_step)
next
  case (deployed_call sy i w clock)
  with assms(2) own.call_reach [of cfg sy "(cfg, w)" i clock] show ?case by simp
qed

theorem deployed_refines_service_witness:
  "reach sample_config (sys_step sample_config (sample_service QUALITY)
     (Resume 0 (\<lambda>_. 0) (backend_call sample_config sample_world (sy_handlers (sample_service QUALITY) ! 0))))"
  by (rule deployed_refines_service [OF sample_deployed sample_mock_prices])

section \<open>Costs\<close>

definition prices :: "config \<Rightarrow> flt list" where
  "prices cfg =
     [REMOTE_LLM_INPUT_PRICE_PER_TOKEN cfg, REMOTE_LLM_OUTPUT_PRICE_PER_TOKEN cfg,
      REMOTE_LLM_CACHE_READ_PRICE_PER_TOKEN cfg, REMOTE_LLM_CACHE_WRITE_PRICE_PER_TOKEN cfg]"

text \<open>The shipped prices, bounded by powers of two, with which the sum below is exact.\<close>

lemma default_prices_le:
  "REMOTE_LLM_INPUT_PRICE_PER_TOKEN default_config \<le> 1 / 2 ^ 16"
  "REMOTE_LLM_OUTPUT_PRICE_PER_TOKEN default_config \<le> 1 / 2 ^ 14"
  "REMOTE_LLM_CACHE_READ_PRICE_PER_TOKEN default_config \<le> 1 / 2 ^ 19"
  "REMOTE_LLM_CACHE_WRITE_PRICE_PER_TOKEN default_config \<le> 1 / 2 ^ 16"
  by (simp_all only: default_config_def config.simps) code_simp+

lemma default_prices_nonneg: "prices_ok default_config"
  by (simp add: prices_ok_def default_config_def fdiv_def)

lemma default_max_cost: "mock_cost default_config 1500 800 1500 1000 \<le> 9 / 100"
proof -
  have exact: "rnd (375 / 16384) = 375 / 16384" "rnd (25 / 512) = 25 / 512" "rnd (375 / 131072) = 375 / 131072"
    "rnd (125 / 8192) = 125 / 8192" "rnd (1175 / 16384) = 1175 / 16384" "rnd (9775 / 131072) = 9775 / 131072"
    "rnd (11775 / 131072) = 11775 / 131072"
    using rnd_dyadic [of 375 14] rnd_dyadic [of 25 9] rnd_dyadic [of 375 17] rnd_dyadic [of 125 13]
      rnd_dyadic [of 1175 14] rnd_dyadic [of 9775 17] rnd_dyadic [of 11775 17]
    by simp_all
  have "mock_cost default_config 1500 800 1500 1000 \<le>
      fadd (fadd (fadd (fmul 1500 (1 / 2 ^ 16)) (fmul 800 (1 / 2 ^ 14))) (fmul 1500 (1 / 2 ^ 19))) (fmul 1000 (1 / 2 ^ 16))"
    using default_prices_nonneg default_prices_le unfolding mock_cost_def prices_ok_def
    by (intro fadd_mono fmul_mono) simp_all
  also have "\<dots> = 47100 / 2 ^ 19"
    by (simp add: float_eval exact)
  finally show ?thesis by simp
qed

lemma default_prices_ok: "prices cfg = prices default_config \<Longrightarrow> prices_ok cfg"
  using default_prices_nonneg by (simp add: prices_def prices_ok_def)

lemma mock_cost_prices: "prices cfg = prices cfg' \<Longrightarrow> mock_cost cfg = mock_cost cfg'"
  by (intro ext) (simp add: prices_def mock_cost_def)

lemma mock_cost_bound:
  assumes "prices cfg = prices default_config" "draws_ok w"
    and "cr \<in> {0, w_read_tokens w}" "cw \<in> {0, w_write_tokens w}"
  shows "0 \<le> mock_cost cfg (w_prompt_tokens w) (w_completion_tokens w) cr cw"
    and "mock_cost cfg (w_prompt_tokens w) (w_completion_tokens w) cr cw \<le> 9 / 100"
proof -
  note ok = default_prices_ok [OF assms(1)]
  have r: "0 \<le> cr" "cr \<le> 1500" "0 \<le> cw" "cw \<le> 1000"
    "0 \<le> w_prompt_tokens w" "w_prompt_tokens w \<le> 1500" "0 \<le> w_completion_tokens w" "w_completion_tokens w \<le> 800"
    using assms(2-4) by (auto simp: draws_ok_def)
  show "0 \<le> mock_cost cfg (w_prompt_tokens w) (w_completion_tokens w) cr cw"
    using r by (intro mock_cost_nonneg ok)
  have "mock_cost cfg (w_prompt_tokens w) (w_completion_tokens w) cr cw \<le> mock_cost cfg 1500 800 1500 1000"
    using r by (intro mock_cost_mono ok)
  also have "\<dots> \<le> 9 / 100" using default_max_cost mock_cost_prices [OF assms(1)] by simp
  finally show "mock_cost cfg (w_prompt_tokens w) (w_completion_tokens w) cr cw \<le> 9 / 100" .
qed

text \<open>
  With the shipped prices a mock remote call costs at most 0.09, less than what is reserved
  for it, so committing it never fails with \<open>ActualCostExceededReservationError\<close>.
\<close>

theorem mock_cost_within_reservation:
  assumes "prices cfg = prices default_config" and "COST_PER_REMOTE_REQUEST cfg = COST_PER_REMOTE_REQUEST default_config"
    and "sleeps_ok w" and "draws_ok w" and "BACKEND_MODE cfg = ''mock'' \<or> REMOTE_LLM_API_KEY cfg = []"
    and "simulate_remote_inference cfg w rid fl = Inr res"
    and "reserved_cost (objects b ! ref) = COST_PER_REMOTE_REQUEST cfg"
    and "map_of (active_reservations b) (res_id (objects b ! ref)) = Some ref"
  shows "0 \<le> br_actual_cost res \<and> br_actual_cost res \<le> 9 / 100 \<and>
         fst (snd (reservation_commit ref (br_actual_cost res) lat b)) \<noteq> Inl (ActualCostExceeded x y)"
proof -
  have "mock_remote_inference cfg w rid fl = Inr res"
    using assms(5,6) by (auto simp: simulate_remote_inference_def split: if_splits)
  then have c: "0 \<le> br_actual_cost res" "br_actual_cost res \<le> 9 / 100"
    using mock_cost_bound [OF assms(1,4)]
    by (rule_tac mock_remote_cases [OF assms(3), of cfg rid fl]; force)+
  have "9 / 100 \<le> COST_PER_REMOTE_REQUEST default_config"
    by (simp only: default_config_def config.simps) code_simp
  moreover have "is_float (COST_PER_REMOTE_REQUEST default_config)" by (simp add: default_config_def)
  ultimately have "br_actual_cost res \<le> fadd (reserved_cost (objects b ! ref)) eps9"
    using c(2) assms(2,7) by (intro le_fadd_eps9) auto
  with c assms(8) show ?thesis
    by (auto simp: reservation_commit_def commit_def Let_def not_less [symmetric])
qed

theorem mock_cost_within_reservation_witness:
  "\<exists>res. simulate_remote_inference default_config sample_world ''r1'' False = Inr res \<and> br_actual_cost res \<le> 9 / 100"
proof -
  let ?b = "with_reservation 3 ''b'' (COST_PER_REMOTE_REQUEST default_config) 800 (sample_manager 1000)"
  have b: "objects ?b ! 0 = \<lparr> reserved_cost = COST_PER_REMOTE_REQUEST default_config, reserved_latency_ms = 800,
      ttl_seconds = reservation_ttl_seconds (sample_manager 1000), res_id = ''b'', created_at = 3, res_state = Pending \<rparr>"
    "map_of (active_reservations ?b) ''b'' = Some 0"
    by (simp_all add: with_reservation_def sample_manager_def)
  obtain res where r: "simulate_remote_inference default_config sample_world ''r1'' False = Inr res"
    by (simp add: simulate_remote_inference_def mock_remote_inference_def default_config_def sample_world_def Let_def)
  with mock_cost_within_reservation [OF refl refl sample_world_ok(1,2) _ r, of ?b 0] b
  show ?thesis by (auto simp: default_config_def)
qed

text \<open>Which replies call for another attempt, and what the error of the last one says.\<close>

fun worth_retrying :: "exc + http_response \<Rightarrow> bool" where
  "worth_retrying (Inr r) = (http_status r = 429 \<or> http_status r = 502 \<or> http_status r = 503 \<or> http_status r = 504)"
| "worth_retrying (Inl (HttpUnreachable c m)) = True"
| "worth_retrying (Inl e) = is_transient_error e"

fun last_error :: "string \<Rightarrow> exc + http_response \<Rightarrow> string" where
  "last_error rid (Inr r) = tagged rid (''Remote LLM Provider transient HTTP '' @ show_int (http_status r))"
| "last_error rid (Inl (HttpUnreachable c m)) = tagged rid (''Remote LLM Provider transient unreachable: '' @ c)"
| "last_error rid (Inl e) = exc_text e"

lemma retry_transient: "retry_if_exception remote_retry (TransientRemoteError m)"
  by (simp add: remote_retry_def)

lemma execute_retried [simp]:
  "retried remote_retry (execute_tokenrouter_request rid reply) = worth_retrying reply"
  by (cases reply; rename_tac x; case_tac x) (auto simp: execute_tokenrouter_request_def remote_retry_def)

lemma execute_failed:
  "worth_retrying reply \<Longrightarrow> execute_tokenrouter_request rid reply = Inl (TransientRemoteError (last_error rid reply))"
  by (cases reply; rename_tac x; case_tac x) (auto simp: execute_tokenrouter_request_def)

lemma execute_passed: "\<not> worth_retrying reply \<Longrightarrow> execute_tokenrouter_request rid reply = reply"
  by (cases reply; rename_tac x; case_tac x) (auto simp: execute_tokenrouter_request_def)

lemma except_tokenrouter_raises:
  "e \<noteq> CancelledError \<Longrightarrow> \<exists>m. except_tokenrouter rid (Inl e) = Inl (RemoteInferenceError m)"
  by (cases e) (simp_all add: except_tokenrouter_def)

text \<open>
  C22: The remote call makes at most three attempts.  An unreachable provider and the statuses 429, 502, 503
  and 504 lead to another attempt, and nothing else does.  The first other reply decides: a status from 400 on
  is raised with its code and text, a body is turned into the result, and what goes wrong with either is raised
  as \<open>RemoteInferenceError\<close>.  When the third attempt fails as well, the error names its failure.  Only
  the sleep after a failed first or second attempt can be cancelled besides the attempts themselves.
\<close>

theorem remote_retries:
  assumes "retry_law (w_retry w)" and "out = call_tokenrouter cfg w rid False"
  shows "\<exists>k<3. (\<forall>j<k. worth_retrying (w_attempts w j)) \<and>
    (if worth_retrying (w_attempts w k)
     then if k < 2 then out = Inl CancelledError
          else out = Inl (RemoteInferenceError
                 (tagged rid (''Remote LLM Provider failed after retries: '' @ last_error rid (w_attempts w k))))
     else case w_attempts w k of
            Inl e \<Rightarrow> if e = CancelledError then out = Inl e else \<exists>m. out = Inl (RemoteInferenceError m)
          | Inr r \<Rightarrow>
              if 400 \<le> http_status r then
                out = Inl (RemoteInferenceError (tagged rid (''Remote LLM Provider HTTP '' @ show_int (http_status r)
                        @ '': '' @ take 200 (http_text r))))
              else case try_then (http_json r) (tokenrouter_result cfg w) of
                     Inr res \<Rightarrow> out = Inr res
                   | Inl e \<Rightarrow> if e = CancelledError then out = Inl e else \<exists>m. out = Inl (RemoteInferenceError m))"
proof -
  let ?f = "\<lambda>k. execute_tokenrouter_request rid (w_attempts w k)"
  obtain k where k: "k < 3" "\<forall>j<k. retried remote_retry (?f j)"
    and r: "if retried remote_retry (?f k) \<and> k < 2 then w_retry w remote_retry ?f = Inl CancelledError
            else w_retry w remote_retry ?f = ?f k"
    using retry_law_remote [OF assms(1), of ?f] by blast
  show ?thesis
  proof (intro exI [of _ k] conjI k(1) allI impI)
    show "worth_retrying (w_attempts w j)" if "j < k" for j using k(2) that by simp
    show "if worth_retrying (w_attempts w k)
     then if k < 2 then out = Inl CancelledError
          else out = Inl (RemoteInferenceError
                 (tagged rid (''Remote LLM Provider failed after retries: '' @ last_error rid (w_attempts w k))))
     else case w_attempts w k of
            Inl e \<Rightarrow> if e = CancelledError then out = Inl e else \<exists>m. out = Inl (RemoteInferenceError m)
          | Inr r \<Rightarrow>
              if 400 \<le> http_status r then
                out = Inl (RemoteInferenceError (tagged rid (''Remote LLM Provider HTTP '' @ show_int (http_status r)
                        @ '': '' @ take 200 (http_text r))))
              else case try_then (http_json r) (tokenrouter_result cfg w) of
                     Inr res \<Rightarrow> out = Inr res
                   | Inl e \<Rightarrow> if e = CancelledError then out = Inl e else \<exists>m. out = Inl (RemoteInferenceError m)"
    proof (cases "worth_retrying (w_attempts w k)")
      case True
      with r execute_failed [OF True, of rid] show ?thesis
        by (simp add: assms(2) call_tokenrouter_def except_tokenrouter_def retry_transient split: if_splits)
    next
      case False
      with r have "w_retry w remote_retry ?f = ?f k" by simp
      with execute_passed [OF False, of rid] have "w_retry w remote_retry ?f = w_attempts w k" by simp
      then have out: "out = except_tokenrouter rid (try_then (w_attempts w k) (\<lambda>r.
             if 400 \<le> http_status r then
               Inl (RemoteInferenceError (tagged rid (''Remote LLM Provider HTTP '' @ show_int (http_status r)
                      @ '': '' @ take 200 (http_text r))))
             else try_then (http_json r) (tokenrouter_result cfg w)))"
        by (simp add: assms(2) call_tokenrouter_def)
      with False except_tokenrouter_raises [of _ rid] show ?thesis
        by (cases "w_attempts w k") (auto split: sum.splits)
    qed
  qed
qed

theorem remote_retries_witness:
  "\<exists>res. call_tokenrouter sample_real
       (sample_world\<lparr>w_attempts := (\<lambda>k. if k = 0 then Inr \<lparr> http_status = 503, http_text = [], http_json = Inr JNull \<rparr>
          else if k = 1 then Inl (HttpUnreachable ''ReadTimeout'' []) else w_attempts sample_world k)\<rparr>) ''r1'' False = Inr res \<and>
     br_prompt_tokens res = 1000"
proof -
  let ?w = "sample_world\<lparr>w_attempts := (\<lambda>k. if k = 0 then Inr \<lparr> http_status = 503, http_text = [], http_json = Inr JNull \<rparr>
          else if k = 1 then Inl (HttpUnreachable ''ReadTimeout'' []) else w_attempts sample_world k)\<rparr>"
  have "retry_law (w_retry ?w)" using sample_world_ok(5) by simp
  from remote_retries [OF this refl, of sample_real "''r1''"] show ?thesis
    by (simp add: call_tokenrouter_def sample_world_def patient_retry_def remote_retry_def numeral_3_eq_3
        execute_tokenrouter_request_def tokenrouter_result_def sample_data_def real_cost_def choice_text_def cong: if_cong)
qed

section \<open>Failures of the remote call, end to end\<close>

definition spent :: "app \<Rightarrow> flt list" where
  "spent ap = map (cumulative_remote_cost \<circ> c_bm) (ap_gens ap)"

lemma spent_on_obs [simp]: "spent (on_obs f ap) = spent ap"
  by (simp add: spent_def)

lemma spent_upd_gen [simp]:
  assumes "cumulative_remote_cost (c_bm (f (ap_gens ap ! g))) = cumulative_remote_cost (gen_bm ap g)"
  shows "spent (upd_gen g f ap) = spent ap"
proof -
  have "spent (upd_gen g f ap) = (spent ap)[g := cumulative_remote_cost (gen_bm ap g)]"
    using assms by (simp add: spent_def map_update)
  also have "\<dots> = spent ap"
    by (cases "g < length (ap_gens ap)") (simp_all add: spent_def list_update_same_conv list_update_beyond)
  finally show ?thesis .
qed

lemma spent_on_bm:
  assumes "f (gen_bm ap g) = (b, x, calls)" "cumulative_remote_cost b = cumulative_remote_cost (gen_bm ap g)"
    and "on_bm clock g f ap = (ap', r)"
  shows "spent ap' = spent ap"
  using assms by (auto simp: on_bm_def)

lemma rollback_cost:
  "rollback rid b = (b', r, calls) \<Longrightarrow> cumulative_remote_cost b' = cumulative_remote_cost b"
  by (auto simp: rollback_def split: option.splits)

lemma spent_rollback_pending:
  assumes "rollback_pending clock p ap = (ap', r)" shows "spent ap' = spent ap"
proof (cases "rd_reservation (p_dec p)")
  case (Some ref)
  obtain ap1 x where a: "on_bm clock (p_gen p) (reservation_rollback ref) ap = (ap1, x)" by (rule prod.exhaust)
  obtain b y calls where r: "reservation_rollback ref (gen_bm ap (p_gen p)) = (b, y, calls)" by (rule prod_cases3)
  have "spent ap1 = spent ap"
    by (rule spent_on_bm [OF r _ a]) (use r in \<open>auto simp: reservation_rollback_def dest: rollback_cost\<close>)
  then show ?thesis
    using assms Some a by (auto simp: rollback_pending_def split: sum.splits if_splits)
qed (use assms in \<open>simp add: rollback_pending_def\<close>)

lemma spent_on_exception: "on_exception clock p e ap = (ap', h) \<Longrightarrow> spent ap' = spent ap"
  by (cases e)
     (auto simp: on_exception_def except_runtime_def except_exceeded_def except_remote_def except_other_def Let_def
        split: prod.splits sum.splits option.splits if_splits dest!: spent_rollback_pending)

lemma injected_outcome:
  assumes "sleeps_ok w"
  shows "simulate_remote_inference cfg w rid True = Inl CancelledError \<or>
         (\<exists>m. simulate_remote_inference cfg w rid True = Inl (RemoteInferenceError m))"
  by (rule mock_remote_cases [OF assms, of cfg rid True]; rule call_tokenrouter_cases [of True cfg w rid])
     (simp_all add: simulate_remote_inference_def)

lemma except_remote_503: "except_remote clock p e ap = (ap', Http_error n t) \<Longrightarrow> n = 503"
  by (auto simp: except_remote_def Let_def split: prod.splits sum.splits option.splits if_splits)

text \<open>
  C20: The injected failure.  A remote request whose prompt contains \<open>fail_remote\<close>, in whatever
  case, is never answered by its remote call, and never with status 500: unless it is cancelled, its
  reservation is settled, and nothing is charged to any manager.
\<close>

theorem injected_failure_rolls_back:
  assumes "config_ok cfg" and "reach cfg sy" and "i < length (sy_handlers sy)"
    and "sy_handlers sy ! i = Awaiting_remote p" and "rd_reservation (p_dec p) = Some ref"
    and "should_fail (prompt (p_req p))" and "sleeps_ok w"
    and "sy' = sys_step cfg sy (Resume i clock (backend_call cfg w (sy_handlers sy ! i)))"
  shows "(\<forall>r. sy_handlers sy' ! i \<noteq> Responded r) \<and> (\<forall>t. sy_handlers sy' ! i \<noteq> Http_error 500 t) \<and>
         (sy_handlers sy' ! i = Was_cancelled p \<or>
          res_state (objects (gen_bm (sy_app sy') (p_gen p)) ! ref) \<noteq> Pending) \<and>
         spent (sy_app sy') = spent (sy_app sy)"
proof -
  have inv: "sys_inv cfg sy" by (rule reach_inv [OF assms(2,1)])
  have "sy_handlers sy ! i \<in> set (sy_handlers sy)" using assms(3) by simp
  then have "handler_ok (sy_app sy) (sy_handlers sy ! i)" using inv by (simp add: sys_inv_def Let_def)
  then have v: "valid_pending (sy_app sy) p ref" using assms(4,5) by (auto simp: valid_pending_def)
  have q: "qm_ok (gen_qm (sy_app sy) (p_gen p))" using inv v by (simp add: sys_inv_def Let_def valid_pending_def gen_ok_def)
  obtain e where e: "backend_call cfg w (sy_handlers sy ! i) = Inl e" "result_ok (Inl e)"
      "e = CancelledError \<or> (\<exists>m. e = RemoteInferenceError m)"
    using injected_outcome [OF assms(7), of cfg "p_id p"] assms(4,6) by (auto simp: backend_call_def result_ok_def)
  obtain ap' h where x: "on_exception clock p e (sy_app sy) = (ap', h)" by (rule prod.exhaust)
  have sy': "sy_app sy' = ap'" "sy_handlers sy' ! i = h"
    using assms(3,4,8) e(1) x by (simp_all add: resume_handler_def resume_remote_def)
  have "changes (p_gen p) (raised p ref h) (sy_app sy) ap'"
    using on_exception_raises [OF v q _ x] e(2) by blast
  then have "h = Was_cancelled p \<or> res_state (objects (gen_bm ap' (p_gen p)) ! ref) \<noteq> Pending"
    using v by (cases h) (auto simp: changes_def raised_def valid_pending_def)
  moreover have "h \<noteq> Responded r" for r using on_exception_not_responded [of clock p e "sy_app sy" r] x by simp
  moreover have "h \<noteq> Http_error 500 t" for t
    using e(3) x except_remote_503 [of clock p e "sy_app sy" ap' 500 t] by (auto simp: on_exception_def)
  ultimately show ?thesis using spent_on_exception [OF x] sy' by auto
qed

theorem injected_failure_rolls_back_witness:
  "spent (sy_app (sys_step sample_config (sample_service QUALITY) (Resume 0 (\<lambda>_. 0)
      (backend_call sample_config sample_world (sy_handlers (sample_service QUALITY) ! 0))))) =
   spent (sy_app (sample_service QUALITY))"
proof -
  have h: "0 < length (sy_handlers (sample_service QUALITY))" "sy_handlers (sample_service QUALITY) ! 0 =
      Awaiting_remote (sample_pending QUALITY (decide REMOTE (Some 0) 800 (Quality_remote_preferred 800 3000)))"
    using sample_remote by simp_all
  have "should_fail (prompt (sample_request QUALITY 3000))"
    unfolding sample_request_def by simp code_simp
  with injected_failure_rolls_back [OF sample_config_ok sample_reach h, of 0 sample_world _ "\<lambda>_. 0"] sample_world_ok(1)
  show ?thesis by (simp add: sample_pending_def)
qed

text \<open>
  C21: A cost above the reservation is not booked.  When the remote call reports more than was reserved
  (plus 1e-9), although the provider has been paid, the request is answered with 500, its reservation
  is rolled back, and the total the budget is checked against does not grow.
\<close>

theorem overrun_not_charged:
  assumes "valid_pending ap p ref" and "b = gen_bm ap (p_gen p)" and "res_state (objects b ! ref) = Pending"
    and "fadd (reserved_cost (objects b ! ref)) eps9 < br_actual_cost res"
    and "resume_remote clock p (Inr res) ap = (ap', h)"
  shows "h = Http_error 500 (Error_text (ActualCostExceeded (br_actual_cost res) (reserved_cost (objects b ! ref)))) \<and>
         res_state (objects (gen_bm ap' (p_gen p)) ! ref) = RolledBack \<and> spent ap' = spent ap"
proof -
  have v: "rd_reservation (p_dec p) = Some ref" "ref < length (objects b)" "bm_wf b" "p_gen p < length (ap_gens ap)"
    using assms(1,2) by (simp_all add: valid_pending_def)
  let ?b = "release_plain (res_id (objects b ! ref)) ref (set_state ref RolledBack b)"
  let ?e = "ActualCostExceeded (br_actual_cost res) (reserved_cost (objects b ! ref))"
  have c: "reservation_commit ref (br_actual_cost res) (br_actual_latency_ms res) b =
      (?b, Inl ?e, settle_calls (res_id (objects b ! ref)))"
    using pending_active [OF v(3,2) assms(3)] assms(4) by (simp add: reservation_commit_def commit_def Let_def)
  obtain ap1 where a: "on_bm clock (p_gen p) (reservation_commit ref (br_actual_cost res) (br_actual_latency_ms res)) ap
      = (ap1, Inl ?e)" "ap_gens ap1 = (ap_gens ap)[p_gen p := (ap_gens ap ! p_gen p)\<lparr>c_bm := ?b\<rparr>]"
    using c assms(2) by (simp add: on_bm_def)
  have "spent ap1 = spent ap" by (rule spent_on_bm [OF c [unfolded assms(2)] _ a(1)]) simp
  then show ?thesis
    using assms(5) v a by (auto simp: resume_remote_def settle_request_def on_exception_def except_exceeded_def)
qed

theorem overrun_not_charged_witness:
  "\<exists>ap' h. resume_remote (\<lambda>_. 0) (sample_pending QUALITY (decide REMOTE (Some 0) 800 (Quality_remote_preferred 800 3000)))
       (Inr (sample_result\<lparr>br_actual_cost := 3\<rparr>)) (sy_app (sample_service QUALITY)) = (ap', h) \<and> spent ap' = [0]"
proof -
  let ?p = "sample_pending QUALITY (decide REMOTE (Some 0) 800 (Quality_remote_preferred 800 3000))"
  let ?ap = "sy_app (sample_service QUALITY)"
  have v: "valid_pending ?ap ?p 0"
    using sample_inv [of QUALITY] sample_remote by (auto simp: sys_inv_def Let_def sample_pending_def valid_pending_def)
  have b: "objects (gen_bm ?ap (p_gen ?p)) ! 0 = \<lparr> reserved_cost = 1, reserved_latency_ms = 800, ttl_seconds = 45,
      res_id = ''b'', created_at = 3, res_state = Pending \<rparr>" "spent ?ap = [0]"
    using sample_remote by (simp_all add: spent_def sample_pending_def with_reservation_def sample_manager_def)
  obtain ap' h where r: "resume_remote (\<lambda>_. 0) ?p (Inr (sample_result\<lparr>br_actual_cost := 3\<rparr>)) ?ap = (ap', h)"
    by (rule prod.exhaust)
  have "fadd 1 eps9 < (3::rat)" by (rule fadd_eps9_less) (simp add: fadd_def)
  then show ?thesis using overrun_not_charged [OF v refl _ _ r] r b by (simp add: sample_result_def)
qed

end
