(* ===== verification/Deployment.thy ===== *)
theory Deployment
  imports Backends
begin

text \<open>
  What a client of the deployed service can see: which errors it can be answered with, what an
  answer costs, and what happens to an answer that comes too late.
\<close>

section \<open>Events only grow the books\<close>

lemma grows_background:
  "length (ap_gens ap) \<le> length (ap_gens ap') \<Longrightarrow>
     (\<And>g. g < length (ap_gens ap) \<Longrightarrow> gen_bm ap' g = gen_bm ap g) \<Longrightarrow> grows ap ap'"
  by (simp add: grows_def)

lemma grows_changes:
  assumes "changes g R ap ap'" "g < length (ap_gens ap)" "\<And>c. R (ap_gens ap ! g) c \<Longrightarrow> bm_reach (gen_bm ap g) (c_bm c)"
  shows "grows ap ap'"
proof -
  obtain c where c: "ap_gens ap' = (ap_gens ap)[g := c]" "R (ap_gens ap ! g) c"
    using assms(1) by (auto simp: changes_def)
  have "bm_reach (gen_bm ap j) (gen_bm ap' j)" if "j < length (ap_gens ap)" for j
    using that c assms(2,3) by (cases "j = g") auto
  with c(1) show ?thesis by (simp add: grows_def)
qed

lemma arrive_grows:
  assumes "config_ok cfg" and inv: "sys_inv cfg \<lparr> sy_app = ap, sy_handlers = hs \<rparr>"
    and "uuid \<notin> res_id ` set (objects (gen_bm ap (current ap)))"
    and "start_request cfg clock now uuid req ap = (ap', h)"
  shows "grows ap ap'"
proof -
  have g: "current ap < length (ap_gens ap)" using sys_invD(1) [OF inv] by (simp add: current_def)
  note ok = sys_invD(7) [OF inv g]
  obtain d b where bk: "backed cfg now uuid (gen_qm ap (current ap)) (gen_lt ap (current ap)) (latency_budget_ms req)
      (gen_bm ap (current ap)) b d" and ch: "changes (current ap) (started (current ap) req d b h) ap ap'"
    using start_request_effect [OF assms(1) sys_invD(1) [OF inv] ok assms(4)] by blast
  have b: "bm_reach (gen_bm ap (current ap)) b"
    by (rule backed_reach [OF gen_ok_sane [OF assms(1) ok] bk assms(3)])
  have "bm_reach (gen_bm ap (current ap)) (c_bm c)" if "started (current ap) req d b h (ap_gens ap ! current ap) c" for c
    using that b by (auto simp: started_def split: route_decision.splits)
  then show ?thesis by (rule grows_changes [OF ch g])
qed

lemma resume_grows:
  assumes inv: "sys_inv cfg \<lparr> sy_app = ap, sy_handlers = hs \<rparr>" and "i < length hs" "result_ok out"
    and "resume_handler clock out ap (hs ! i) = (ap', h')"
  shows "grows ap ap'"
proof (cases "pending_of (hs ! i)")
  case None
  then have "ap' = ap" using assms(4) by (cases "hs ! i") (simp_all add: resume_handler_def)
  then show ?thesis by (simp add: grows_def)
next
  case (Some p)
  then obtain ref where v: "valid_pending ap p ref" "changes (p_gen p) (after_resume p ref (hs ! i) h') ap ap'"
    using resume_handler_changes [OF assms] by blast
  then show ?thesis
    by (intro grows_changes [OF v(2)]) (simp_all add: valid_pending_def after_resume_def)
qed

lemma reaper_flag_bm [simp]: "c_bm (cs[g := (cs ! g)\<lparr>c_reaper := x\<rparr>] ! j) = c_bm (cs ! j)"
  by (cases "g = j"; cases "g < length cs") (simp_all add: list_update_beyond)

lemma stop_reaper_grows: "grows ap (stop_reaper g ap)"
  by (rule grows_background) (simp_all add: stop_reaper_def)

lemma run_start_grows: "grows ap (fst (run_start cfg run_id reset ap))"
  by (rule grows_background)
     (auto simp: run_start_def Let_def stop_reaper_def nth_append split: sum.splits)

lemma sse_read_gens [simp]: "ap_gens (sse_read ref ap) = ap_gens ap"
  by (simp add: sse_read_def Let_def split: option.splits log_event.splits)

lemma reap_grows: "grows ap (reap g clock ap)"
  by (auto simp: grows_def reap_def nth_list_update bm_reach_expire)

lemma step_grows:
  assumes "config_ok cfg" "sys_inv cfg sy" "event_ok sy ev"
  shows "grows (sy_app sy) (sy_app (sys_step cfg sy ev))"
proof -
  obtain ap hs where sy: "sy = \<lparr> sy_app = ap, sy_handlers = hs \<rparr>" by (cases sy) simp
  note inv = assms(2) [unfolded sy]
  have refl: "grows ap ap" by (simp add: grows_def)
  show ?thesis
  proof (cases ev)
    case (Arrive clock now uuid req)
    with arrive_grows [OF assms(1) inv] assms(3) show ?thesis by (auto simp: sy split: prod.splits)
  next
    case (Resume i clock out)
    with resume_grows [OF inv] assms(3) refl show ?thesis by (auto simp: sy split: prod.splits)
  qed (auto simp: sy reap_grows run_start_grows stop_reaper_grows shutdown_def run_complete_def intro: grows_background)
qed

section \<open>What a request can be answered with\<close>

text \<open>
  \<open>fair_prices\<close>: mock costs, at the shipped prices, for what is reserved by default.
\<close>

definition fair_prices :: "config \<Rightarrow> bool" where
  "fair_prices cfg \<longleftrightarrow>
     (BACKEND_MODE cfg = ''mock'' \<or> REMOTE_LLM_API_KEY cfg = []) \<and> prices cfg = prices default_config \<and>
     COST_PER_REMOTE_REQUEST cfg = COST_PER_REMOTE_REQUEST default_config"

fun is_overrun :: "exc \<Rightarrow> bool" where
  "is_overrun (ActualCostExceeded a r) = True"
| "is_overrun _ = False"

fun refused_detail :: "config \<Rightarrow> detail \<Rightarrow> bool" where
  "refused_detail cfg (Error_text e) = (commit_exc e \<and> \<not> (fair_prices cfg \<and> is_overrun e))"
| "refused_detail cfg _ = False"

fun answer_ok :: "config \<Rightarrow> handler \<Rightarrow> bool" where
  "answer_ok cfg (Http_error n t) = (n = 503 \<or> n = 500 \<and> refused_detail cfg t)"
| "answer_ok cfg (Unhandled e) = False"
| "answer_ok cfg (Suspended_on_slot p) = False"
| "answer_ok cfg _ = True"

text \<open>A request in its first backend call has reserved the price of that call.\<close>

definition has_price :: "flt \<Rightarrow> app \<Rightarrow> pending \<Rightarrow> bool" where
  "has_price c ap p \<longleftrightarrow>
     (case rd_reservation (p_dec p) of
        None \<Rightarrow> True | Some ref \<Rightarrow> reserved_cost (objects (gen_bm ap (p_gen p)) ! ref) = c)"

fun priced :: "config \<Rightarrow> app \<Rightarrow> handler \<Rightarrow> bool" where
  "priced cfg ap (Awaiting_remote p) = has_price (COST_PER_REMOTE_REQUEST cfg) ap p"
| "priced cfg ap (Awaiting_local p) = has_price 0 ap p"
| "priced cfg ap _ = True"

lemma has_price_grows:
  assumes "has_price c ap p" "valid_pending ap p ref" "grows ap ap'"
  shows "has_price c ap' p"
proof -
  let ?g = "p_gen p"
  have v: "?g < length (ap_gens ap)" "ref < length (objects (gen_bm ap ?g))" "bm_wf (gen_bm ap ?g)"
    "rd_reservation (p_dec p) = Some ref"
    using assms(2) by (simp_all add: valid_pending_def)
  then have "bm_reach (gen_bm ap ?g) (gen_bm ap' ?g)" using assms(3) by (simp add: grows_def)
  then have "evolves (objects (gen_bm ap ?g)) (objects (gen_bm ap' ?g))" by (rule bm_reach_evolves [OF _ v(3)])
  then have "(objects (gen_bm ap' ?g) ! ref)\<lparr>res_state := Pending\<rparr> = (objects (gen_bm ap ?g) ! ref)\<lparr>res_state := Pending\<rparr>"
    using v(2) by (simp add: evolves_def)
  then have "reserved_cost ((objects (gen_bm ap' ?g) ! ref)\<lparr>res_state := Pending\<rparr>) =
      reserved_cost ((objects (gen_bm ap ?g) ! ref)\<lparr>res_state := Pending\<rparr>)" by simp
  with assms(1) v(4) show ?thesis by (simp add: has_price_def)
qed

lemma priced_grows: "priced cfg ap h \<Longrightarrow> handler_ok ap h \<Longrightarrow> grows ap ap' \<Longrightarrow> priced cfg ap' h"
  by (cases h) (auto intro: has_price_grows)

text \<open>One segment at a time.\<close>

lemma finish_responds:
  assumes "lt_ok cfg (gen_lt ap (p_gen p))"
  shows "\<exists>resp. snd (finish_request p r cost res outcome ap) = Responded resp"
proof -
  have "snd (record_latency key lat (gen_lt ap (p_gen p))) = Inr ()" for key lat
    using assms matches_record unfolding lt_ok_def by blast
  then show ?thesis
    by (auto simp: finish_request_def Let_def split: prod.splits sum.splits)
       (metis Inr_not_Inl snd_conv)+
qed

definition past_first_call :: "config \<Rightarrow> handler \<Rightarrow> bool" where
  "past_first_call cfg h \<longleftrightarrow> answer_ok cfg h \<and> (\<forall>p. h \<noteq> Awaiting_remote p \<and> h \<noteq> Awaiting_local p)"

lemma finish_answers:
  assumes "lt_ok cfg' (gen_lt ap (p_gen p))"
  shows "past_first_call cfg (snd (finish_request p r cost res outcome ap))"
proof -
  obtain resp where "snd (finish_request p r cost res outcome ap) = Responded resp"
    using finish_responds [OF assms] by blast
  then show ?thesis by (simp add: past_first_call_def)
qed

lemma priced_past: "past_first_call cfg h \<Longrightarrow> priced cfg ap h"
  by (cases h) (simp_all add: past_first_call_def)

lemma on_exception_answers:
  assumes v: "valid_pending ap p ref" and q: "qm_ok (gen_qm ap (p_gen p))"
    and e: "e = CancelledError \<or> (\<exists>m. e = RemoteInferenceError m) \<or> commit_exc e \<and> \<not> (fair_prices cfg \<and> is_overrun e)"
  shows "past_first_call cfg (snd (on_exception clock p e ap))"
proof -
  have rb: "\<exists>ap' d. rollback_pending clock p a = (ap', Inr d)" if "valid_pending a p ref" for a
    using rollback_pending_settles [OF that] by blast
  obtain ap' h where x: "on_exception clock p e ap = (ap', h)" by (rule prod.exhaust)
  show ?thesis
  proof (cases "\<exists>m. e = RemoteInferenceError m")
    case True
    then have r: "except_remote clock p e ap = (ap', h)" using x by (auto simp: on_exception_def)
    have "changes (p_gen p) (raised p ref h) ap ap'" by (rule except_remote_raises [OF v q r])
    then have "\<not> (\<exists>p'. h = Awaiting_remote p' \<or> h = Awaiting_local p' \<or> h = Suspended_on_slot p')"
      by (auto simp: changes_def raised_def)
    moreover have "\<forall>e'. h \<noteq> Unhandled e'" "\<forall>n t. h = Http_error n t \<longrightarrow> n = 503"
      using r rb [of "on_obs (log_remote_failure (p_id p) (Error_text e)) ap"] v
      by (auto simp: except_remote_def Let_def split: if_splits option.splits sum.splits prod.splits)
    ultimately show ?thesis by (cases h) (auto simp: x past_first_call_def)
  next
    case False
    with e rb [OF v] show ?thesis
      by (cases e) (auto simp: on_exception_def except_other_def except_exceeded_def past_first_call_def commit_exc_def Let_def)
  qed
qed

lemma settle_request_raises:
  assumes v: "valid_pending ap p ref" and "0 \<le> cost" "0 \<le> lat"
    and e: "settle_request clock p cost lat ap = (ap', Inl e)"
  shows "commit_exc e" and "is_overrun e \<Longrightarrow> fadd (reserved_cost (objects (gen_bm ap (p_gen p)) ! ref)) eps9 < cost"
proof -
  show "commit_exc e" using settle_request_settles [OF v assms(2,3) e] by blast
  let ?b = "gen_bm ap (p_gen p)"
  have b: "bm_wf ?b" "ref < length (objects ?b)" "rd_reservation (p_dec p) = Some ref"
    using v by (simp_all add: valid_pending_def)
  show "fadd (reserved_cost (objects ?b ! ref)) eps9 < cost" if "is_overrun e"
  proof (cases "res_state (objects ?b ! ref) = Pending")
    case True
    with pending_active [OF b(1,2)] e b(3) that show ?thesis
      by (auto simp: settle_request_def on_bm_def reservation_commit_def commit_def Let_def split: if_splits)
  next
    case False
    with settled_not_active [OF b(1,2)] e b(3) that show ?thesis
      by (auto simp: settle_request_def on_bm_def reservation_commit_def commit_def)
  qed
qed


lemma local_call_total:
  "sleeps_ok w \<Longrightarrow> simulate_local_inference cfg w p rid = Inl CancelledError \<or>
     (\<exists>res. simulate_local_inference cfg w p rid = Inr res)"
  using local_backend_total by blast

lemma remote_call_converted:
  assumes "sleeps_ok w"
  shows "(\<exists>res. simulate_remote_inference cfg w rid fl = Inr res \<and> \<not> fl) \<or>
         (\<exists>e. simulate_remote_inference cfg w rid fl = Inl e \<and> (e = CancelledError \<or> (\<exists>m. e = RemoteInferenceError m)))"
  using remote_errors_converted [OF assms, where cfg = cfg and rid = rid and fl = fl] by (auto split: sum.splits)

lemma fair_cost:
  assumes "fair_prices cfg" "sleeps_ok w" "draws_ok w" "simulate_remote_inference cfg w rid fl = Inr res"
  shows "0 \<le> br_actual_cost res \<and> br_actual_cost res \<le> 9 / 100 \<and>
         br_actual_cost res \<le> fadd (COST_PER_REMOTE_REQUEST cfg) eps9"
proof -
  have pr: "prices cfg = prices default_config" and d: "COST_PER_REMOTE_REQUEST cfg = COST_PER_REMOTE_REQUEST default_config"
    using assms(1) by (simp_all add: fair_prices_def)
  have m: "mock_remote_inference cfg w rid fl = Inr res"
    using assms(1,4) by (auto simp: fair_prices_def simulate_remote_inference_def split: if_splits)
  have c: "0 \<le> br_actual_cost res" "br_actual_cost res \<le> 9 / 100"
    using mock_cost_bound [OF pr assms(3)] m
    by (rule_tac mock_remote_cases [OF assms(2), of cfg rid fl]; force)+
  have "9 / 100 \<le> COST_PER_REMOTE_REQUEST default_config"
    by (simp only: default_config_def config.simps) code_simp
  moreover have "is_float (COST_PER_REMOTE_REQUEST default_config)" by (simp add: default_config_def)
  ultimately have "br_actual_cost res \<le> fadd (COST_PER_REMOTE_REQUEST cfg) eps9"
    unfolding d using c(2) by (intro le_fadd_eps9) auto
  with c show ?thesis by simp
qed

text \<open>What \<open>settle_request\<close> leaves of the components, whatever it returns.\<close>

lemma settled_state:
  assumes v: "valid_pending ap p ref" and q: "qm_ok (gen_qm ap (p_gen p))" and lt: "lt_ok cfg (gen_lt ap (p_gen p))"
    and "0 \<le> cost" "0 \<le> lat" and e: "settle_request clock p cost lat ap = (ap', r)"
  shows "valid_pending ap' p ref \<and> qm_ok (gen_qm ap' (p_gen p)) \<and> lt_ok cfg (gen_lt ap' (p_gen p))"
proof -
  have ch: "changes (p_gen p) (bm_settled ref) ap ap'" using settle_request_settles [OF v assms(4,5) e] by blast
  note s = settled_valid [OF ch v]
  obtain c where c: "ap_gens ap' = (ap_gens ap)[p_gen p := c]" "bm_settled ref (ap_gens ap ! p_gen p) c"
    using ch by (auto simp: changes_def)
  have "c_lt c = gen_lt ap (p_gen p)"
    using c(2) by (cases c; cases "ap_gens ap ! p_gen p") (simp add: bm_settled_def)
  with s q lt c(1) v show ?thesis by (auto simp: valid_pending_def)
qed

lemma leave_slot_lt [simp]: "gen_lt (leave_slot g ap) i = gen_lt ap i"
  by (cases "g = i"; cases "i < length (ap_gens ap)") (auto simp: leave_slot_def list_update_beyond not_less)

lemma remote_answers:
  assumes v: "valid_pending ap p ref" and q: "qm_ok (gen_qm ap (p_gen p))" and lt: "lt_ok cfg (gen_lt ap (p_gen p))"
    and pr: "priced cfg ap (Awaiting_remote p)" and w: "sleeps_ok w" "draws_ok w"
    and out: "out = simulate_remote_inference cfg w rid fl" "result_ok out"
  shows "past_first_call cfg (snd (resume_remote clock p out ap))"
proof (cases out)
  case (Inl e)
  with remote_call_converted [OF w(1), of cfg rid fl] out(1)
  have "e = CancelledError \<or> (\<exists>m. e = RemoteInferenceError m)" by auto
  then have "past_first_call cfg (snd (on_exception clock p e ap))" by (intro on_exception_answers [OF v q]) auto
  with Inl show ?thesis by (simp add: resume_remote_def)
next
  case (Inr res)
  then have res: "0 \<le> br_actual_cost res" "0 \<le> br_actual_latency_ms res" using out(2) by (auto simp: result_ok_def)
  obtain ap1 r where s: "settle_request clock p (br_actual_cost res) (br_actual_latency_ms res) ap = (ap1, r)"
    by (rule prod.exhaust)
  note st = settled_state [OF v q lt res s]
  show ?thesis
  proof (cases r)
    case (Inl e)
    note raised = settle_request_raises [OF v res s [unfolded Inl]]
    have "reserved_cost (objects (gen_bm ap (p_gen p)) ! ref) = COST_PER_REMOTE_REQUEST cfg"
      using pr v by (simp add: has_price_def valid_pending_def)
    then have "\<not> (fair_prices cfg \<and> is_overrun e)"
      using fair_cost [OF _ w] raised(2) out(1) \<open>out = Inr res\<close> by fastforce
    with raised(1) on_exception_answers [of ap1 p ref e cfg clock] st s Inl \<open>out = Inr res\<close> show ?thesis
      by (simp add: resume_remote_def)
  next
    case (Inr u)
    with finish_answers [of cfg ap1 p] st s \<open>out = Inr res\<close> show ?thesis by (simp add: resume_remote_def)
  qed
qed

lemma local_answers:
  assumes v: "valid_pending ap p ref" and q: "qm_ok (gen_qm ap (p_gen p))" and lt: "lt_ok cfg (gen_lt ap (p_gen p))"
    and a: "0 < active_count (gen_qm ap (p_gen p))" and w: "sleeps_ok w"
    and out: "out = simulate_local_inference cfg w pr rid" "result_ok out"
    and nn: "priced cfg ap (Awaiting_local p)"
  shows "past_first_call cfg (snd (resume_local clock p out ap))"
proof (cases out)
  case (Inl e)
  with local_call_total [OF w, of cfg pr rid] out(1) have "e = CancelledError" by auto
  with Inl show ?thesis by (simp add: resume_local_def on_exception_def past_first_call_def)
next
  case (Inr res)
  then have res: "0 \<le> br_actual_latency_ms res" using out(2) by (auto simp: result_ok_def)
  obtain ap1 r where s: "settle_request clock p 0 (br_actual_latency_ms res) ap = (ap1, r)"
    by (rule prod.exhaust)
  note st = settled_state [OF v q lt order_refl res s]
  show ?thesis
  proof (cases r)
    case (Inl e)
    note raised = settle_request_raises [OF v order_refl res s [unfolded Inl]]
    have "0 \<le> fadd (reserved_cost (objects (gen_bm ap (p_gen p)) ! ref)) eps9"
      using nn v eps_small by (intro fops_nonneg) (auto simp: has_price_def valid_pending_def)
    with raised(2) have "\<not> is_overrun e" by auto
    moreover have "qm_ok (gen_qm (leave_slot (p_gen p) ap1) (p_gen p))"
    proof -
      have "changes (p_gen p) (bm_settled ref) ap ap1" using settle_request_settles [OF v order_refl res s] by blast
      then have "gen_qm ap1 (p_gen p) = gen_qm ap (p_gen p)" by (rule settled_valid(2) [OF _ v])
      with st slot_exit_ok [OF q a] show ?thesis by (simp add: leave_slot_qm valid_pending_def)
    qed
    ultimately show ?thesis
      using raised(1) on_exception_answers [of "leave_slot (p_gen p) ap1" p ref e cfg clock] st s Inl \<open>out = Inr res\<close>
      by (simp add: resume_local_def)
  next
    case (Inr u)
    with finish_answers [of cfg "leave_slot (p_gen p) ap1" p] st s \<open>out = Inr res\<close> show ?thesis
      by (simp add: resume_local_def)
  qed
qed

lemma fallback_answers:
  assumes "lt_ok cfg (gen_lt ap (p_gen p))" and "sleeps_ok w" and "out = simulate_local_inference cfg w pr rid"
  shows "past_first_call cfg (snd (resume_fallback p out ap))"
  using local_call_total [OF assms(2), of cfg pr rid] finish_answers [of cfg "leave_slot (p_gen p) ap" p] assms(1,3)
  by (auto simp: resume_fallback_def Let_def) (auto simp: past_first_call_def)


lemma resumed_answers:
  assumes inv: "sys_inv cfg \<lparr> sy_app = ap, sy_handlers = hs \<rparr>" and i: "i < length hs"
    and pr: "priced cfg ap (hs ! i)" and ok: "answer_ok cfg (hs ! i)"
    and w: "sleeps_ok w" "draws_ok w" and out: "result_ok (backend_call cfg w (hs ! i))"
    and e: "resume_handler clock (backend_call cfg w (hs ! i)) ap (hs ! i) = (ap', h')"
  shows "answer_ok cfg h' \<and> priced cfg ap' h'"
proof (cases "pending_of (hs ! i)")
  case None
  then have "ap' = ap" "h' = hs ! i" using e by (cases "hs ! i"; simp add: resume_handler_def)+
  with pr ok show ?thesis by simp
next
  case (Some p)
  have ho: "handler_ok ap (hs ! i)" using sys_invD(3) [OF inv] i by simp
  then obtain ref where v: "valid_pending ap p ref" using Some by (cases "hs ! i") auto
  have g: "p_gen p < length (ap_gens ap)" using v by (simp add: valid_pending_def)
  have q: "qm_ok (gen_qm ap (p_gen p))" and lt: "lt_ok cfg (gen_lt ap (p_gen p))"
    using sys_invD(7) [OF inv g] by (simp_all add: gen_ok_def)
  have "past_first_call cfg (snd (resume_handler clock (backend_call cfg w (hs ! i)) ap (hs ! i)))"
  proof (cases "hs ! i")
    case (Awaiting_remote p')
    with Some pr out remote_answers [OF v q lt _ w refl] show ?thesis by (simp add: resume_handler_def backend_call_def)
  next
    case (Awaiting_local p')
    have "hs ! i \<in> set (filter (holds (p_gen p)) hs)" using nth_mem [OF i] Some Awaiting_local by simp
    then have "0 < length (filter (holds (p_gen p)) hs)" by (rule length_pos_if_in_set)
    then have "0 < active_count (gen_qm ap (p_gen p))" using sys_invD(4) [OF inv] g by (simp add: slots_ok_def)
    from local_answers [OF v q lt this w(1) refl] Some Awaiting_local pr out show ?thesis
      by (simp add: resume_handler_def backend_call_def)
  next
    case (Awaiting_fallback p')
    with Some fallback_answers [OF lt w(1) refl] show ?thesis by (simp add: resume_handler_def backend_call_def)
  qed (use Some in simp_all)
  with e priced_past show ?thesis by (auto simp: past_first_call_def)
qed

lemma arrived_answers:
  assumes "config_ok cfg" and inv: "sys_inv cfg \<lparr> sy_app = ap, sy_handlers = hs \<rparr>"
    and e: "start_request cfg clock now uuid req ap = (ap', h)"
  shows "answer_ok cfg h \<and> priced cfg ap' h"
proof -
  let ?g = "current ap"
  have g: "?g < length (ap_gens ap)" using sys_invD(1) [OF inv] by (simp add: current_def)
  obtain d b c where bk: "backed cfg now uuid (gen_qm ap ?g) (gen_lt ap ?g) (latency_budget_ms req) (gen_bm ap ?g) b d"
    and c: "ap_gens ap' = (ap_gens ap)[?g := c]" "started ?g req d b h (ap_gens ap ! ?g) c"
    using start_request_effect [OF assms(1) sys_invD(1) [OF inv] sys_invD(7) [OF inv g] e] by (auto simp: changes_def)
  show ?thesis
    using bk c g by (cases "rd_route d")
      (auto simp: started_def backed_def pending_for_def has_price_def with_reservation_def nth_append)
qed

lemma deployed_answers_inv:
  assumes "deployed cfg sy" and cfg: "config_ok cfg" and pr: "prices_ok cfg"
  shows "\<forall>h \<in> set (sy_handlers sy). answer_ok cfg h \<and> priced cfg (sy_app sy) h"
  using assms(1)
proof induction
  case (deployed_event sy ev)
  obtain ap hs where sy: "sy = \<lparr> sy_app = ap, sy_handlers = hs \<rparr>" by (cases sy) simp
  have inv: "sys_inv cfg \<lparr> sy_app = ap, sy_handlers = hs \<rparr>"
    using reach_inv [OF deployed_refines_service [OF deployed_event(1) pr] cfg] by (simp add: sy)
  note grow = step_grows [OF cfg inv, of ev, folded sy, OF deployed_event(3)]
  have old: "answer_ok cfg h \<and> priced cfg (sy_app (sys_step cfg sy ev)) h" if "h \<in> set hs" for h
    using that deployed_event.IH priced_grows [OF _ sys_invD(3) [OF inv that]] grow by (simp add: sy)
  show ?case
  proof (cases ev)
    case (Arrive clock now uuid req)
    obtain ap' h' where e: "start_request cfg clock now uuid req ap = (ap', h')" by (rule prod.exhaust)
    with arrived_answers [OF cfg inv e] old Arrive show ?thesis by (auto simp: sy)
  next
    case (Resume i clock out)
    with deployed_event(2) show ?thesis by simp
  qed (use old in \<open>auto simp: sy\<close>)
next
  case (deployed_call sy i w clock)
  obtain ap hs where sy: "sy = \<lparr> sy_app = ap, sy_handlers = hs \<rparr>" by (cases sy) simp
  have inv: "sys_inv cfg \<lparr> sy_app = ap, sy_handlers = hs \<rparr>"
    using reach_inv [OF deployed_refines_service [OF deployed_call(1) pr] cfg] by (simp add: sy)
  have i: "i < length hs" using deployed_call(2) by (simp add: sy)
  let ?out = "backend_call cfg w (hs ! i)"
  have w: "sleeps_ok w" "draws_ok w" "result_ok ?out"
    using deployed_call(3) backend_call_ok [OF pr] by (simp_all add: world_ok_def)
  obtain ap' h' where e: "resume_handler clock ?out ap (hs ! i) = (ap', h')" by (rule prod.exhaust)
  have "hs ! i \<in> set hs" using i by simp
  then have new: "answer_ok cfg h' \<and> priced cfg ap' h'"
    using resumed_answers [OF inv i _ _ w e] deployed_call.IH by (simp add: sy)
  have "answer_ok cfg h \<and> priced cfg ap' h" if "h \<in> set hs" for h
    using that deployed_call.IH priced_grows [OF _ sys_invD(3) [OF inv that] resume_grows [OF inv i w(3) e]]
    by (simp add: sy)
  with new show ?case using i e set_update_subset_insert by (fastforce simp: sy)
qed simp


text \<open>
  C11: What a client of the deployed service can be answered with.  Whatever the network, the
  providers and the schedule do, no handler ever fails with an unhandled exception or waits for a slot: a
  request is answered, cancelled, refused with 503, or refused with 500 because its reservation could not be
  committed (it was settled already, or its actual cost or latency exceeds what is allowed).
\<close>

theorem deployed_answers:
  assumes "config_ok cfg" and "prices_ok cfg" and "deployed cfg sy" and "h \<in> set (sy_handlers sy)"
  shows "case h of
           Unhandled e \<Rightarrow> False
         | Suspended_on_slot p \<Rightarrow> False
         | Http_error code t \<Rightarrow> code = 503 \<or> code = 500 \<and> (\<exists>e. t = Error_text e \<and> commit_exc e)
         | _ \<Rightarrow> True"
proof -
  have "answer_ok cfg h" using deployed_answers_inv [OF assms(3,1,2)] assms(4) by blast
  moreover have "refused_detail cfg t \<Longrightarrow> \<exists>e. t = Error_text e \<and> commit_exc e" for t by (cases t) simp_all
  ultimately show ?thesis by (cases h) auto
qed

theorem deployed_answers_witness:
  "\<exists>h. sy_handlers (sys_step sample_config (sample_service QUALITY)
     (Resume 0 (\<lambda>_. 0) (backend_call sample_config sample_world (sy_handlers (sample_service QUALITY) ! 0)))) = [h] \<and>
     (case h of Unhandled e \<Rightarrow> False | Suspended_on_slot p \<Rightarrow> False
      | Http_error code t \<Rightarrow> code = 503 \<or> code = 500 \<and> (\<exists>e. t = Error_text e \<and> commit_exc e) | _ \<Rightarrow> True)"
proof -
  let ?sy = "sys_step sample_config (sample_service QUALITY)
     (Resume 0 (\<lambda>_. 0) (backend_call sample_config sample_world (sy_handlers (sample_service QUALITY) ! 0)))"
  have "length (sy_handlers ?sy) = 1" using sample_remote by (simp split: prod.splits)
  then obtain h where h: "sy_handlers ?sy = [h]" by (auto simp: length_Suc_conv)
  then have "h \<in> set (sy_handlers ?sy)" by simp
  from deployed_answers [OF sample_config_ok sample_mock_prices sample_deployed this] h show ?thesis by blast
qed

text \<open>
  C14: With the shipped prices and mock costs, the reservation always covers the call: no
  request of the deployed service is ever refused because its actual cost exceeded what was reserved.
\<close>

theorem mock_service_never_overruns:
  assumes "config_ok cfg" and "fair_prices cfg" and "deployed cfg sy"
  shows "Http_error 500 (Error_text (ActualCostExceeded cost reserved)) \<notin> set (sy_handlers sy)"
proof
  assume h: "Http_error 500 (Error_text (ActualCostExceeded cost reserved)) \<in> set (sy_handlers sy)"
  have "prices_ok cfg" using assms(2) default_prices_ok by (simp add: fair_prices_def)
  from deployed_answers_inv [OF assms(3,1) this] h
  have "answer_ok cfg (Http_error 500 (Error_text (ActualCostExceeded cost reserved)))" by blast
  with assms(2) show False by simp
qed

theorem mock_service_never_overruns_witness:
  "\<exists>ap. startup default_config True = Inr ap \<and>
     Http_error 500 (Error_text (ActualCostExceeded 1 (1 / 10))) \<notin>
       set (sy_handlers (sys_step default_config \<lparr> sy_app = ap, sy_handlers = [] \<rparr>
              (Arrive (\<lambda>_. 0) 3 ''b'' (sample_request QUALITY 3000))))"
proof -
  have cfg: "config_ok default_config" by (simp add: config_ok_def default_config_def)
  obtain ap where ap: "startup default_config True = Inr ap" "objects (gen_bm ap (current ap)) = []"
    by (simp add: startup_def new_components_def init_bm_def init_qm_def default_config_def current_def)
  have "deployed default_config (sys_step default_config \<lparr> sy_app = ap, sy_handlers = [] \<rparr>
              (Arrive (\<lambda>_. 0) 3 ''b'' (sample_request QUALITY 3000)))"
    by (rule deployed_event [OF deployed_start [OF ap(1)]]) (simp_all add: ap(2))
  moreover have "fair_prices default_config" by (simp add: fair_prices_def default_config_def)
  ultimately show ?thesis using mock_service_never_overruns [OF cfg] ap(1) by blast
qed

section \<open>What is charged\<close>

text \<open>
  The charge of one resumption: an answered remote request adds its cost to the total of the manager
  it arrived at.
\<close>

fun charge :: "handler \<Rightarrow> handler \<Rightarrow> flt list \<Rightarrow> flt list" where
  "charge (Awaiting_remote p) (Responded r) totals =
     totals[p_gen p := fadd (totals ! p_gen p) (resp_actual_cost r)]"
| "charge _ _ totals = totals"

lemma charge_other: "(\<forall>r. h' \<noteq> Responded r) \<Longrightarrow> charge h h' totals = totals"
  by (cases "(h, h', totals)" rule: charge.cases) simp_all

lemma spent_same:
  assumes "ap_gens ap' = (ap_gens ap)[g := c]" "cumulative_remote_cost (c_bm c) = cumulative_remote_cost (gen_bm ap g)"
  shows "spent ap' = spent ap"
  using spent_upd_gen [of "\<lambda>_. c" ap g] assms by (simp add: spent_def upd_gen_def)

lemma spent_leave_slot [simp]: "spent (leave_slot g ap) = spent ap"
  by (simp add: leave_slot_def)

lemma spent_finish: "spent (fst (finish_request p r cost res outcome ap)) = spent ap"
  by (auto simp: finish_request_def Let_def split: prod.splits sum.splits)

lemma spent_refused:
  assumes "settle_request clock p cost lat ap = (ap', Inl e)" shows "spent ap' = spent ap"
proof (cases "rd_reservation (p_dec p)")
  case (Some ref)
  obtain b r calls where c: "reservation_commit ref cost lat (gen_bm ap (p_gen p)) = (b, r, calls)" by (rule prod_cases3)
  obtain ap1 x where a: "on_bm clock (p_gen p) (reservation_commit ref cost lat) ap = (ap1, x)" by (rule prod.exhaust)
  have x: "x = r" using a c by (simp add: on_bm_def)
  then have "r = Inl e" and ap': "ap' = ap1" using assms Some a by (auto simp: settle_request_def split: sum.splits)
  then have "cumulative_remote_cost b = cumulative_remote_cost (gen_bm ap (p_gen p))"
    using c by (auto simp: reservation_commit_def commit_def Let_def split: option.splits if_splits)
  with spent_on_bm [OF c _ a] ap' show ?thesis by simp
qed (use assms in \<open>simp add: settle_request_def\<close>)

lemma spent_settled:
  assumes v: "valid_pending ap p ref" and e: "settle_request clock p cost lat ap = (ap', Inr u)"
  shows "spent ap' = (spent ap)[p_gen p := fadd (spent ap ! p_gen p) cost]"
proof -
  have g: "p_gen p < length (ap_gens ap)" using v by (simp add: valid_pending_def)
  note s = settle_request_committed [OF v e]
  then have "ap_gens ap' = (ap_gens ap)[p_gen p := (ap_gens ap ! p_gen p)\<lparr>c_bm := gen_bm ap' (p_gen p)\<rparr>]" by blast
  from arg_cong [OF this, of "map (cumulative_remote_cost \<circ> c_bm)"]
  have "spent ap' = (spent ap)[p_gen p := cumulative_remote_cost (gen_bm ap' (p_gen p))]"
    unfolding spent_def map_update by simp
  with s g show ?thesis by (simp add: spent_def)
qed

text \<open>The charged total is a float, so committing a local call, at cost 0, leaves it as it is.\<close>

interpretation exact_total: guarded_machine bm_step clean_op
  "\<lambda>b. bm_wf b \<and> is_float (cumulative_remote_cost b)"
proof
  fix b op
  assume b: "bm_wf b \<and> is_float (cumulative_remote_cost b)" and op: "clean_op b op"
  have "is_float (cumulative_remote_cost (bm_step b op))"
  proof (cases op)
    case (Op_reserve now uuid req cost lat)
    with b show ?thesis
      by (cases rule: try_reserve_cases [of cost lat now uuid req b]) (auto simp: with_reservation_def)
  next
    case (Op_commit rid ac al)
    with b show ?thesis by (cases rule: commit_cases [of b rid ac al]) auto
  next
    case (Op_rollback rid)
    with b show ?thesis using rollback_cost by (metis bm_step.simps(3) prod_cases3 fst_conv)
  next
    case (Op_expire clock)
    have "is_float (cumulative_remote_cost (fst (expire_stale_reservations clock b)))"
      by (rule expire_preserves [where I = "\<lambda>b. is_float (cumulative_remote_cost b)"])
         (use b in \<open>auto, metis rollback_cost prod.collapse\<close>)
    with Op_expire show ?thesis by simp
  qed
  with b op show "bm_wf (bm_step b op) \<and> is_float (cumulative_remote_cost (bm_step b op))"
    using bm_wf_step by (simp add: clean_op_def)
qed

lemma gen_ok_total: "gen_ok cfg c \<Longrightarrow> is_float (cumulative_remote_cost (c_bm c))"
proof -
  assume "gen_ok cfg c"
  then obtain b0 where b0: "init_bm (MAX_REMOTE_BUDGET cfg) (MAX_CUMULATIVE_LATENCY_MS cfg) (RESERVATION_TTL_SECONDS cfg) = Inr b0"
      "bm_reach b0 (c_bm c)" by (auto simp: gen_ok_def)
  then obtain ops where "permitted clean_op bm_step b0 ops" "c_bm c = run bm_step b0 ops" by (auto simp: bm_reach_def)
  moreover have "bm_wf b0 \<and> is_float (cumulative_remote_cost b0)"
    using bm_wf_init [OF b0(1)] b0(1) by (auto simp: init_bm_def split: if_splits)
  ultimately show ?thesis using exact_total.inv_run by metis
qed

lemma fadd_zero: "is_float x \<Longrightarrow> fadd x 0 = x"
  by (simp add: fadd_def is_float_def)

lemma spent_remote:
  assumes v: "valid_pending ap p ref" and q: "qm_ok (gen_qm ap (p_gen p))" and lt: "lt_ok cfg (gen_lt ap (p_gen p))"
    and ok: "result_ok out" and e: "resume_remote clock p out ap = (ap', h)"
  shows "spent ap' = charge (Awaiting_remote p) h (spent ap)"
proof (cases out)
  case (Inl x)
  then have x: "on_exception clock p x ap = (ap', h)" using e by (simp add: resume_remote_def)
  moreover have "\<forall>r. h \<noteq> Responded r" using on_exception_not_responded [of clock p x ap] x by auto
  ultimately show ?thesis by (simp add: spent_on_exception charge_other)
next
  case (Inr res)
  obtain ap1 r where s: "settle_request clock p (br_actual_cost res) (br_actual_latency_ms res) ap = (ap1, r)"
    by (rule prod.exhaust)
  show ?thesis
  proof (cases r)
    case (Inl x)
    then have x: "on_exception clock p x ap1 = (ap', h)" using e s \<open>out = Inr res\<close> by (simp add: resume_remote_def)
    moreover have "\<forall>r. h \<noteq> Responded r" using on_exception_not_responded [of clock p x ap1] x by auto
    ultimately show ?thesis using spent_refused [OF s [unfolded Inl]] by (simp add: spent_on_exception charge_other)
  next
    case (Inr u)
    then have f: "finish_request p REMOTE (br_actual_cost res) res ''committed'' ap1 = (ap', h)"
      using e s \<open>out = Inr res\<close> by (simp add: resume_remote_def)
    have "0 \<le> br_actual_cost res" "0 \<le> br_actual_latency_ms res"
      using ok \<open>out = Inr res\<close> by (auto simp: result_ok_def)
    then have "lt_ok cfg (gen_lt ap1 (p_gen p))" using settled_state [OF v q lt _ _ s] by blast
    then obtain resp where resp: "h = Responded resp" using finish_responds f by (metis snd_conv)
    have "spent ap' = spent ap1" using spent_finish [of p REMOTE "br_actual_cost res" res "''committed''" ap1] f by simp
    moreover have "spent ap1 = (spent ap)[p_gen p := fadd (spent ap ! p_gen p) (br_actual_cost res)]"
      by (rule spent_settled [OF v s [unfolded Inr]])
    moreover have "resp_actual_cost resp = br_actual_cost res"
      using finish_request_responds [OF f [unfolded resp]] by blast
    ultimately show ?thesis by (simp add: resp)
  qed
qed

lemma spent_local:
  assumes v: "valid_pending ap p ref" and x: "is_float (cumulative_remote_cost (gen_bm ap (p_gen p)))"
    and e: "resume_local clock p out ap = (ap', h)"
  shows "spent ap' = spent ap"
proof (cases out)
  case (Inl y)
  then have "on_exception clock p y (leave_slot (p_gen p) ap) = (ap', h)" using e by (simp add: resume_local_def)
  from spent_on_exception [OF this] show ?thesis by simp
next
  case (Inr res)
  obtain ap1 r where s: "settle_request clock p 0 (br_actual_latency_ms res) ap = (ap1, r)" by (rule prod.exhaust)
  show ?thesis
  proof (cases r)
    case (Inl y)
    then have "on_exception clock p y (leave_slot (p_gen p) ap1) = (ap', h)"
      using e s \<open>out = Inr res\<close> by (simp add: resume_local_def)
    from spent_on_exception [OF this] spent_refused [OF s [unfolded Inl]] show ?thesis by simp
  next
    case (Inr u)
    then have f: "finish_request p (rd_route (p_dec p)) (br_actual_cost res) res ''committed'' (leave_slot (p_gen p) ap1) = (ap', h)"
      using e s \<open>out = Inr res\<close> by (simp add: resume_local_def)
    have "spent ap' = spent ap1"
      using spent_finish [of p "rd_route (p_dec p)" "br_actual_cost res" res "''committed''" "leave_slot (p_gen p) ap1"] f by simp
    also have "\<dots> = (spent ap)[p_gen p := fadd (spent ap ! p_gen p) 0]" by (rule spent_settled [OF v s [unfolded Inr]])
    also have "fadd (spent ap ! p_gen p) 0 = spent ap ! p_gen p"
      using x v by (intro fadd_zero) (simp add: spent_def valid_pending_def)
    finally show ?thesis by simp
  qed
qed

lemma spent_fallback: "resume_fallback p out ap = (ap', h) \<Longrightarrow> spent ap' = spent ap"
proof (cases out)
  case (Inl e)
  assume "resume_fallback p out ap = (ap', h)"
  with Inl show ?thesis by (cases e) (auto simp: resume_fallback_def Let_def)
next
  case (Inr res)
  assume "resume_fallback p out ap = (ap', h)"
  with Inr have "finish_request p QUEUE_LOCAL 0 res ''fallback_local'' (leave_slot (p_gen p) ap) = (ap', h)"
    by (simp add: resume_fallback_def Let_def)
  then show ?thesis
    using spent_finish [of p QUEUE_LOCAL 0 res "''fallback_local''" "leave_slot (p_gen p) ap"] by simp
qed

lemma spent_resume:
  assumes inv: "sys_inv cfg \<lparr> sy_app = ap, sy_handlers = hs \<rparr>" and i: "i < length hs" and out: "result_ok out"
    and e: "resume_handler clock out ap (hs ! i) = (ap', h')"
  shows "spent ap' = charge (hs ! i) h' (spent ap)"
proof (cases "pending_of (hs ! i)")
  case None
  then have "ap' = ap" using e by (cases "hs ! i") (simp_all add: resume_handler_def)
  with None show ?thesis by (cases "hs ! i") simp_all
next
  case (Some p)
  have ho: "handler_ok ap (hs ! i)" using sys_invD(3) [OF inv] i by simp
  then obtain ref where v: "valid_pending ap p ref" using Some by (cases "hs ! i") auto
  have g: "p_gen p < length (ap_gens ap)" using v by (simp add: valid_pending_def)
  note ok = sys_invD(7) [OF inv g]
  have q: "qm_ok (gen_qm ap (p_gen p))" "lt_ok cfg (gen_lt ap (p_gen p))" using ok by (simp_all add: gen_ok_def)
  show ?thesis
  proof (cases "hs ! i")
    case (Awaiting_remote p')
    with Some e spent_remote [OF v q out] show ?thesis by (simp add: resume_handler_def)
  next
    case (Awaiting_local p')
    with Some e spent_local [OF v gen_ok_total [OF ok]] show ?thesis by (simp add: resume_handler_def)
  next
    case (Awaiting_fallback p')
    with Some e spent_fallback show ?thesis by (simp add: resume_handler_def)
  qed (use Some in simp_all)
qed

lemma spent_arrive:
  assumes "config_ok cfg" and inv: "sys_inv cfg \<lparr> sy_app = ap, sy_handlers = hs \<rparr>"
    and e: "start_request cfg clock now uuid req ap = (ap', h)"
  shows "spent ap' = spent ap"
proof -
  let ?g = "current ap"
  have g: "?g < length (ap_gens ap)" using sys_invD(1) [OF inv] by (simp add: current_def)
  obtain d b c where bk: "backed cfg now uuid (gen_qm ap ?g) (gen_lt ap ?g) (latency_budget_ms req) (gen_bm ap ?g) b d"
    and c: "ap_gens ap' = (ap_gens ap)[?g := c]" "started ?g req d b h (ap_gens ap ! ?g) c"
    using start_request_effect [OF assms(1) sys_invD(1) [OF inv] sys_invD(7) [OF inv g] e] by (auto simp: changes_def)
  have "cumulative_remote_cost b = cumulative_remote_cost (gen_bm ap ?g)"
    using bk by (auto simp: backed_def with_reservation_def split: if_splits)
  then have "cumulative_remote_cost (c_bm c) = cumulative_remote_cost (gen_bm ap ?g)"
    using c(2) by (auto simp: started_def split: route_decision.splits)
  then show ?thesis by (rule spent_same [OF c(1)])
qed

lemma expire_cost:
  "bm_wf b \<Longrightarrow> cumulative_remote_cost (fst (expire_stale_reservations clock b)) = cumulative_remote_cost b"
  by (rule expire_preserves [where I = "\<lambda>x. cumulative_remote_cost x = cumulative_remote_cost b"])
     (metis prod_cases3 fst_conv rollback_cost, simp_all)

lemma spent_reap:
  assumes inv: "sys_inv cfg \<lparr> sy_app = ap, sy_handlers = hs \<rparr>"
  shows "spent (reap g clock ap) = spent ap"
  using gen_ok_wf [OF sys_invD(7) [OF inv, of g]] by (auto simp: reap_def expire_cost)

lemma spent_run_start:
  assumes "config_ok cfg"
  shows "spent (fst (run_start cfg run_id reset ap)) = (if reset then spent ap @ [0] else spent ap)"
proof -
  obtain c where c: "new_components cfg = Inr c" "cumulative_remote_cost (c_bm c) = 0"
    using assms by (simp add: new_components_def init_bm_def init_qm_def config_ok_def)
  have "spent (stop_reaper g ap) = spent ap" for g by (simp add: stop_reaper_def)
  with c show ?thesis by (simp add: run_start_def Let_def) (simp add: spent_def)
qed

lemma only_charged:
  assumes "config_ok cfg" and "reach cfg sy" and "event_ok sy ev"
  shows "spent (sy_app (sys_step cfg sy ev)) =
    (case ev of
       Resume i clock out \<Rightarrow>
         if i < length (sy_handlers sy)
         then charge (sy_handlers sy ! i) (sy_handlers (sys_step cfg sy ev) ! i) (spent (sy_app sy))
         else spent (sy_app sy)
     | Start_run run_id reset \<Rightarrow> if reset then spent (sy_app sy) @ [0] else spent (sy_app sy)
     | _ \<Rightarrow> spent (sy_app sy))"
proof -
  obtain ap hs where sy: "sy = \<lparr> sy_app = ap, sy_handlers = hs \<rparr>" by (cases sy) simp
  note inv = reach_inv [OF assms(2,1), unfolded sy]
  show ?thesis
  proof (cases ev)
    case (Arrive clock now uuid req)
    with spent_arrive [OF assms(1) inv] show ?thesis by (auto simp: sy split: prod.splits)
  next
    case (Resume i clock out)
    with spent_resume [OF inv] assms(3) show ?thesis by (auto simp: sy split: prod.splits)
  next
    case (Start_run run_id reset)
    with spent_run_start [OF assms(1)] show ?thesis by (simp add: sy)
  next
    case (Sse_read ref)
    then show ?thesis by (simp add: sy) (simp add: spent_def)
  qed (use spent_reap [OF inv] in \<open>simp_all add: sy run_complete_def shutdown_def stop_reaper_def\<close>)
qed

text \<open>
  C12: Only answers are charged.  In a reachable service the totals that the budgets are checked against
  change in two ways: a remote request that is answered adds exactly the cost in its response to the manager
  it arrived at, and a run that starts with \<open>reset\<close> adds a manager with nothing spent.  Arrivals, errors,
  cancellations, local answers, fallbacks, the reaper and the dashboard change no total.
\<close>

theorem only_answers_charged:
  assumes "config_ok cfg" and "reach cfg sy" and "event_ok sy ev"
  shows "spent (sy_app (sys_step cfg sy ev)) =
    (case ev of
       Resume i clock out \<Rightarrow>
         if i < length (sy_handlers sy)
         then charge (sy_handlers sy ! i) (sy_handlers (sys_step cfg sy ev) ! i) (spent (sy_app sy))
         else spent (sy_app sy)
     | Start_run run_id reset \<Rightarrow> if reset then spent (sy_app sy) @ [0] else spent (sy_app sy)
     | _ \<Rightarrow> spent (sy_app sy))"
  by (rule only_charged [OF assms])

theorem only_answers_charged_witness:
  "spent (sy_app sample_done) = [1 / 2]"
proof -
  obtain r where r: "sy_handlers sample_done = [Responded r]" using sample_done_state(1) by blast
  have "event_ok (sample_service QUALITY) (Resume 0 (\<lambda>_. 0) (Inr sample_result))"
    by (simp add: result_ok_def sample_result_def)
  note step = only_answers_charged [OF sample_config_ok sample_reach this, folded sample_done_def]
  have before: "spent (sy_app (sample_service QUALITY)) = [0]" "length (sy_handlers (sample_service QUALITY)) = 1"
    "\<exists>p. sy_handlers (sample_service QUALITY) ! 0 = Awaiting_remote p \<and> p_gen p = 0"
    using sample_remote by (simp_all add: spent_def sample_pending_def with_reservation_def sample_manager_def)
  with step r have "spent (sy_app sample_done) = [fadd 0 (resp_actual_cost r)]" by auto
  moreover from this obtain c where "ap_gens (sy_app sample_done) = [c]" by (auto simp: spent_def)
  ultimately show ?thesis using sample_done_state(3) by (simp add: spent_def)
qed

section \<open>Answers that come too late\<close>

lemma remote_pending:
  assumes "config_ok cfg" and "reach cfg sy" and "i < length (sy_handlers sy)"
    and "sy_handlers sy ! i = Awaiting_remote p" and "rd_reservation (p_dec p) = Some ref"
  shows "valid_pending (sy_app sy) p ref"
proof -
  have "sy_handlers sy ! i \<in> set (sy_handlers sy)" using assms(3) by simp
  then have "handler_ok (sy_app sy) (sy_handlers sy ! i)"
    using reach_inv [OF assms(2,1)] by (simp add: sys_inv_def Let_def)
  then show ?thesis using assms(4,5) by (auto simp: valid_pending_def)
qed

text \<open>
  C15: The reaper takes the reservation of a request that is still waiting.  When the reaper runs after a
  remote request's reservation has expired, the answer of the provider, whatever it is, is refused with 500
  and not charged: the request fails although the call succeeded.
\<close>

theorem expired_request_refused:
  assumes "config_ok cfg" and "reach cfg sy" and "i < length (sy_handlers sy)"
    and "sy_handlers sy ! i = Awaiting_remote p" and "rd_reservation (p_dec p) = Some ref"
    and "r = objects (gen_bm (sy_app sy) (p_gen p)) ! ref"
    and "c_reaper (ap_gens (sy_app sy) ! p_gen p)" and "is_expired now r"
    and "sy' = sys_step cfg (sys_step cfg sy (Reap (p_gen p) (\<lambda>_. now))) (Resume i clock (Inr res))"
  shows "sy_handlers sy' ! i = Http_error 500 (Error_text (InvalidReservationState (res_id r))) \<and>
         spent (sy_app sy') = spent (sy_app sy)"
proof -
  let ?g = "p_gen p"
  obtain ap hs where sy: "sy = \<lparr> sy_app = ap, sy_handlers = hs \<rparr>" by (cases sy) simp
  note inv = reach_inv [OF assms(2,1), unfolded sy]
  have v: "valid_pending ap p ref" using remote_pending [OF assms(1-5)] by (simp add: sy)
  then have g: "?g < length (ap_gens ap)" and ref: "ref < length (objects (gen_bm ap ?g))" and wf: "bm_wf (gen_bm ap ?g)"
    by (simp_all add: valid_pending_def)
  let ?b = "fst (expire_stale_reservations (\<lambda>_. now) (gen_bm ap ?g))" and ?ap = "reap ?g (\<lambda>_. now) ap"
  have reached: "bm_reach (gen_bm ap ?g) ?b" by (rule bm_reach_expire)
  have wf': "bm_wf ?b" by (rule bm_reach_wf [OF reached wf])
  note ev = bm_reach_evolves [OF reached wf]
  have same: "(objects ?b ! ref)\<lparr>res_state := Pending\<rparr> = r\<lparr>res_state := Pending\<rparr>" and len: "ref < length (objects ?b)"
    using ev ref assms(6) by (auto simp: evolves_def sy)
  have ids: "res_id (objects ?b ! ref) = res_id r" "created_at (objects ?b ! ref) = created_at r"
    "ttl_seconds (objects ?b ! ref) = ttl_seconds r"
    using arg_cong [OF same, of res_id] arg_cong [OF same, of created_at] arg_cong [OF same, of ttl_seconds] by simp_all
  have settled: "res_state (objects ?b ! ref) \<noteq> Pending"
  proof
    assume "res_state (objects ?b ! ref) = Pending"
    from pending_active [OF wf' len this] have "abs_table ?b (res_id r) = Some (objects ?b ! ref)"
      by (simp add: abs_table_def ids)
    from expire_leaves_fresh [OF wf this] assms(8) show False by (simp add: is_expired_def ids)
  qed
  have at: "gen_bm ?ap ?g = ?b" and gens: "?g < length (ap_gens ?ap)"
    using g assms(7) by (simp_all add: reap_def sy)
  have "map_of (active_reservations ?b) (res_id r) = None"
    using settled_not_active [OF wf' len settled] ids by simp
  then have "\<exists>calls. reservation_commit ref (br_actual_cost res) (br_actual_latency_ms res) (gen_bm ?ap ?g) =
      (?b, Inl (InvalidReservationState (res_id r)), calls)"
    using ids at by (simp add: reservation_commit_def commit_def)
  then obtain calls where c: "reservation_commit ref (br_actual_cost res) (br_actual_latency_ms res) (gen_bm ?ap ?g) =
      (?b, Inl (InvalidReservationState (res_id r)), calls)" by blast
  define ap1 where "ap1 = on_obs (record_calls clock 0 calls) (upd_gen ?g (\<lambda>c. c\<lparr>c_bm := ?b\<rparr>) ?ap)"
  have rd: "rd_reservation (p_dec p) = Some ref" by (rule assms(5))
  have st: "settle_request clock p (br_actual_cost res) (br_actual_latency_ms res) ?ap =
      (ap1, Inl (InvalidReservationState (res_id r)))"
    using c rd by (simp add: settle_request_def on_bm_def ap1_def)
  have "res_state (objects (gen_bm ap1 ?g) ! ref) \<noteq> Pending" using settled gens by (simp add: ap1_def)
  then have "on_exception clock p (InvalidReservationState (res_id r)) ap1 =
      (ap1, Http_error 500 (Error_text (InvalidReservationState (res_id r))))"
    using rd by (simp add: on_exception_def except_other_def rollback_pending_def Let_def)
  moreover have "spent ap1 = spent ap"
    using spent_refused [OF st] spent_reap [OF inv] by simp
  ultimately show ?thesis
    using assms(3,4,9) st by (simp add: sy resume_handler_def resume_remote_def)
qed

theorem expired_request_refused_witness:
  "sy_handlers (sys_step sample_config (sys_step sample_config (sample_service QUALITY) (Reap 0 (\<lambda>_. 60)))
      (Resume 0 (\<lambda>_. 0) (Inr sample_result))) ! 0 =
     Http_error 500 (Error_text (InvalidReservationState ''b''))"
proof -
  let ?p = "sample_pending QUALITY (decide REMOTE (Some 0) 800 (Quality_remote_preferred 800 3000))"
  have h: "0 < length (sy_handlers (sample_service QUALITY))" "sy_handlers (sample_service QUALITY) ! 0 = Awaiting_remote ?p"
    "p_gen ?p = 0" "rd_reservation (p_dec ?p) = Some 0"
    using sample_remote by (simp_all add: sample_pending_def)
  have r: "objects (gen_bm (sy_app (sample_service QUALITY)) (p_gen ?p)) ! 0 = \<lparr> reserved_cost = 1, reserved_latency_ms = 800,
      ttl_seconds = 45, res_id = ''b'', created_at = 3, res_state = Pending \<rparr>"
    "c_reaper (ap_gens (sy_app (sample_service QUALITY)) ! p_gen ?p)"
    using sample_remote by (simp_all add: sample_pending_def with_reservation_def sample_manager_def)
  have "is_expired 60 (objects (gen_bm (sy_app (sample_service QUALITY)) (p_gen ?p)) ! 0)"
    unfolding r(1) by (simp add: is_expired_def float_eval)
  from expired_request_refused [OF sample_config_ok sample_reach h(1,2,4) refl r(2) this refl] show ?thesis
    using r(1) h(3) by (simp del: sys_step.simps)
qed

end
