(* ===== verification/Endpoints.thy ===== *)
theory Endpoints
  imports Service_Properties
begin

text \<open>
  The observability endpoints of \<open>app/main.py\<close>: \<open>/health\<close>, \<open>/status\<close>,
  \<open>/metrics\<close>, \<open>/trace\<close> and \<open>/summary\<close>.  They read the components
  of the current run and change nothing.  A JSON object with a fixed set of numeric fields is an
  association list in the order the source writes them; the integers among the metrics are numbers
  like the others.
\<close>

section \<open>The endpoints\<close>

definition health :: "(string \<times> string) list" where
  "health = [(''status'', ''ok'')]"

definition latency_remaining :: "bm \<Rightarrow> flt" where
  "latency_remaining b =
     max 0 (fsub (fsub (max_cumulative_latency_ms b) (snap_cumulative_latency_ms (snapshot b)))
                 (snap_reserved_latency_ms (snapshot b)))"

definition status :: "app \<Rightarrow> resource_state" where
  "status ap =
     (let b = gen_bm ap (current ap); q = gen_qm ap (current ap); lt = gen_lt ap (current ap);
          snap = snapshot b
      in \<lparr> remote_budget_max = max_remote_budget b,
           remote_budget_spent = snap_cumulative_cost snap,
           remote_budget_reserved = snap_reserved snap,
           remote_budget_remaining = snap_remaining snap,
           latency_max_ms = max_cumulative_latency_ms b,
           latency_committed_ms = snap_cumulative_latency_ms snap,
           latency_reserved_ms = snap_reserved_latency_ms snap,
           latency_remaining_ms = latency_remaining b,
           local_capacity_max = max_concurrency q,
           local_capacity_active = active_count q,
           local_capacity_available = max_concurrency q - active_count q,
           estimated_local_latency_ms = get_estimate lt BACKEND_LOCAL,
           estimated_remote_latency_ms = get_estimate lt BACKEND_REMOTE,
           active_reservation_total = active_reservation_count b \<rparr>)"

definition clean :: "flt \<Rightarrow> flt" where
  "clean v = (if isclose v 0 eps9 then 0 else v)"

definition metrics :: "app \<Rightarrow> (string \<times> flt) list" where
  "metrics ap =
     (let b = gen_bm ap (current ap); q = gen_qm ap (current ap); lt = gen_lt ap (current ap);
          snap = snapshot b
      in [(''cumulative_remote_cost'', clean (snap_cumulative_cost snap)),
          (''reserved_remote_budget'', clean (snap_reserved snap)),
          (''remaining_remote_budget'', clean (snap_remaining snap)),
          (''cumulative_actual_latency_ms'', clean (snap_cumulative_latency_ms snap)),
          (''reserved_latency_ms'', clean (snap_reserved_latency_ms snap)),
          (''active_local_inferences'', of_int (active_count q)),
          (''max_local_concurrency'', of_int (max_concurrency q)),
          (''active_remote_reservations'', of_nat (active_reservation_count b)),
          (''local_latency_ema_ms'', clean (get_ema lt BACKEND_LOCAL)),
          (''remote_latency_ema_ms'', clean (get_ema lt BACKEND_REMOTE))])"

record trace_event =
  timestamp_us :: flt
  te_request_id :: string
  te_phase :: string
  te_action :: string

fun phase_value :: "phase \<Rightarrow> string" where
  "phase_value Reserve_phase = ''reserve''"
| "phase_value Settle_phase = ''settle''"

fun action_value :: "action \<Rightarrow> string" where
  "action_value Acquire = ''acquire''"
| "action_value Release = ''release''"

definition lock_trace_events :: "app \<Rightarrow> nat \<times> trace_event list" where
  "lock_trace_events ap =
     (let events = get_lock_trace (ob_trace (ap_obs ap))
      in (length events,
          map (\<lambda>(ts, rid, ph, act). \<lparr> timestamp_us = ts, te_request_id = rid, te_phase = phase_value ph,
                te_action = action_value act \<rparr>) events))"

record summary_report =
  budget_max :: flt
  budget_spent :: flt
  sum_budget_remaining :: flt
  sum_latency_max_ms :: flt
  sum_latency_committed_ms :: flt
  sum_latency_remaining_ms :: flt
  queue_active :: int
  queue_max :: int
  route_counts :: "(string \<times> nat) list"

definition summary :: "app \<Rightarrow> summary_report" where
  "summary ap =
     (let b = gen_bm ap (current ap); q = gen_qm ap (current ap); snap = snapshot b
      in \<lparr> budget_max = max_remote_budget b,
           budget_spent = snap_cumulative_cost snap,
           sum_budget_remaining = max 0 (snap_remaining snap),
           sum_latency_max_ms = max_cumulative_latency_ms b,
           sum_latency_committed_ms = snap_cumulative_latency_ms snap,
           sum_latency_remaining_ms = latency_remaining b,
           queue_active = active_count q,
           queue_max = max_concurrency q,
           route_counts = ap_counts ap \<rparr>)"

section \<open>Lemmas\<close>

lemma eps9_bounds: "1 / 2 ^ 31 \<le> eps9" "rnd (1 / 10 ^ 9) \<le> 1 / 2"
  by code_simp+

text \<open>\<open>_clean\<close> is a threshold, although \<open>isclose\<close> also has a relative tolerance.\<close>

lemma clean_eq:
  assumes "is_float v" shows "clean v = (if \<bar>v\<bar> \<le> eps9 then 0 else v)"
proof -
  have "\<bar>v\<bar> \<le> eps9" if "\<bar>v\<bar> \<le> \<bar>fmul (rnd (1 / 10 ^ 9)) v\<bar>"
  proof -
    let ?x = "rnd (1 / 10 ^ 9) * v"
    have x: "\<bar>?x\<bar> \<le> 1 / 2 * \<bar>v\<bar>"
      unfolding abs_mult using eps9_bounds(2) by (intro mult_right_mono) auto
    have "\<bar>fmul (rnd (1 / 10 ^ 9)) v - ?x\<bar> \<le> half_ulp \<bar>?x\<bar>"
      by (rule fmul_error) simp
    also have "\<dots> \<le> (\<bar>?x\<bar> + 1) / 2 ^ 53" by (rule half_ulp_le)
    finally have "\<bar>v\<bar> \<le> \<bar>?x\<bar> + (\<bar>?x\<bar> + 1) / 2 ^ 53" using that by linarith
    with x have "\<bar>v\<bar> \<le> 1 / 2 ^ 31" by (simp add: field_simps)
    with eps9_bounds(1) show ?thesis by linarith
  qed
  moreover have "fsub 0 v = - v" using assms by (simp add: fsub_def rnd_minus is_float_def)
  ultimately show ?thesis
    using eps_pos(2) by (auto simp: clean_def isclose_def Let_def)
qed

lemma clean_small: "\<bar>v\<bar> \<le> eps9 \<Longrightarrow> clean v = 0"
proof -
  assume "\<bar>v\<bar> \<le> eps9"
  then have "rnd (- v) \<le> rnd eps9" "rnd (- eps9) \<le> rnd (- v)" by (intro rnd_mono; linarith)+
  then have "\<bar>fsub 0 v\<bar> \<le> eps9" by (simp add: fsub_def rnd_minus eps9_def)
  then show ?thesis by (simp add: clean_def isclose_def Let_def)
qed

lemma clean_cases: "clean v = 0 \<or> clean v = v"
  by (simp add: clean_def)

lemma in_current: "ap_gens ap \<noteq> [] \<Longrightarrow> current ap < length (ap_gens ap)"
  by (simp add: current_def)

text \<open>The limits of a manager are constant, and it has no more active reservations than objects.\<close>

lemma limits_expire:
  "max_remote_budget (fst (expire_loop clock i al b)) = max_remote_budget b \<and>
   max_cumulative_latency_ms (fst (expire_loop clock i al b)) = max_cumulative_latency_ms b"
  by (induction clock i al b rule: expire_loop.induct) (auto simp: Let_def split_beta)

lemma limits_step:
  "max_remote_budget (bm_step b op) = max_remote_budget b \<and>
   max_cumulative_latency_ms (bm_step b op) = max_cumulative_latency_ms b"
proof (cases op)
  case (Op_reserve now uuid req cost lat)
  then show ?thesis by (rule_tac try_reserve_cases [of cost lat now uuid req b]) (auto simp: with_reservation_def)
next
  case (Op_commit rid ac al)
  then show ?thesis by (rule_tac commit_cases [of b rid ac al]) auto
next
  case (Op_rollback rid)
  then show ?thesis by (rule_tac rollback_cases [of b rid]) auto
next
  case (Op_expire clock)
  then show ?thesis using limits_expire by (simp add: expire_stale_reservations_def)
qed

lemma limits_run:
  "max_remote_budget (run bm_step b ops) = max_remote_budget b \<and>
   max_cumulative_latency_ms (run bm_step b ops) = max_cumulative_latency_ms b"
  by (induction ops arbitrary: b) (simp_all add: limits_step)

lemma gen_ok_limits:
  "gen_ok cfg c \<Longrightarrow> max_remote_budget (c_bm c) = MAX_REMOTE_BUDGET cfg \<and>
     max_cumulative_latency_ms (c_bm c) = MAX_CUMULATIVE_LATENCY_MS cfg"
  by (auto simp: gen_ok_def bm_reach_def limits_run init_bm_def split: if_splits)

lemma wf_table_length:
  assumes "wf_table act objs" shows "length act \<le> length objs"
proof -
  note w = wf_tableD [OF assms]
  have "map fst act = map (\<lambda>ref. res_id (objs ! ref)) (map snd act)" using w(4) by auto
  then have "distinct (map snd act)" using w(1) by (metis distinct_map)
  then have "length act = card (set (map snd act))" using distinct_card by fastforce
  also have "\<dots> \<le> card {..<length objs}" using w(3) by (intro card_mono) auto
  finally show ?thesis by simp
qed

text \<open>What starting a request leaves on the counters and on the event bus.\<close>

lemma record_calls_bus [simp]: "ob_bus (record_calls clock k calls ob) = ob_bus ob"
  by (induction clock k calls ob rule: record_calls.induct) simp_all

lemma obs_simps [simp]:
  "ap_counts (on_obs f ap) = ap_counts ap" "ap_counts (upd_gen g k ap) = ap_counts ap"
  "ap_obs (upd_gen g k ap) = ap_obs ap" "ap_obs (on_obs f ap) = f (ap_obs ap)"
  "ap_obs (count_route r ap) = ap_obs ap" "ap_counts (count_route r ap) = bump (route_value r) (ap_counts ap)"
  by (simp_all add: on_obs_def upd_gen_def count_route_def)

lemma log_bus [simp]:
  "ob_bus (log_request_received rid sla tier ob) = ob_bus ob"
  "ob_bus (log_reservation_made rid res cost lat ob) = ob_bus ob"
  "ob_bus (log_execution_start rid backend ob) = ob_bus ob"
  "ob_bus (log_route_decision rid r why est depth liquid tier msg ob) =
     publish (Route_decided rid r tier why (clip est) depth (clip liquid) msg) (ob_bus ob)"
  by (simp_all add: log_defs)

lemma on_bm_obs: "on_bm clock g f ap = (ap', r) \<Longrightarrow> ap_counts ap' = ap_counts ap \<and> ob_bus (ap_obs ap') = ob_bus (ap_obs ap)"
  by (auto simp: on_bm_def split: prod.splits)

lemma on_exception_not_waiting:
  "on_exception clock p e ap \<noteq> (ap', Awaiting_remote p')" "on_exception clock p e ap \<noteq> (ap', Awaiting_local p')"
  by (cases e;
      auto simp: on_exception_def except_runtime_def except_exceeded_def except_remote_def except_other_def Let_def
        split: prod.splits sum.splits option.splits if_splits)+

lemma start_request_published:
  assumes "start_request cfg clock now uuid req ap = (ap', h)" "h = Awaiting_remote p \<or> h = Awaiting_local p"
  shows "ap_counts ap' = bump (route_value (rd_route (p_dec p))) (ap_counts ap) \<and>
         (\<exists>rid tier why est depth liquid msg. ob_bus (ap_obs ap') =
            publish (Route_decided rid (rd_route (p_dec p)) tier why est depth liquid msg) (ob_bus (ap_obs ap)))"
proof -
  let ?g = "current ap"
  let ?req = "req\<lparr>req_complexity_tier := Some (case req_complexity_tier req of None \<Rightarrow> classify (prompt req) | Some t \<Rightarrow> t)\<rparr>"
  let ?ap0 = "on_obs (log_request_received (request_id ?req) (latency_budget_ms ?req) (the (req_complexity_tier ?req))) ap"
  obtain ap1 r where b: "on_bm clock ?g (route cfg now uuid (gen_qm ?ap0 ?g) (gen_lt ?ap0 ?g) ?req) ?ap0 = (ap1, r)"
    by (rule prod.exhaust)
  have o: "ap_counts ap1 = ap_counts ap" "ob_bus (ap_obs ap1) = ob_bus (ap_obs ap)"
    using on_bm_obs [OF b] by simp_all
  obtain d where d: "r = Inr d" "rd_route d \<noteq> FAIL_FAST"
    using assms b by (cases r) (auto simp: start_request_def Let_def split: if_splits)
  show ?thesis
    using assms b d o
    by (auto simp: start_request_def Let_def on_exception_not_waiting split: if_splits option.splits sum.splits prod.splits)
       ((intro exI, rule refl)+)
qed

section \<open>Properties\<close>

text \<open>
  C23: \<open>/status\<close> is well formed.  In every reachable state it reports the configured limits, a
  number of active local requests between 0 and the capacity with the rest available, nothing negative
  among what remains, positive estimates, and no more active reservations than requests were made.
\<close>

theorem status_well_formed:
  assumes "config_ok cfg" and "reach cfg sy" and "s = status (sy_app sy)"
  shows "remote_budget_max s = MAX_REMOTE_BUDGET cfg \<and> latency_max_ms s = MAX_CUMULATIVE_LATENCY_MS cfg \<and>
         0 \<le> remote_budget_remaining s \<and> 0 \<le> latency_remaining_ms s \<and>
         local_capacity_max s = LOCAL_QUEUE_CAPACITY cfg \<and>
         0 \<le> local_capacity_active s \<and> 0 \<le> local_capacity_available s \<and>
         local_capacity_active s + local_capacity_available s = local_capacity_max s \<and>
         0 < estimated_local_latency_ms s \<and> 0 < estimated_remote_latency_ms s \<and>
         active_reservation_total s \<le> length (sy_handlers sy)"
proof -
  have inv: "sys_inv cfg sy" by (rule reach_inv [OF assms(2,1)])
  let ?ap = "sy_app sy" and ?g = "current (sy_app sy)"
  have g: "?g < length (ap_gens ?ap)" using inv by (intro in_current) (simp add: sys_inv_def Let_def)
  then have ok: "gen_ok cfg (ap_gens ?ap ! ?g)" and len: "length (objects (gen_bm ?ap ?g)) \<le> length (sy_handlers sy)"
    using inv by (simp_all add: sys_inv_def Let_def)
  have q: "qm_ok (gen_qm ?ap ?g)" "max_concurrency (gen_qm ?ap ?g) = LOCAL_QUEUE_CAPACITY cfg"
    and "lt_ok cfg (gen_lt ?ap ?g)"
    using ok by (simp_all add: gen_ok_def)
  then have "0 < get_estimate (gen_lt ?ap ?g) b" if "b = BACKEND_LOCAL \<or> b = BACKEND_REMOTE" for b
    using lt_ok_estimates [OF assms(1)] that by blast
  moreover have "length (active_reservations (gen_bm ?ap ?g)) \<le> length (sy_handlers sy)"
    using wf_table_length gen_ok_wf [OF ok] len unfolding bm_wf_def by (meson le_trans)
  ultimately show ?thesis
    using q gen_ok_limits [OF ok]
    by (simp add: assms(3) status_def Let_def snapshot_def latency_remaining_def qm_ok_def active_reservation_count_def)
qed

theorem status_well_formed_witness:
  "local_capacity_active (status (sy_app (sample_service FAST))) = 1 \<and>
   local_capacity_available (status (sy_app (sample_service FAST))) = 7"
proof -
  have "local_capacity_active (status (sy_app (sample_service FAST))) = 1"
    using sample_local by (simp add: status_def Let_def current_def sample_qm_def)
  with status_well_formed [OF sample_config_ok sample_reach [of FAST] refl] show ?thesis
    by (simp add: sample_config_def default_config_def)
qed

text \<open>
  C25: Watching changes what \<open>/summary\<close> counts.  The handler counts the route of a request, and the event
  stream of every connected dashboard counts it again: with one idle client, a request that starts has been
  counted twice once the client has read its event.
\<close>

theorem dashboard_counts_twice:
  assumes "start_request cfg clock now uuid req ap = (ap', h)" and "h = Awaiting_remote p \<or> h = Awaiting_local p"
    and "bus_ok (ob_bus (ap_obs ap))" and "ref \<in> set (bus_subscribers (ob_bus (ap_obs ap)))"
    and "bus_queues (ob_bus (ap_obs ap)) ! ref = []" and "key = route_value (rd_route (p_dec p))"
    and "map_of (route_counts (summary ap)) key = Some n"
  shows "map_of (route_counts (summary ap')) key = Some (n + 1) \<and>
         map_of (route_counts (summary (sse_read ref ap'))) key = Some (n + 2)"
proof -
  obtain rid tier why est depth liquid msg where c: "ap_counts ap' = bump key (ap_counts ap)"
    and b: "ob_bus (ap_obs ap') = publish (Route_decided rid (rd_route (p_dec p)) tier why est depth liquid msg) (ob_bus (ap_obs ap))"
    using start_request_published [OF assms(1,2)] assms(6) by blast
  have "ref < length (bus_queues (ob_bus (ap_obs ap)))" using assms(3,4) by (simp add: bus_ok_def)
  then have "bus_queues (ob_bus (ap_obs ap')) ! ref = [Route_decided rid (rd_route (p_dec p)) tier why est depth liquid msg]"
    using publish_nth [OF assms(3)] assms(4,5)
    by (simp add: b deliver_def queue_full_def put_nowait_def MAX_QUEUE_SIZE_def)
  then have "ap_counts (sse_read ref ap') = bump key (bump key (ap_counts ap))"
    using c assms(6) by (simp add: sse_read_def take_event_def)
  with c assms(7) show ?thesis by (simp add: summary_def Let_def bump_def update_conv')
qed

definition watched_app :: app where
  "watched_app = on_obs (\<lambda>ob. ob\<lparr>ob_bus := fst (subscribe (ob_bus ob))\<rparr>) sample_app"

lemma watched_start:
  "\<exists>ap'. start_request sample_config (\<lambda>_. 0) 3 ''b'' (sample_request QUALITY 3000) watched_app =
     (ap', Awaiting_remote (sample_pending QUALITY (decide REMOTE (Some 0) 800 (Quality_remote_preferred 800 3000))))"
  by (simp add: watched_app_def start_request_def on_bm_def sample_route_remote_idle Let_def sample_pending_def)

lemma watched_bus: "ob_bus (ap_obs watched_app) = \<lparr> bus_queues = [[]], bus_subscribers = [0] \<rparr>"
  by (simp add: watched_app_def sample_app_def init_obs_def init_bus_def subscribe_def Let_def)

theorem dashboard_counts_twice_witness:
  "\<exists>ap' h. start_request sample_config (\<lambda>_. 0) 3 ''b'' (sample_request QUALITY 3000) watched_app = (ap', h) \<and>
     map_of (route_counts (summary (sse_read 0 ap'))) ''REMOTE'' = Some 2"
proof -
  obtain ap' where s: "start_request sample_config (\<lambda>_. 0) 3 ''b'' (sample_request QUALITY 3000) watched_app =
     (ap', Awaiting_remote (sample_pending QUALITY (decide REMOTE (Some 0) 800 (Quality_remote_preferred 800 3000))))"
    using watched_start by blast
  have "map_of (route_counts (summary watched_app)) ''REMOTE'' = Some 0"
    by (simp add: summary_def Let_def watched_app_def sample_app_def fresh_counts_def)
  with dashboard_counts_twice [OF s disjI1 [OF refl], of 0 "''REMOTE''" 0] s show ?thesis
    by (simp add: watched_bus bus_ok_def sample_pending_def MAX_QUEUE_SIZE_def numeral_2_eq_2)
qed

end
