(* ===== verification/Wire.thy ===== *)
theory Wire
  imports Deployment Endpoints
begin

text \<open>
  The texts and JSON documents that leave the service: the reasons of \<open>decision_agent.py\<close>, the
  \<open>detail\<close> of an HTTP error, the payload dictionaries of \<open>observability.py\<close>, the answer of
  \<open>/inference\<close>, and \<open>json.dumps\<close> as the event stream uses it.

  A Python string is a sequence of code points.  A HOL \<open>string\<close> holds those below 256; the two texts
  with a further sign are lists of code points (\<open>cps\<close> embeds a \<open>string\<close>).  The text Python
  prints for a float is the parameter \<open>rp\<close>.
\<close>

section \<open>Texts\<close>

definition cps :: "string \<Rightarrow> nat list" where
  "cps s = map of_char s"

definition truth_text :: "bool \<Rightarrow> string" where
  "truth_text b = (if b then ''True'' else ''False'')"

definition ms :: "flt \<Rightarrow> string" where
  "ms x = show_fixed 0 x @ ''ms''"

text \<open>The f-strings of \<open>_route_fast\<close> and \<open>_route_quality\<close>; \<open>0x2264\<close> is the sign
  for "less or equal".\<close>

fun reason_text :: "reason \<Rightarrow> nat list" where
  "reason_text (Fast_local_healthy depth cap est sla) =
     cps (''[FAST] Local queue healthy ('' @ show_int depth @ ''/'' @ show_int cap @ ''), est latency '' @ ms est @ '' '') @
     [0x2264] @ cps ('' SLA '' @ ms sla)"
| "reason_text Fast_latency_cap =
     cps ''[FAST] Global cumulative latency cap would be breached by local route''"
| "reason_text (Fast_escalate_remote at_capacity est_local) =
     cps (''[FAST] Local infeasible (capacity='' @ truth_text at_capacity @ '', est_local='' @ ms est_local @
          ''); escalating to remote as last resort'')"
| "reason_text (Fast_degraded est) =
     cps (''[FAST] Budget/SLA exhausted; degrading to local queue (SLA will be missed: est '' @ ms est @ '')'')"
| "reason_text Fast_degraded_latency_cap =
     cps ''[FAST] Budget exhausted and global latency cap would be breached''"
| "reason_text (Fast_exhausted remote_ok) =
     cps (''[FAST] All routes exhausted: local at capacity, remote '' @
          (if \<not> remote_ok then ''over SLA'' else ''budget exhausted''))"
| "reason_text (Quality_remote_preferred est sla) =
     cps (''[QUALITY] Remote preferred for high-complexity request; budget available, est '' @ ms est @ '' '') @
     [0x2264] @ cps ('' SLA '' @ ms sla)"
| "reason_text (Quality_fall_back_local est) =
     cps (''[QUALITY] Remote budget exhausted or over SLA; falling back to local (est '' @ ms est @ '')'')"
| "reason_text Quality_latency_cap =
     cps ''[QUALITY] Global cumulative latency cap would be breached by local fallback''"
| "reason_text (Quality_degraded est) =
     cps (''[QUALITY] All preferred routes exhausted; degrading to local queue (SLA will be missed: est '' @ ms est @ '')'')"
| "reason_text Quality_degraded_latency_cap =
     cps ''[QUALITY] Budget exhausted and global latency cap would be breached''"
| "reason_text Quality_exhausted =
     cps ''[QUALITY] All routes exhausted: remote budget exhausted, local at capacity''"
| "reason_text Fallback_after_remote_failure = cps ''Fallback after remote failure''"

text \<open>The reasons of a \<open>FAIL_FAST\<close> decision, the only ones that become the detail of an answer,
  are plain strings.\<close>

fun rejects :: "reason \<Rightarrow> bool" where
  "rejects Fast_latency_cap = True"
| "rejects Fast_degraded_latency_cap = True"
| "rejects (Fast_exhausted _) = True"
| "rejects Quality_latency_cap = True"
| "rejects Quality_degraded_latency_cap = True"
| "rejects Quality_exhausted = True"
| "rejects _ = False"

fun detail_text :: "detail \<Rightarrow> string" where
  "detail_text (Because why) = map char_of (reason_text why)"
| "detail_text (Plain s) = s"
| "detail_text (Error_text e) = exc_text e"
| "detail_text (Prefixed s e) = s @ exc_text e"

section \<open>\<open>json.dumps\<close>\<close>

definition hex_digit :: "nat \<Rightarrow> char" where
  "hex_digit d = char_of (if d < 10 then 48 + d else 87 + d)"

definition hex4 :: "nat \<Rightarrow> string" where
  "hex4 n = [hex_digit (n div 4096 mod 16), hex_digit (n div 256 mod 16), hex_digit (n div 16 mod 16), hex_digit (n mod 16)]"

definition bs :: char where "bs = CHR 0x5C"
definition dq :: char where "dq = CHR 0x22"

definition escape :: "nat \<Rightarrow> string" where
  "escape n =
     (if n = 0x22 then [bs, dq]
      else if n = 0x5C then [bs, bs]
      else if n = 10 then [bs, CHR ''n'']
      else if n = 13 then [bs, CHR ''r'']
      else if n = 9 then [bs, CHR ''t'']
      else if n = 12 then [bs, CHR ''f'']
      else if n = 8 then [bs, CHR ''b'']
      else if 32 \<le> n \<and> n \<le> 126 then [char_of n]
      else if n < 0x10000 then [bs, CHR ''u''] @ hex4 n
      else [bs, CHR ''u''] @ hex4 (0xD800 + (n - 0x10000) div 0x400) @
           [bs, CHR ''u''] @ hex4 (0xDC00 + (n - 0x10000) mod 0x400))"

definition dumps_str :: "nat list \<Rightarrow> string" where
  "dumps_str ns = dq # concat (map escape ns) @ [dq]"

definition sep_by :: "string \<Rightarrow> string list \<Rightarrow> string" where
  "sep_by sep xs = (case xs of [] \<Rightarrow> [] | y # ys \<Rightarrow> y @ concat (map (\<lambda>s. sep @ s) ys))"

fun dumps :: "(flt \<Rightarrow> string) \<Rightarrow> json \<Rightarrow> string" where
  "dumps rp JNull = ''null''"
| "dumps rp (JBool b) = (if b then ''true'' else ''false'')"
| "dumps rp (JInt n) = show_int n"
| "dumps rp (JFloat x) = rp x"
| "dumps rp (JString s) = dumps_str (cps s)"
| "dumps rp (JList vs) = ''['' @ sep_by '', '' (map (dumps rp) vs) @ '']''"
| "dumps rp (JObject kvs) =
     ''{'' @ sep_by '', '' (map (\<lambda>(k, v). dumps_str (cps k) @ '': '' @ dumps rp v) kvs) @ ''}''"

section \<open>The payloads of the log records\<close>

datatype field = Json json | Text "nat list"

type_synonym payload = "(string \<times> field) list"

fun dumps_field :: "(flt \<Rightarrow> string) \<Rightarrow> field \<Rightarrow> string" where
  "dumps_field rp (Json v) = dumps rp v"
| "dumps_field rp (Text ns) = dumps_str ns"

definition dumps_payload :: "(flt \<Rightarrow> string) \<Rightarrow> payload \<Rightarrow> string" where
  "dumps_payload rp kvs = ''{'' @ sep_by '', '' (map (\<lambda>(k, v). dumps_str (cps k) @ '': '' @ dumps_field rp v) kvs) @ ''}''"

abbreviation jstr :: "string \<Rightarrow> field" where "jstr s \<equiv> Json (JString s)"
abbreviation jint :: "int \<Rightarrow> field" where "jint n \<equiv> Json (JInt n)"
abbreviation jflt :: "flt \<Rightarrow> field" where "jflt x \<equiv> Json (JFloat x)"

fun payload :: "log_event \<Rightarrow> payload" where
  "payload (Request_received rid sla tier) =
     [(''event'', jstr ''request_received''), (''request_id'', jstr rid), (''latency_budget_ms'', jflt sla),
      (''complexity_tier'', jstr (tier_value tier))]"
| "payload (Route_decided rid r tier why est depth liquid p) =
     [(''event'', jstr ''route_decision''), (''request_id'', jstr rid), (''route'', jstr (route_value r)),
      (''complexity_tier'', jstr (tier_value tier)), (''reason'', Text (reason_text why)),
      (''estimated_latency_ms'', jflt est), (''queue_depth'', jint depth), (''liquid_budget'', jflt liquid),
      (''prompt'', jstr p)]"
| "payload (Reservation_made rid res cost lat) =
     [(''event'', jstr ''reservation_made''), (''request_id'', jstr rid), (''reservation_id'', jstr res),
      (''reserved_cost'', jflt cost), (''reserved_latency_ms'', jflt lat)]"
| "payload (Execution_start rid backend) =
     [(''event'', jstr ''execution_start''), (''request_id'', jstr rid), (''backend'', jstr backend)]"
| "payload (Execution_complete rid backend cost lat pt ct cr cw outcome remaining) =
     [(''event'', jstr ''execution_complete''), (''request_id'', jstr rid), (''backend'', jstr backend),
      (''actual_cost'', jflt cost), (''actual_latency_ms'', jflt lat), (''prompt_tokens'', jint pt),
      (''completion_tokens'', jint ct), (''cache_read_tokens'', jint cr), (''cache_write_tokens'', jint cw),
      (''outcome'', jstr outcome), (''budget_remaining'', jflt remaining)]"
| "payload (Reservation_committed rid res cost remaining) =
     [(''event'', jstr ''reservation_committed''), (''request_id'', jstr rid), (''reservation_id'', jstr res),
      (''actual_cost'', jflt cost), (''budget_remaining'', jflt remaining)]"
| "payload (Reservation_rolled_back rid res why cost) =
     [(''event'', jstr ''reservation_rolled_back''), (''request_id'', jstr rid), (''reservation_id'', jstr res),
      (''reason'', jstr (detail_text why)), (''reserved_cost_returned'', jflt cost)]"
| "payload (Fail_fast_logged rid why code) =
     [(''event'', jstr ''fail_fast''), (''request_id'', jstr rid), (''reason'', jstr (detail_text why)),
      (''status_code'', jint code)]"
| "payload (Remote_failure rid err) =
     [(''event'', jstr ''remote_failure''), (''request_id'', jstr rid), (''error'', jstr (detail_text err))]"
| "payload (Ollama_health_ok url) = [(''event'', jstr ''ollama_health_ok''), (''url'', jstr url)]"
| "payload (Ollama_health_warn url) =
     [(''event'', jstr ''ollama_health_warn''), (''url'', jstr url),
      (''detail'', Text (cps ''Ollama unreachable at startup '' @ [0x2014] @
                         cps '' local backend will fail until it is available''))]"
| "payload (Rollback_event rid res cost why) =
     [(''event'', jstr ''rollback_event''), (''request_id'', jstr rid), (''reservation_id'', jstr res),
      (''reserved_cost_returned'', jflt cost), (''reason'', jstr (detail_text why))]"
| "payload (Run_started run_id) = [(''event'', jstr ''run_start''), (''run_id'', jstr run_id)]"
| "payload (Run_completed run_id verdict mets rts) =
     [(''event'', jstr ''run_complete''), (''run_id'', jstr run_id), (''verdict'', jstr verdict),
      (''metrics'', Json (JObject mets)),
      (''routes'', Json (JObject rts))]"

section \<open>The answer of \<open>/inference\<close>\<close>

definition response_json :: "inference_response \<Rightarrow> json" where
  "response_json r =
     JObject
       [(''request_id'', JString (resp_request_id r)), (''route'', JString (route_value (resp_route r))),
        (''complexity_tier'', JString (tier_value (resp_complexity_tier r))),
        (''actual_cost'', JFloat (resp_actual_cost r)), (''actual_latency_ms'', JFloat (resp_actual_latency_ms r)),
        (''prompt_tokens'', JInt (resp_prompt_tokens r)), (''completion_tokens'', JInt (resp_completion_tokens r)),
        (''cache_read_tokens'', JInt (resp_cache_read_tokens r)), (''cache_write_tokens'', JInt (resp_cache_write_tokens r)),
        (''result'', JString (resp_result r)), (''budget_remaining'', JFloat (resp_budget_remaining r))]"

text \<open>
  What the client receives: the response model, an \<open>HTTPException\<close>, or the plain 500 of the framework
  for an exception nobody caught.  \<open>render\<close> is the serialiser of the framework.  A handler that waits or
  was cancelled sends nothing.
\<close>

definition http_reply :: "(json \<Rightarrow> string) \<Rightarrow> handler \<Rightarrow> http_response option" where
  "http_reply render h =
     (case h of
        Responded r \<Rightarrow>
          Some \<lparr> http_status = 200, http_text = render (response_json r), http_json = Inr (response_json r) \<rparr>
      | Http_error code t \<Rightarrow>
          let body = JObject [(''detail'', JString (detail_text t))]
          in Some \<lparr> http_status = code, http_text = render body, http_json = Inr body \<rparr>
      | Unhandled e \<Rightarrow>
          Some \<lparr> http_status = 500, http_text = ''Internal Server Error'',
                 http_json = Inl (OtherException ''JSONDecodeError'' ''Expecting value: line 1 column 1 (char 0)'') \<rparr>
      | _ \<Rightarrow> None)"

text \<open>The bodies of the run markers and of \<open>DELETE /trace\<close>, and their answers.\<close>

record run_start_payload =
  rs_run_id :: string
  rs_reset :: bool

record run_complete_payload =
  rc_run_id :: string
  rc_verdict :: string
  rc_metrics :: "(string \<times> json) list"
  rc_routes :: "(string \<times> json) list"

text \<open>\<open>reset: bool = True\<close>\<close>

definition parse_run_start :: "string \<Rightarrow> bool option \<Rightarrow> run_start_payload" where
  "parse_run_start run_id reset = \<lparr> rs_run_id = run_id, rs_reset = (case reset of None \<Rightarrow> True | Some b \<Rightarrow> b) \<rparr>"

definition post_run_start :: "config \<Rightarrow> run_start_payload \<Rightarrow> app \<Rightarrow> app \<times> (exc + json)" where
  "post_run_start cfg b ap =
     (case run_start cfg (rs_run_id b) (rs_reset b) ap of
        (ap', Inl e) \<Rightarrow> (ap', Inl e)
      | (ap', Inr _) \<Rightarrow>
          (ap', Inr (JObject [(''status'', JString ''started''), (''run_id'', JString (rs_run_id b)),
                              (''reset'', JBool (rs_reset b))])))"

definition post_run_complete :: "run_complete_payload \<Rightarrow> app \<Rightarrow> app \<times> json" where
  "post_run_complete b ap =
     (run_complete (rc_run_id b) (rc_verdict b) (rc_metrics b) (rc_routes b) ap,
      JObject [(''status'', JString ''completed''), (''run_id'', JString (rc_run_id b))])"

definition delete_trace :: "app \<Rightarrow> app \<times> json" where
  "delete_trace ap =
     (on_obs (\<lambda>ob. ob\<lparr>ob_trace := clear_lock_trace (ob_trace ob)\<rparr>) ap, JObject [(''cleared'', JBool True)])"

section \<open>Lemmas\<close>

lemma cps_char [simp]: "map char_of (cps s) = s"
  by (simp add: cps_def comp_def)

lemma cps_append [simp]: "cps (s @ t) = cps s @ cps t" and cps_Nil [simp]: "cps [] = []"
  by (simp_all add: cps_def)

text \<open>The detail of a rejected request loses nothing: its reason is a plain string.\<close>

lemma rejects_latin: "rejects why \<Longrightarrow> cps (detail_text (Because why)) = reason_text why"
  by (cases why) (simp_all add: comp_def)

text \<open>What \<open>json.dumps\<close> prints is printable ASCII.\<close>

definition printable :: "string \<Rightarrow> bool" where
  "printable s \<longleftrightarrow> (\<forall>c \<in> set s. 32 \<le> (of_char c :: nat) \<and> (of_char c :: nat) \<le> 126)"

lemma printable_simps [simp]:
  "printable []" "printable (c # s) \<longleftrightarrow> 32 \<le> (of_char c :: nat) \<and> (of_char c :: nat) \<le> 126 \<and> printable s"
  "printable (s @ t) \<longleftrightarrow> printable s \<and> printable t"
  by (auto simp: printable_def)

lemma printable_concat [simp]: "printable (concat ss) \<longleftrightarrow> (\<forall>s \<in> set ss. printable s)"
  by (induction ss) auto

lemma printable_sep: "printable sep \<Longrightarrow> (\<And>s. s \<in> set ss \<Longrightarrow> printable s) \<Longrightarrow> printable (sep_by sep ss)"
  by (auto simp: sep_by_def split: list.splits)

lemma hex_digit_code: "d < 16 \<Longrightarrow> 32 \<le> (of_char (hex_digit d) :: nat) \<and> (of_char (hex_digit d) :: nat) \<le> 126"
  by (simp add: hex_digit_def)

lemma printable_hex4 [simp]: "printable (hex4 n)"
proof -
  have "d mod 16 < 16" for d :: nat by simp
  with hex_digit_code show ?thesis by (simp only: hex4_def printable_simps simp_thms)
qed

lemma printable_escape [simp]: "printable (escape n)"
  by (simp add: escape_def bs_def dq_def)

lemma printable_dumps_str [simp]: "printable (dumps_str ns)"
  by (simp add: dumps_str_def dq_def)

lemma printable_show_nat [simp]: "printable (show_nat n)"
proof (induction n rule: show_nat.induct)
  case (1 n)
  then show ?case by (cases "n < 10") (simp_all add: show_nat.simps [of n])
qed

lemma printable_show_int [simp]: "printable (show_int n)"
  by (simp add: show_int_def)

lemma printable_dumps: "(\<And>x. printable (rp x)) \<Longrightarrow> printable (dumps rp v)"
proof (induction rp v rule: dumps.induct)
  case (6 rp vs)
  then show ?case by (auto intro!: printable_sep)
next
  case (7 rp kvs)
  have "printable (sep_by '', '' (map (\<lambda>(k, v). dumps_str (cps k) @ '': '' @ dumps rp v) kvs))"
    using 7 by (intro printable_sep) auto
  then show ?case by simp
qed simp_all

lemma printable_payload: "(\<And>x. printable (rp x)) \<Longrightarrow> printable (dumps_payload rp kvs)"
proof -
  assume rp: "\<And>x. printable (rp x)"
  have "printable (dumps_field rp f)" for f by (cases f) (simp_all add: printable_dumps rp)
  then have "printable (sep_by '', '' (map (\<lambda>(k, v). dumps_str (cps k) @ '': '' @ dumps_field rp v) kvs))"
    by (intro printable_sep) auto
  then show ?thesis by (simp add: dumps_payload_def)
qed

end
