(* ===== verification/Load_Generator.thy ===== *)
theory Load_Generator
  imports Wire
begin

text \<open>
  \<open>load_generator.py\<close>: the demo client.  One request and its result row, the batch of
  requests of a run, the counts of the routing breakdown, the verdict on \<open>/metrics\<close>, and the
  printed lock timeline.  A result row is the dictionary the source builds, as an association list of
  \<open>json\<close> values; the metrics are the numbers of \<open>Endpoints.metrics\<close>.  The error lines of
  the verdict are values of \<open>verdict_error\<close> with the numbers they print.
\<close>

section \<open>One request\<close>

type_synonym row = "(string \<times> json) list"

text \<open>
  \<open>send_request\<close>: \<open>reply\<close> is what \<open>client.post\<close> returns or raises, \<open>t1\<close>
  the clock reading after it and \<open>t2\<close> the one in the \<open>except\<close> clause.  A body that is not
  JSON counts as an empty object; one that is not an object makes \<open>data.get\<close> raise.
\<close>

definition ok_row :: "string \<Rightarrow> int \<Rightarrow> flt \<Rightarrow> json \<Rightarrow> exc + row" where
  "ok_row req_id code duration data =
     try_then (json_get data ''route'' (JString (if code = 503 then ''FAIL_FAST'' else ''ERROR''))) (\<lambda>route.
     try_then (json_get data ''complexity_tier'' (JString ''-'')) (\<lambda>tier.
     try_then (json_get data ''actual_cost'' (JFloat 0)) (\<lambda>cost.
     try_then (json_get data ''actual_latency_ms'' (JFloat 0)) (\<lambda>lat.
     try_then (json_get data ''prompt_tokens'' (JInt 0)) (\<lambda>pt.
     try_then (json_get data ''completion_tokens'' (JInt 0)) (\<lambda>ct.
     try_then (json_get data ''cache_read_tokens'' (JInt 0)) (\<lambda>cr.
     try_then (json_get data ''cache_write_tokens'' (JInt 0)) (\<lambda>cw.
     try_then (json_get data ''budget_remaining'' JNull) (\<lambda>rem.
     try_then (json_get data ''detail'' (JString [])) (\<lambda>det.
       Inr [(''request_id'', JString req_id), (''status_code'', JInt code), (''route'', route),
            (''complexity_tier'', tier), (''actual_cost'', cost), (''actual_latency_ms'', lat),
            (''prompt_tokens'', pt), (''completion_tokens'', ct), (''cache_read_tokens'', cr),
            (''cache_write_tokens'', cw), (''budget_remaining'', rem), (''duration_ms'', JFloat duration),
            (''detail'', det)]))))))))))"

definition error_row :: "string \<Rightarrow> flt \<Rightarrow> exc \<Rightarrow> row" where
  "error_row req_id duration e =
     [(''request_id'', JString req_id), (''status_code'', JInt 0), (''route'', JString ''CONNECTION_ERROR''),
      (''actual_cost'', JFloat 0), (''actual_latency_ms'', JFloat 0), (''prompt_tokens'', JInt 0),
      (''completion_tokens'', JInt 0), (''cache_read_tokens'', JInt 0), (''cache_write_tokens'', JInt 0),
      (''budget_remaining'', JNull), (''duration_ms'', JFloat duration), (''error'', JString (exc_text e)),
      (''detail'', JString (exc_text e))]"

definition send_request :: "string \<Rightarrow> flt \<Rightarrow> flt \<Rightarrow> flt \<Rightarrow> exc + http_response \<Rightarrow> exc + row" where
  "send_request req_id start t1 t2 reply =
     (case try_then reply (\<lambda>r.
             ok_row req_id (http_status r) (elapsed_ms start t1)
               (case http_json r of Inr data \<Rightarrow> data | Inl _ \<Rightarrow> JObject [])) of
        Inr row \<Rightarrow> Inr row
      | Inl CancelledError \<Rightarrow> Inl CancelledError
      | Inl e \<Rightarrow> Inr (error_row req_id (elapsed_ms start t2) e))"

section \<open>The batch\<close>

definition FAST_PROMPTS :: "string list" where
  "FAST_PROMPTS =
     [''What is the capital of France?'',
      ''Who wrote Hamlet?'',
      ''Hello, how are you?'',
      ''Define recursion in one sentence.'',
      ''When did World War II end?'',
      ''What is 2 + 2?'',
      ''Who is Ada Lovelace?'',
      ''Translate '' @ quoted ''hello'' @ '' into Spanish.'']"

definition QUALITY_PROMPTS :: "string list" where
  "QUALITY_PROMPTS =
     [''Explain why async/await avoids thread-based race conditions in Python.'',
      ''Design a budget-aware inference router that handles concurrent requests safely.'',
      ''Write a Python function that implements exponential backoff with jitter.'',
      ''Compare transformer attention mechanisms with RNNs for sequence modelling.'',
      ''Analyse the time complexity of merge sort and explain each step.'',
      ''Explain the trade-offs between SQL and NoSQL databases for high-throughput workloads.'',
      ''Refactor this code to use list comprehensions and reduce memory usage.'',
      ''Why do neural networks require non-linear activation functions?'']"

definition request_id_of :: "nat \<Rightarrow> string" where
  "request_id_of i = ''demo-'' @ zero_pad 3 (show_nat i)"

definition batch_prompt :: "bool \<Rightarrow> bool \<Rightarrow> bool \<Rightarrow> nat \<Rightarrow> string" where
  "batch_prompt failure_demo tight_sla latency_breach i =
     (if failure_demo \<and> i = 1 then ''explain fail_remote injected''
      else if latency_breach \<or> tight_sla then ''Say hi. Request '' @ show_nat i
      else if i mod 2 = 1 then FAST_PROMPTS ! ((i div 2) mod length FAST_PROMPTS)
      else QUALITY_PROMPTS ! ((i div 2 - 1) mod length QUALITY_PROMPTS))"

definition build_batch :: "nat \<Rightarrow> bool \<Rightarrow> bool \<Rightarrow> bool \<Rightarrow> inference_request list" where
  "build_batch requests_count failure_demo tight_sla latency_breach =
     map (\<lambda>i. \<lparr> request_id = request_id_of i,
                prompt = batch_prompt failure_demo tight_sla latency_breach i,
                latency_budget_ms = (if tight_sla then 100 else 5000),
                req_complexity_tier = None \<rparr>) [1 ..< requests_count + 1]"

section \<open>The routing breakdown\<close>

text \<open>\<open>Counter\<close>: counts in the order of first occurrence.  (A route or
  a reason that is a list or an object is not hashable in Python; the gateway sends strings.)\<close>

definition count_up :: "'a \<Rightarrow> ('a \<times> nat) list \<Rightarrow> ('a \<times> nat) list" where
  "count_up k counts = AList.update k (case map_of counts k of None \<Rightarrow> 1 | Some n \<Rightarrow> n + 1) counts"

definition counter_get :: "('a \<times> nat) list \<Rightarrow> 'a \<Rightarrow> nat" where
  "counter_get counts k = (case map_of counts k of None \<Rightarrow> 0 | Some n \<Rightarrow> n)"

definition row_get :: "row \<Rightarrow> string \<Rightarrow> json \<Rightarrow> json" where
  "row_get r k d = (case map_of r k of None \<Rightarrow> d | Some v \<Rightarrow> v)"

definition row_route :: "row \<Rightarrow> json" where
  "row_route r = row_get r ''route'' JNull"

definition failed_routes :: "json list" where
  "failed_routes = [JString ''FAIL_FAST'', JString ''ERROR'', JString ''CONNECTION_ERROR'']"

definition routes_counter :: "row list \<Rightarrow> (json \<times> nat) list" where
  "routes_counter rows = fold (\<lambda>r. count_up (row_route r)) rows []"

definition reasons_counter :: "row list \<Rightarrow> (json \<times> nat) list" where
  "reasons_counter rows =
     fold (\<lambda>r counts. if row_route r \<in> set failed_routes
                      then count_up (row_get r ''detail'' (JString ''Unknown reason'')) counts else counts) rows []"

definition fail_count :: "row list \<Rightarrow> nat" where
  "fail_count rows = sum_list (map (counter_get (routes_counter rows)) failed_routes)"

section \<open>The verdict\<close>

datatype verdict_error =
    Budget_overspend flt flt
  | Reservation_leak flt
  | Active_leak flt
  | Queue_leak flt
  | Latency_leak flt
  | Latency_breach flt flt

definition metric :: "(string \<times> flt) list \<Rightarrow> string \<Rightarrow> flt" where
  "metric m k = (case map_of m k of None \<Rightarrow> 0 | Some v \<Rightarrow> v)"

definition evaluate_verdict :: "(string \<times> flt) list \<Rightarrow> flt \<Rightarrow> flt \<Rightarrow> bool \<times> verdict_error list" where
  "evaluate_verdict m max_budget max_latency =
     (let cost = metric m ''cumulative_remote_cost'';
          reserved = metric m ''reserved_remote_budget'';
          active_res = metric m ''active_remote_reservations'';
          active_local = metric m ''active_local_inferences'';
          reserved_lat = metric m ''reserved_latency_ms'';
          lat_spent = metric m ''cumulative_actual_latency_ms'';
          errors =
            (if fadd max_budget eps9 < cost then [Budget_overspend cost max_budget] else []) @
            (if \<not> isclose reserved 0 eps9 then [Reservation_leak reserved] else []) @
            (if active_res \<noteq> 0 then [Active_leak active_res] else []) @
            (if active_local \<noteq> 0 then [Queue_leak active_local] else []) @
            (if \<not> isclose reserved_lat 0 eps9 then [Latency_leak reserved_lat] else []) @
            (if fadd max_latency eps9 < lat_spent then [Latency_breach lat_spent max_latency] else [])
      in (errors = [], errors))"

section \<open>The lock timeline\<close>

fun timeline :: "flt \<Rightarrow> nat \<Rightarrow> trace_event list \<Rightarrow> string list" where
  "timeline t0 indent [] = []"
| "timeline t0 indent (e # es) =
     (let offset = fdiv (fsub (timestamp_us e) t0) 1000;
          act = te_action e;
          indent1 = (if act = ''release'' then indent - 1 else indent);
          line = align_right 11 (show_fixed 2 offset) @ ''ms | '' @ align_left 14 (te_request_id e) @ '' | '' @
                 concat (replicate indent1 ''  '') @ align_left 8 (te_phase e) @ '' | '' @ align_left 7 act
      in line # timeline t0 (if act = ''acquire'' then indent1 + 1 else indent1) es)"

definition rule_of :: "nat \<Rightarrow> string" where
  "rule_of n = replicate n (CHR ''-'')"

definition format_lock_trace :: "trace_event list \<Rightarrow> string list" where
  "format_lock_trace events =
     (case events of
        [] \<Rightarrow> [''  No lock events recorded.'']
      | e # _ \<Rightarrow>
          [[], rule_of 62, ''LOCK INTERLEAVING TIMELINE (PROVES CONCURRENT I/O)'', rule_of 62,
           align_right 12 ''Offset (ms)'' @ '' | '' @ align_left 14 ''Request ID'' @ '' | '' @ align_left 8 ''Phase'' @
             '' | '' @ align_left 7 ''Action'',
           rule_of 55] @
          timeline (timestamp_us e) 0 events @
          [[], ''  Observation: Multiple requests enter '' @ quoted ''reserve'' @ '' before any enter '' @ quoted ''settle'' @ ''.'',
           ''  This proves locks are released during backend I/O.'', []])"

section \<open>Lemmas\<close>

lemma request_id_of_inject [simp]: "request_id_of i = request_id_of j \<longleftrightarrow> i = j"
  by (simp add: request_id_of_def)

lemma counter_count_up [simp]: "counter_get (count_up k counts) k' = counter_get counts k' + of_bool (k = k')"
  by (auto simp: counter_get_def count_up_def update_conv' split: option.splits)

lemma counter_fold:
  "counter_get (fold (\<lambda>r. count_up (f r)) rows counts) k =
     counter_get counts k + length (filter (\<lambda>r. f r = k) rows)"
  by (induction rows arbitrary: counts) simp_all

lemma routes_counter_eq: "counter_get (routes_counter rows) k = length (filter (\<lambda>r. row_route r = k) rows)"
  by (simp add: routes_counter_def counter_fold) (simp add: counter_get_def)

lemma length_timeline [simp]: "length (timeline t0 n es) = length es"
  by (induction es arbitrary: n) (simp_all add: Let_def)

section \<open>Properties\<close>

text \<open>
  The requests of a run have distinct identifiers, however many there are (beyond 999 the
  identifier grows), and each of them passes the validation of the gateway.
\<close>

theorem batch_well_formed:
  "distinct (map request_id (build_batch n failure_demo tight_sla latency_breach)) \<and>
   list_all validate_request (build_batch n failure_demo tight_sla latency_breach)"
proof -
  have "distinct (map request_id_of [1 ..< n + 1])"
    by (simp add: distinct_map inj_on_def)
  then have "distinct (map request_id (build_batch n failure_demo tight_sla latency_breach))"
    by (simp add: build_batch_def comp_def)
  moreover have "FAST_PROMPTS ! (k mod 8) \<noteq> []" "QUALITY_PROMPTS ! (k mod 8) \<noteq> []" for k
  proof -
    have "k mod 8 \<in> {..<8}" by simp
    then have "k mod 8 \<in> {0, 1, 2, 3, 4, 5, 6, 7}" by auto
    then show "FAST_PROMPTS ! (k mod 8) \<noteq> []" "QUALITY_PROMPTS ! (k mod 8) \<noteq> []"
      by (auto simp: FAST_PROMPTS_def QUALITY_PROMPTS_def)
  qed
  then have "batch_prompt failure_demo tight_sla latency_breach i \<noteq> []" for i
    by (simp add: batch_prompt_def) (simp add: FAST_PROMPTS_def QUALITY_PROMPTS_def)
  then have "list_all validate_request (build_batch n failure_demo tight_sla latency_breach)"
    by (auto simp: build_batch_def list_all_iff validate_request_def Suc_le_eq)
  ultimately show ?thesis ..
qed

text \<open>What the gateway answers to \<open>/inference\<close>: its route is one of its four, or absent.\<close>

definition gateway_reply :: "exc + http_response \<Rightarrow> bool" where
  "gateway_reply reply \<longleftrightarrow>
     (\<forall>r kvs v. reply = Inr r \<longrightarrow> http_json r = Inr (JObject kvs) \<longrightarrow> map_of kvs ''route'' = Some v \<longrightarrow>
        v \<in> (JString \<circ> route_value) ` UNIV)"

definition breakdown_routes :: "json set" where
  "breakdown_routes = set failed_routes \<union> {JString ''LOCAL'', JString ''REMOTE'', JString ''QUEUE_LOCAL''}"

lemma route_in_breakdown: "JString (route_value r) \<in> breakdown_routes"
  by (cases r) (simp_all add: breakdown_routes_def failed_routes_def)

lemma send_request_row:
  assumes "gateway_reply reply" "send_request rid t0 t1 t2 reply = Inr row"
  shows "row_route row \<in> breakdown_routes \<and> row_get row ''request_id'' JNull = JString rid"
proof -
  have err: "row_route (error_row rid d e) \<in> breakdown_routes \<and> row_get (error_row rid d e) ''request_id'' JNull = JString rid"
    for d e
    by (simp add: row_route_def row_get_def error_row_def breakdown_routes_def failed_routes_def)
  have ok: "row_route row \<in> breakdown_routes \<and> row_get row ''request_id'' JNull = JString rid"
    if "reply = Inr r" and o: "ok_row rid (http_status r) d (case http_json r of Inr data \<Rightarrow> data | Inl _ \<Rightarrow> JObject []) = Inr row"
    for r d
  proof -
    let ?data = "case http_json r of Inr data \<Rightarrow> data | Inl _ \<Rightarrow> JObject []"
    obtain route where get: "json_get ?data ''route'' (JString (if http_status r = 503 then ''FAIL_FAST'' else ''ERROR'')) = Inr route"
      and row: "row_route row = route" "row_get row ''request_id'' JNull = JString rid"
      using o by (auto simp: ok_row_def try_then_Inr row_route_def row_get_def)
    obtain kvs where k: "?data = JObject kvs" using get by (cases ?data) auto
    have "v \<in> (JString \<circ> route_value) ` UNIV" if "map_of kvs ''route'' = Some v" for v
      using assms(1) \<open>reply = Inr r\<close> k that
      by (auto simp: gateway_reply_def split: sum.splits)
    then have "route \<in> breakdown_routes"
      using get k route_in_breakdown by (auto simp: breakdown_routes_def failed_routes_def split: option.splits if_splits)
    with row show ?thesis by simp
  qed
  show ?thesis
    using assms(2) err ok
    by (auto simp: send_request_def try_then_def split: sum.splits exc.splits)
qed

lemma breakdown_sum:
  assumes "\<forall>r \<in> set rows. row_route r \<in> breakdown_routes"
  shows "counter_get (routes_counter rows) (JString ''LOCAL'') + counter_get (routes_counter rows) (JString ''REMOTE'') +
         counter_get (routes_counter rows) (JString ''QUEUE_LOCAL'') + fail_count rows = length rows"
  using assms
proof (induction rows)
  case Nil
  then show ?case by (simp add: fail_count_def routes_counter_eq failed_routes_def)
next
  case (Cons r rows)
  then show ?case by (auto simp: fail_count_def routes_counter_eq failed_routes_def breakdown_routes_def)
qed

text \<open>Only a cancellation escapes from \<open>send_request\<close>.\<close>

lemma ok_row_not_cancelled: "ok_row rid code d data \<noteq> Inl CancelledError"
  by (cases data) (simp_all add: ok_row_def)

lemma send_request_returns:
  assumes "reply \<noteq> Inl CancelledError" shows "\<exists>row. send_request rid t0 t1 t2 reply = Inr row"
proof -
  have "try_then reply (\<lambda>r. ok_row rid (http_status r) (elapsed_ms t0 t1)
      (case http_json r of Inr data \<Rightarrow> data | Inl _ \<Rightarrow> JObject [])) \<noteq> Inl CancelledError"
    using assms ok_row_not_cancelled by (cases reply) simp_all
  then show ?thesis by (auto simp: send_request_def split: sum.splits exc.splits)
qed

text \<open>A quiet service: its metrics show no leak, and the verdict on them no breach and at most an overspend
  beyond 1e-9.\<close>

lemma quiet_verdict:
  assumes "config_ok cfg" and "reach cfg sy" and "\<forall>h \<in> set (sy_handlers sy). is_final h"
    and "caps_ok N N (MAX_REMOTE_BUDGET cfg) (MAX_CUMULATIVE_LATENCY_MS cfg)" and "length (sy_handlers sy) \<le> N"
    and "of_nat (2 * N) * half_ulp (MAX_REMOTE_BUDGET cfg + 2) \<le> eps9"
    and "0 \<le> X" and "\<forall>r \<in> set (objects (gen_bm ap (current ap))). reserved_latency_ms r \<le> X"
    and "of_nat (2 * N) * half_ulp (of_nat N * X + 2) \<le> eps9"
    and "ap = sy_app sy" and "cost = clean (cumulative_remote_cost (gen_bm ap (current ap)))"
  shows "evaluate_verdict (metrics ap) (budget_max (summary ap)) (sum_latency_max_ms (summary ap)) =
           (if fadd (MAX_REMOTE_BUDGET cfg) eps9 < cost then (False, [Budget_overspend cost (MAX_REMOTE_BUDGET cfg)])
            else (True, []))"
    and "metric (metrics ap) ''cumulative_remote_cost'' = cost"
    and "metric (metrics ap) ''reserved_remote_budget'' = 0" and "metric (metrics ap) ''reserved_latency_ms'' = 0"
    and "metric (metrics ap) ''active_local_inferences'' = 0" and "metric (metrics ap) ''active_remote_reservations'' = 0"
proof -
  let ?b = "gen_bm ap (current ap)" and ?L = "MAX_CUMULATIVE_LATENCY_MS cfg"
  note inv = reach_inv [OF assms(2,1)]
  have g: "current ap < length (ap_gens ap)" using inv assms(10) by (intro in_current) (simp add: sys_inv_def Let_def)
  note t = quiet_totals [OF assms(1,2) g [unfolded assms(10)] assms(3-5), folded assms(10)]
  note e = no_owner_no_reservation [OF inv g [unfolded assms(10)] assms(3), folded assms(10)]
  have "small N (of_nat N * X)" using assms(7) by (intro small_of_drift [OF assms(9)]) simp_all
  note l = quiet_latency [OF assms(1,2) g [unfolded assms(10)] assms(3,5,7) this assms(8) [unfolded assms(10)], folded assms(10)]
  have z: "clean (reserved_for_execution ?b) = 0" "clean (bm_reserved_latency_ms ?b) = 0"
    using t(1) l assms(6,9) by (auto intro!: clean_small)
  have "0 \<le> fadd ?L eps9" using assms(1) by (auto simp: config_ok_def)
  then have "clean (cumulative_actual_latency_ms ?b) \<le> fadd ?L eps9"
    using t(3) clean_cases [of "cumulative_actual_latency_ms ?b"] by auto
  moreover have "isclose 0 0 eps9" by (simp add: isclose_def)
  ultimately show "evaluate_verdict (metrics ap) (budget_max (summary ap)) (sum_latency_max_ms (summary ap)) =
           (if fadd (MAX_REMOTE_BUDGET cfg) eps9 < cost then (False, [Budget_overspend cost (MAX_REMOTE_BUDGET cfg)])
            else (True, []))"
    using z t(4,5) e assms(11)
    by (simp add: evaluate_verdict_def metric_def metrics_def summary_def Let_def snapshot_def active_reservation_count_def not_less)
  show "metric (metrics ap) ''cumulative_remote_cost'' = cost"
    "metric (metrics ap) ''reserved_remote_budget'' = 0" "metric (metrics ap) ''reserved_latency_ms'' = 0"
    "metric (metrics ap) ''active_local_inferences'' = 0" "metric (metrics ap) ''active_remote_reservations'' = 0"
    using z e assms(11) by (simp_all add: metric_def metrics_def Let_def snapshot_def active_reservation_count_def)
qed

section \<open>The client and the service\<close>

text \<open>
  What the client's connection gives for a request whose handler is \<open>h\<close>: the reply of the service, or a
  timeout when there is none.
\<close>

definition connection :: "(json \<Rightarrow> string) \<Rightarrow> handler \<Rightarrow> exc + http_response" where
  "connection render h =
     (case http_reply render h of Some r \<Rightarrow> Inr r | None \<Rightarrow> Inl (HttpUnreachable ''ReadTimeout'' []))"

lemmas row_defs = row_route_def row_get_def ok_row_def error_row_def response_json_def

text \<open>
  C16: The report shows what the service answered, field by field.  The row of an answer carries the route,
  tier, cost, latency, the four token counts and the remaining budget the service computed, with status 200;
  the row of a refusal the status code, the text of its reason and \<open>FAIL_FAST\<close> exactly for a 503; an
  unhandled exception shows as \<open>ERROR\<close> with status 500; and a request that is never answered shows
  as \<open>CONNECTION_ERROR\<close> with status 0.  Nothing else is in the row.
\<close>

theorem client_sees_answer:
  "send_request rid t0 t1 t2 (connection render h) = Inr
     (case h of
        Responded r \<Rightarrow>
          [(''request_id'', JString rid), (''status_code'', JInt 200), (''route'', JString (route_value (resp_route r))),
           (''complexity_tier'', JString (tier_value (resp_complexity_tier r))),
           (''actual_cost'', JFloat (resp_actual_cost r)), (''actual_latency_ms'', JFloat (resp_actual_latency_ms r)),
           (''prompt_tokens'', JInt (resp_prompt_tokens r)), (''completion_tokens'', JInt (resp_completion_tokens r)),
           (''cache_read_tokens'', JInt (resp_cache_read_tokens r)),
           (''cache_write_tokens'', JInt (resp_cache_write_tokens r)),
           (''budget_remaining'', JFloat (resp_budget_remaining r)),
           (''duration_ms'', JFloat (elapsed_ms t0 t1)), (''detail'', JString [])]
      | Http_error code t \<Rightarrow>
          [(''request_id'', JString rid), (''status_code'', JInt code),
           (''route'', JString (if code = 503 then ''FAIL_FAST'' else ''ERROR'')), (''complexity_tier'', JString ''-''),
           (''actual_cost'', JFloat 0), (''actual_latency_ms'', JFloat 0),
           (''prompt_tokens'', JInt 0), (''completion_tokens'', JInt 0),
           (''cache_read_tokens'', JInt 0), (''cache_write_tokens'', JInt 0), (''budget_remaining'', JNull),
           (''duration_ms'', JFloat (elapsed_ms t0 t1)), (''detail'', JString (detail_text t))]
      | Unhandled e \<Rightarrow>
          [(''request_id'', JString rid), (''status_code'', JInt 500), (''route'', JString ''ERROR''),
           (''complexity_tier'', JString ''-''), (''actual_cost'', JFloat 0), (''actual_latency_ms'', JFloat 0),
           (''prompt_tokens'', JInt 0), (''completion_tokens'', JInt 0),
           (''cache_read_tokens'', JInt 0), (''cache_write_tokens'', JInt 0), (''budget_remaining'', JNull),
           (''duration_ms'', JFloat (elapsed_ms t0 t1)), (''detail'', JString [])]
      | _ \<Rightarrow>
          [(''request_id'', JString rid), (''status_code'', JInt 0), (''route'', JString ''CONNECTION_ERROR''),
           (''actual_cost'', JFloat 0), (''actual_latency_ms'', JFloat 0),
           (''prompt_tokens'', JInt 0), (''completion_tokens'', JInt 0),
           (''cache_read_tokens'', JInt 0), (''cache_write_tokens'', JInt 0), (''budget_remaining'', JNull),
           (''duration_ms'', JFloat (elapsed_ms t0 t2)), (''error'', JString []), (''detail'', JString [])])"
proof (cases h)
  case (Responded r)
  then show ?thesis by (simp add: send_request_def connection_def http_reply_def row_defs)
next
  case (Http_error code t)
  then show ?thesis by (simp add: send_request_def connection_def http_reply_def row_defs Let_def)
next
  case (Unhandled e)
  then show ?thesis by (simp add: send_request_def connection_def http_reply_def row_defs)
qed (simp_all add: send_request_def connection_def http_reply_def row_defs)

end
