(* ===== verification/Demo_Run.thy ===== *)
theory Demo_Run
  imports Load_Generator
begin

text \<open>
  \<open>run_demo\<close> and \<open>main\<close> of \<open>load_generator.py\<close>: one run of the demo, with everything it
  prints.

  A computation of type \<open>'a io\<close> is the list of lines it prints and the value it returns or the exception
  it raises; what was printed before an exception stays printed.  A line is a list of code points.  Formatting
  a JSON value (\<open>{v:<10}\<close>, \<open>{v:.5f}\<close>) raises where Python's \<open>__format__\<close> raises, and a
  list or an object cannot be a key of a \<open>Counter\<close>.
\<close>

section \<open>Printing and raising\<close>

type_synonym line = "nat list"
type_synonym 'a io = "line list \<times> (exc + 'a)"

definition say :: "line list \<Rightarrow> unit io" where
  "say ls = (ls, Inr ())"

definition attempt :: "exc + 'a \<Rightarrow> 'a io" where
  "attempt r = ([], r)"

definition io_then :: "'a io \<Rightarrow> ('a \<Rightarrow> 'b io) \<Rightarrow> 'b io" where
  "io_then m f =
     (case snd m of
        Inl e \<Rightarrow> (fst m, Inl e)
      | Inr v \<Rightarrow> (case f v of (out, r) \<Rightarrow> (fst m @ out, r)))"

definition io_return :: "'a \<Rightarrow> 'a io" where
  "io_return v = ([], Inr v)"

text \<open>\<open>try: m except Exception as e: h\<close>\<close>

definition io_except :: "'a io \<Rightarrow> (exc \<Rightarrow> 'a io) \<Rightarrow> 'a io" where
  "io_except m h =
     (case snd m of
        Inr v \<Rightarrow> m
      | Inl CancelledError \<Rightarrow> m
      | Inl e \<Rightarrow> (case h e of (out, r) \<Rightarrow> (fst m @ out, r)))"

fun io_each :: "('a \<Rightarrow> unit io) \<Rightarrow> 'a list \<Rightarrow> unit io" where
  "io_each f [] = say []"
| "io_each f (x # xs) = io_then (f x) (\<lambda>_. io_each f xs)"

lemma io_simps [simp]:
  "io_then (out, Inl e) f = (out, Inl e)"
  "io_then (out, Inr v) f = (out @ fst (f v), snd (f v))"
  "io_except (out, Inr v) h = (out, Inr v)"
  by (simp_all add: io_then_def io_except_def split: prod.splits)

text \<open>The lines of a print call whose texts are plain strings; \<open>sign n s\<close> is a line with a further sign.\<close>

definition plain :: "string list \<Rightarrow> line list" where
  "plain ss = map cps ss"

definition sign :: "string \<Rightarrow> nat \<Rightarrow> string \<Rightarrow> line" where
  "sign before n s = cps before @ [n] @ cps s"

section \<open>Formatting JSON values\<close>

definition bad_format :: "json \<Rightarrow> exc" where
  "bad_format v = OtherException ''TypeError'' (''unsupported format string passed to '' @ type_name v @ ''.__format__'')"

fun fmt_left :: "(flt \<Rightarrow> string) \<Rightarrow> nat \<Rightarrow> json \<Rightarrow> exc + string" where
  "fmt_left rp w (JString s) = Inr (align_left w s)"
| "fmt_left rp w (JInt n) = Inr (align_left w (show_int n))"
| "fmt_left rp w (JFloat x) = Inr (align_left w (rp x))"
| "fmt_left rp w (JBool b) = Inr (align_left w (show_int (of_bool b)))"
| "fmt_left rp w v = Inl (bad_format v)"

fun fmt_fixed :: "nat \<Rightarrow> json \<Rightarrow> exc + string" where
  "fmt_fixed k (JFloat x) = Inr (show_fixed k x)"
| "fmt_fixed k (JInt n) = Inr (show_fixed k (rnd (of_int n)))"
| "fmt_fixed k (JBool b) = Inr (show_fixed k (of_bool b))"
| "fmt_fixed k (JString s) =
     Inl (ValueError (''Unknown format code '' @ quoted ''f'' @ '' for object of type '' @ quoted ''str''))"
| "fmt_fixed k v = Inl (bad_format v)"

text \<open>\<open>"breach" in v.lower()\<close>\<close>

fun mentions_breach :: "json \<Rightarrow> exc + bool" where
  "mentions_breach (JString s) = Inr (contains ''breach'' (map to_lower s))"
| "mentions_breach v =
     Inl (OtherException ''AttributeError'' (quoted (type_name v) @ '' object has no attribute '' @ quoted ''lower''))"

section \<open>The breakdown\<close>

fun hashable :: "json \<Rightarrow> bool" where
  "hashable (JList _) = False"
| "hashable (JObject _) = False"
| "hashable _ = True"

definition check_key :: "json \<Rightarrow> unit io" where
  "check_key v =
     attempt (if hashable v then Inr ()
              else Inl (OtherException ''TypeError'' (''unhashable type: '' @ quoted (type_name v))))"

text \<open>The loop that fills the two counters: it raises at the first key that is not hashable.\<close>

definition tally :: "row list \<Rightarrow> ((json \<times> nat) list \<times> (json \<times> nat) list) io" where
  "tally rows =
     io_then (io_each (\<lambda>r.
       io_then (check_key (row_route r)) (\<lambda>_.
         if row_route r \<in> set failed_routes then check_key (row_get r ''detail'' (JString ''Unknown reason''))
         else say [])) rows) (\<lambda>_.
     io_return (routes_counter rows, reasons_counter rows))"

definition breakdown_lines :: "(json \<Rightarrow> string) \<Rightarrow> int \<Rightarrow> row list \<Rightarrow> string list" where
  "breakdown_lines show requests_count rows =
     (let count = (\<lambda>r. show_nat (counter_get (routes_counter rows) (JString r)))
      in [[], rule_of 62, ''ROUTING BREAKDOWN'', rule_of 62,
          ''  Total requests fired:      '' @ show_int requests_count,
          ''  LOCAL:                     '' @ count ''LOCAL'',
          ''  REMOTE:                    '' @ count ''REMOTE'',
          ''  QUEUE_LOCAL:               '' @ count ''QUEUE_LOCAL'',
          ''  REJECTED / FAILED:         '' @ show_nat (fail_count rows)] @
         (if 0 < fail_count rows
          then map (\<lambda>(reason, n). ''    - '' @ show_nat n @ ''x: '' @ show reason) (reasons_counter rows) else []) @
         [rule_of 62])"

section \<open>The table of results\<close>

definition table_head :: "string list" where
  "table_head =
     [[], align_left 10 ''Request'' @ '' '' @ align_left 10 ''Tier'' @ '' '' @ align_left 14 ''Route'' @ '' '' @
          align_left 10 ''Cost'' @ '' '' @ align_left 25 ''Tokens (In+Out+CR+CW)'' @ '' '' @ align_left 12 ''Latency'' @ '' HTTP'',
      rule_of 95]"

definition row_line :: "(flt \<Rightarrow> string) \<Rightarrow> (json \<Rightarrow> string) \<Rightarrow> row \<Rightarrow> exc + string" where
  "row_line rp show r =
     (let route = row_route r; field = (\<lambda>k. show (row_get r k (JInt 0)));
          tokens = (if route = JString ''REMOTE''
                    then field ''prompt_tokens'' @ ''+'' @ field ''completion_tokens'' @ ''+'' @
                         field ''cache_read_tokens'' @ ''+'' @ field ''cache_write_tokens''
                    else ''-'')
      in try_then (fmt_fixed 5 (row_get r ''actual_cost'' JNull)) (\<lambda>cost.
         try_then (fmt_fixed 0 (row_get r ''duration_ms'' JNull)) (\<lambda>lat.
         try_then (fmt_left rp 10 (row_get r ''request_id'' JNull)) (\<lambda>a.
         try_then (fmt_left rp 10 (row_get r ''complexity_tier'' (JString ''-''))) (\<lambda>b.
         try_then (fmt_left rp 14 route) (\<lambda>c.
           Inr (a @ '' '' @ b @ '' '' @ c @ '' '' @ align_left 10 (CHR ''$'' # cost) @ '' '' @ align_left 25 tokens @ '' '' @
                align_left 12 (lat @ ''ms'') @ '' '' @ show (row_get r ''status_code'' JNull))))))))"

definition print_row :: "(flt \<Rightarrow> string) \<Rightarrow> (json \<Rightarrow> string) \<Rightarrow> bool \<Rightarrow> row \<Rightarrow> unit io" where
  "print_row rp show failure_demo r =
     (let status500 = (row_get r ''status_code'' JNull = JInt 500);
          detail = row_get r ''detail'' (JString [])
      in io_then (attempt (row_line rp show r)) (\<lambda>l.
         io_then (say (plain [l])) (\<lambda>_.
         io_then (say (if failure_demo \<and> row_get r ''request_id'' JNull = JString ''demo-001'' \<and> status500
                       then plain [''  => [VISIBLE ROLLBACK] Request failed: '' @ show (row_get r ''detail'' (JString ''Unknown error'')),
                                   ''  => [VISIBLE ROLLBACK] Reserved funds were returned to the budget pool.'']
                       else [])) (\<lambda>_.
           if \<not> status500 then say []
           else io_then (attempt (mentions_breach detail)) (\<lambda>breach.
                  say (if breach then plain [''  => [LATENCY CAP BREACH] Rejected: '' @ show detail] else []))))))"

section \<open>The final state and the verdict\<close>

text \<open>The two counts among the metrics are integers and are printed as such.\<close>

definition state_lines :: "(string \<times> flt) list \<Rightarrow> flt \<Rightarrow> string list" where
  "state_lines m burst_ms =
     [''  Remote cost spent:         $'' @ show_fixed 5 (metric m ''cumulative_remote_cost''),
      ''  Remaining remote budget:   $'' @ show_fixed 5 (metric m ''remaining_remote_budget''),
      ''  Reserved (must be 0):      $'' @ show_fixed 6 (metric m ''reserved_remote_budget''),
      ''  Cumulative latency:        '' @ ms (metric m ''cumulative_actual_latency_ms''),
      ''  Reserved latency (->0):    '' @ show_fixed 1 (metric m ''reserved_latency_ms'') @ ''ms'',
      ''  Active local inferences:   '' @ show_int \<lfloor>metric m ''active_local_inferences''\<rfloor>,
      ''  Active remote reservations:'' @ show_int \<lfloor>metric m ''active_remote_reservations''\<rfloor>,
      ''  Local latency EMA:         '' @ show_fixed 1 (metric m ''local_latency_ema_ms'') @ ''ms'',
      ''  Remote latency EMA:        '' @ show_fixed 1 (metric m ''remote_latency_ema_ms'') @ ''ms'',
      ''  Total burst duration:      '' @ ms burst_ms,
      [], rule_of 62]"

text \<open>The error lines of \<open>evaluate_verdict\<close>, each after two blanks and the sign \<open>0x274C\<close>.\<close>

fun error_text :: "verdict_error \<Rightarrow> string" where
  "error_text (Budget_overspend cost cap) =
     '' BUDGET OVERSPEND: $'' @ show_fixed 5 cost @ '' > $'' @ show_fixed 5 cap"
| "error_text (Reservation_leak x) = '' RESERVATION LEAK: reserved=$'' @ show_fixed 6 x @ '' (must be 0)''"
| "error_text (Active_leak x) = '' RESERVATION LEAK: '' @ show_int \<lfloor>x\<rfloor> @ '' active reservations (must be 0)''"
| "error_text (Queue_leak x) = '' QUEUE LEAK: '' @ show_int \<lfloor>x\<rfloor> @ '' active local inferences (must be 0)''"
| "error_text (Latency_leak x) = '' LATENCY RESERVATION LEAK: '' @ show_fixed 1 x @ ''ms (must be 0)''"
| "error_text (Latency_breach x cap) = '' LATENCY CAP BREACH: '' @ show_fixed 1 x @ ''ms > '' @ show_fixed 1 cap @ ''ms''"

definition pass_line :: line where "pass_line = cps ''VERDICT: PASS [OK]''"
definition fail_line :: line where "fail_line = cps ''VERDICT: FAIL [X]''"

definition verdict_lines :: "bool \<Rightarrow> verdict_error list \<Rightarrow> line list" where
  "verdict_lines passed errors =
     (if passed
      then pass_line # plain [''  + No budget overspend'', ''  + No reservation leak (reserved == $0.000000)'',
             ''  + No queue depth leak (active_local == 0)'',
             ''  + No latency reservation leak (reserved_latency_ms == 0)'', ''  + Cumulative latency within bounds'']
      else fail_line # map (\<lambda>e. sign ''  '' 0x274C (error_text e)) errors)"

section \<open>The run\<close>

text \<open>
  What the gateway answers to the calls of \<open>run_demo\<close>: the status of \<open>/health\<close>, the numbers of
  \<open>/summary\<close> and \<open>/metrics\<close>, the events of \<open>/trace\<close>, and for each request of the batch
  its three clock readings and the reply to \<open>/inference\<close>; and the two clock readings around the batch.
\<close>

record gateway =
  g_health :: "exc + int"
  g_run_start :: "exc + unit"
  g_delete_trace :: "exc + unit"
  g_summary :: "exc + (string \<times> flt) list"
  g_inference :: "inference_request \<Rightarrow> flt \<times> flt \<times> flt \<times> (exc + http_response)"
  g_trace :: "exc + trace_event list"
  g_metrics :: "exc + (string \<times> flt) list"
  g_run_complete :: "string \<Rightarrow> (string \<times> flt) list \<Rightarrow> (json \<times> nat) list \<Rightarrow> exc + unit"
  g_burst_start :: flt
  g_burst_end :: flt

text \<open>\<open>asyncio.gather\<close>: the results in the order of the tasks, or the first exception.\<close>

fun gather :: "(exc + 'a) list \<Rightarrow> exc + 'a list" where
  "gather [] = Inr []"
| "gather (r # rs) = try_then r (\<lambda>v. try_then (gather rs) (\<lambda>vs. Inr (v # vs)))"

definition send_batch :: "gateway \<Rightarrow> inference_request list \<Rightarrow> exc + row list" where
  "send_batch gw batch =
     gather (map (\<lambda>req. case g_inference gw req of
                    (t0, t1, t2, reply) \<Rightarrow> send_request (request_id req) t0 t1 t2 reply) batch)"

definition dict_get :: "(string \<times> 'a) list \<Rightarrow> string \<Rightarrow> 'a \<Rightarrow> 'a" where
  "dict_get m k d = (case map_of m k of None \<Rightarrow> d | Some v \<Rightarrow> v)"

text \<open>The arguments of the command line, with their defaults.\<close>

record args =
  a_url :: string
  a_requests :: int
  a_stress :: bool
  a_failure_demo :: bool
  a_tight_sla :: bool
  a_latency_breach :: bool
  a_reset :: bool
  a_reset_only :: bool


definition config_lines :: "args \<Rightarrow> int \<Rightarrow> string list" where
  "config_lines a requests_count =
     [[], ''=========================================='', '' LEC AI CONCURRENT ROUTER - DEMO'',
      ''=========================================='', [], ''Configuration'', ''  Server:              '' @ a_url a] @
     (if requests_count = 0
      then [''  Mode:                RESET ONLY (resetting server state and exiting)'']
      else [''  Remote budget:       $'' @ show_fixed 2 5,
            ''  Concurrent requests: '' @ show_int requests_count,
            ''  Latency budget/req:  '' @ ms (if a_tight_sla a then 100 else 5000)]) @
     (if a_failure_demo a then [''  Mode:                FAILURE DEMO (request #1 will fail remotely)''] else []) @
     (if a_tight_sla a then [''  Mode:                TIGHT SLA (forces REMOTE routing)''] else []) @
     (if a_latency_breach a
      then [''  Mode:                LATENCY BREACH (simulates massive latency to trigger circuit breaker)''] else [])"

text \<open>\<open>sh\<close> prints a JSON value as \<open>str\<close> does; \<open>rp\<close> is its case for floats.\<close>

definition final_state :: "gateway \<Rightarrow> row list \<Rightarrow> flt \<Rightarrow> flt \<Rightarrow> bool io" where
  "final_state gw rows max_budget max_latency_cap =
     io_then (say (plain [[], rule_of 62, ''FINAL SYSTEM STATE'', rule_of 62])) (\<lambda>_.
     io_except
       (io_then (attempt (g_metrics gw)) (\<lambda>m.
        io_then (say (plain (state_lines m (elapsed_ms (g_burst_start gw) (g_burst_end gw))))) (\<lambda>_.
          let verdict = evaluate_verdict m max_budget max_latency_cap; passed = fst verdict
          in io_then (say (verdict_lines passed (snd verdict))) (\<lambda>_.
             io_then (io_except (attempt (g_run_complete gw (if passed then ''PASS'' else ''FAIL'') m (routes_counter rows)))
                        (\<lambda>_. io_return ())) (\<lambda>_.
             io_then (say (plain [''=========================================='', []])) (\<lambda>_.
               io_return passed))))))
       (\<lambda>e. io_then (say [[], sign ''  '' 0x2717 ('' Failed to fetch metrics: '' @ exc_text e)]) (\<lambda>_. io_return False)))"

definition report_batch :: "(flt \<Rightarrow> string) \<Rightarrow> (json \<Rightarrow> string) \<Rightarrow> gateway \<Rightarrow> args \<Rightarrow> int \<Rightarrow> row list \<Rightarrow> unit io" where
  "report_batch rp sh gw a requests_count rows =
     io_then (tally rows) (\<lambda>_.
     io_then (say (plain (breakdown_lines sh requests_count rows))) (\<lambda>_.
     io_then (say (plain table_head)) (\<lambda>_.
     io_then (io_each (print_row rp sh (a_failure_demo a)) rows) (\<lambda>_.
       io_except (io_then (attempt (g_trace gw)) (\<lambda>events. say (plain (format_lock_trace events))))
         (\<lambda>e. say [sign ''  '' 0x2717 ('' Failed to fetch lock trace: '' @ exc_text e)])))))"

definition launch_lines :: "int \<Rightarrow> string list" where
  "launch_lines n =
     [[], ''Launching '' @ show_int n @ '' concurrent requests via asyncio.gather()...''] @
     (if 50 < n then [''  (This is a stress test, it may take 1-2 minutes depending on your GPU...)''] else [])"

text \<open>\<open>/health\<close> answers 200, or the run ends.\<close>

definition check_server :: "gateway \<Rightarrow> string \<Rightarrow> bool io" where
  "check_server gw url =
     io_except
       (io_then (attempt (g_health gw)) (\<lambda>code.
          if code \<noteq> 200 then
            io_then (say [[], sign ''  '' 0x26A0 ('' Server returned '' @ show_int code @ '' on /health'')]) (\<lambda>_. io_return False)
          else io_return True))
       (\<lambda>e. io_then (say [[], sign ''  '' 0x2717 ('' Cannot reach server at '' @ url @ '': '' @ exc_text e),
                          cps ''    Start it with: uv run uvicorn app.main:app --reload'']) (\<lambda>_. io_return False))"

definition run_demo :: "(flt \<Rightarrow> string) \<Rightarrow> (json \<Rightarrow> string) \<Rightarrow> gateway \<Rightarrow> args \<Rightarrow> int \<Rightarrow> bool io" where
  "run_demo rp sh gw a requests_count =
     io_then (say (plain (config_lines a requests_count))) (\<lambda>_.
     io_then (check_server gw (a_url a)) (\<lambda>alive.
       if \<not> alive then io_return False
       else
         io_then (io_except (attempt (g_run_start gw)) (\<lambda>_. io_return ())) (\<lambda>_.
         io_then (attempt (g_delete_trace gw)) (\<lambda>_.
           if requests_count = 0 then
             io_then (say [[], sign ''  '' 0x2713 '' Server state and budget reset to $5.00.'',
                           cps ''=========================================='', []]) (\<lambda>_. io_return True)
           else
             io_then (io_except (attempt (g_summary gw)) (\<lambda>_. io_return [])) (\<lambda>limits.
             io_then (say (plain (launch_lines requests_count))) (\<lambda>_.
             io_then (attempt (send_batch gw (build_batch (nat requests_count) (a_failure_demo a) (a_tight_sla a) (a_latency_breach a)))) (\<lambda>rows.
             io_then (report_batch rp sh gw a requests_count rows) (\<lambda>_.
               final_state gw rows (dict_get limits ''budget_max'' 5) (dict_get limits ''latency_max_ms'' 600000)))))))))"

text \<open>\<open>main\<close>: how many requests, whether the server is reset first, and the exit code.\<close>

definition main_count :: "args \<Rightarrow> int \<times> bool" where
  "main_count a =
     (if a_reset_only a then (0, True)
      else (if a_stress a \<or> a_latency_breach a then 80 else a_requests a, a_reset a))"

definition exit_code :: "bool \<Rightarrow> int" where
  "exit_code passed = (if passed then 0 else 1)"

definition main :: "(flt \<Rightarrow> string) \<Rightarrow> (json \<Rightarrow> string) \<Rightarrow> (bool \<Rightarrow> gateway) \<Rightarrow> args \<Rightarrow> int io" where
  "main rp sh gateway a =
     (case main_count a of
        (n, fresh) \<Rightarrow> io_then (run_demo rp sh (gateway fresh) a n) (\<lambda>passed. io_return (exit_code passed)))"

section \<open>Lemmas\<close>


lemma io_then_Inr: "snd m = Inr v \<Longrightarrow> io_then m f = (fst m @ fst (f v), snd (f v))"
  by (simp add: io_then_def split: prod.splits)

lemma io_say [simp]: "io_then (say ls) f = (ls @ fst (f ()), snd (f ()))"
  by (simp add: say_def)

lemma snd_say [simp]: "snd (say ls) = Inr ()" "snd (io_return v) = Inr v" "fst (io_return v) = []" "snd (attempt r) = r"
  "fst (attempt r) = []"
  by (simp_all add: say_def io_return_def attempt_def)

section \<open>The report never fails on the service's own answers\<close>



















text \<open>The requests of a batch and their rows; a batch is collected unless a request is cancelled.\<close>

definition sent :: "gateway \<Rightarrow> inference_request \<Rightarrow> row \<Rightarrow> bool" where
  "sent gw req row \<longleftrightarrow>
     (case g_inference gw req of (t0, t1, t2, reply) \<Rightarrow> send_request (request_id req) t0 t1 t2 reply = Inr row)"

definition reply_to :: "gateway \<Rightarrow> inference_request \<Rightarrow> exc + http_response" where
  "reply_to gw req = snd (snd (snd (g_inference gw req)))"

lemma gather_rows:
  "(\<And>x. x \<in> set xs \<Longrightarrow> \<exists>v. f x = Inr v \<and> P x v) \<Longrightarrow> \<exists>vs. gather (map f xs) = Inr vs \<and> list_all2 P xs vs"
proof (induction xs)
  case (Cons x xs)
  obtain v where v: "f x = Inr v" "P x v" using Cons.prems [of x] by auto
  obtain vs where "gather (map f xs) = Inr vs" "list_all2 P xs vs" using Cons.IH Cons.prems by (metis list.set_intros(2))
  with v show ?case by simp
qed simp

lemma send_batch_rows:
  assumes "\<And>req row. req \<in> set batch \<Longrightarrow> reply_to gw req \<noteq> Inl CancelledError"
    and "\<And>req row. req \<in> set batch \<Longrightarrow> sent gw req row \<Longrightarrow> P req row"
  shows "\<exists>rows. send_batch gw batch = Inr rows \<and> list_all2 (\<lambda>req row. sent gw req row \<and> P req row) batch rows"
  unfolding send_batch_def
proof (rule gather_rows)
  fix req
  assume r: "req \<in> set batch"
  obtain t0 t1 t2 reply where g: "g_inference gw req = (t0, t1, t2, reply)" by (rule prod_cases4)
  with assms(1) [OF r] have "reply \<noteq> Inl CancelledError" by (simp add: reply_to_def)
  from send_request_returns [OF this] obtain row where "send_request (request_id req) t0 t1 t2 reply = Inr row" by blast
  with g have "sent gw req row" "(case g_inference gw req of (t0, t1, t2, reply) \<Rightarrow> send_request (request_id req) t0 t1 t2 reply) = Inr row"
    by (simp_all add: sent_def)
  with assms(2) [OF r] show "\<exists>v. (case g_inference gw req of (t0, t1, t2, reply) \<Rightarrow> send_request (request_id req) t0 t1 t2 reply) = Inr v \<and>
      sent gw req v \<and> P req v" by blast
qed



section \<open>The routing breakdown\<close>

definition routed :: "row list \<Rightarrow> string \<Rightarrow> nat" where
  "routed rows r = length (filter (\<lambda>row. row_route row = JString r) rows)"

text \<open>
  C27: No request is lost from the report.  Unless a request is cancelled, \<open>asyncio.gather\<close> returns
  whatever the gateway or the network does to single requests (errors of the connection and malformed bodies
  included): each request of the batch has its row, in order and with its identifier, and the four counts the
  breakdown prints are those of the rows with that route and add up to the number of requests.
\<close>

theorem breakdown_complete:
  assumes "\<And>req. req \<in> set batch \<Longrightarrow> reply_to gw req \<noteq> Inl CancelledError"
    and "\<And>req. req \<in> set batch \<Longrightarrow> gateway_reply (reply_to gw req)"
  shows "\<exists>rows failed. send_batch gw batch = Inr rows \<and>
     map (\<lambda>row. row_get row ''request_id'' JNull) rows = map (JString \<circ> request_id) batch \<and>
     failed = routed rows ''FAIL_FAST'' + routed rows ''ERROR'' + routed rows ''CONNECTION_ERROR'' \<and>
     routed rows ''LOCAL'' + routed rows ''REMOTE'' + routed rows ''QUEUE_LOCAL'' + failed = length batch \<and>
     {''  LOCAL:                     '' @ show_nat (routed rows ''LOCAL''),
      ''  REMOTE:                    '' @ show_nat (routed rows ''REMOTE''),
      ''  QUEUE_LOCAL:               '' @ show_nat (routed rows ''QUEUE_LOCAL''),
      ''  REJECTED / FAILED:         '' @ show_nat failed} \<subseteq> set (breakdown_lines sh n rows)"
proof -
  let ?P = "\<lambda>req row. row_route row \<in> breakdown_routes \<and> row_get row ''request_id'' JNull = JString (request_id req)"
  have "?P req row" if "req \<in> set batch" "sent gw req row" for req row
    using assms(2) [OF that(1)] that(2) send_request_row by (auto simp: sent_def reply_to_def split: prod.splits)
  from send_batch_rows [where P = ?P, OF assms(1) this] obtain rows
    where rows: "send_batch gw batch = Inr rows" "list_all2 (\<lambda>req row. sent gw req row \<and> ?P req row) batch rows" by blast
  from rows(2) have "map (\<lambda>row. row_get row ''request_id'' JNull) rows = map (JString \<circ> request_id) batch \<and>
      (\<forall>r \<in> set rows. row_route r \<in> breakdown_routes) \<and> length rows = length batch"
    by (induction rule: list_all2_induct) auto
  with rows(1) breakdown_sum [of rows] show ?thesis
    by (auto simp: breakdown_lines_def Let_def routes_counter_eq routed_def fail_count_def failed_routes_def)
qed

definition sample_batch :: "inference_request list" where
  "sample_batch = build_batch 2 False False False"

definition rejecting_gateway :: gateway where
  "rejecting_gateway =
     \<lparr> g_health = Inr 200, g_run_start = Inr (), g_delete_trace = Inr (), g_summary = Inr [],
       g_inference = (\<lambda>req. (0, 1, 1,
         if request_id req = ''demo-001'' then Inl (HttpUnreachable ''ReadTimeout'' [])
         else Inr \<lparr> http_status = 503, http_text = [], http_json = Inr (JObject [(''detail'', JString ''full'')]) \<rparr>)),
       g_trace = Inr [], g_metrics = Inr [], g_run_complete = (\<lambda>_ _ _. Inr ()), g_burst_start = 0, g_burst_end = 1 \<rparr>"

theorem breakdown_complete_witness:
  "\<exists>rows. send_batch rejecting_gateway sample_batch = Inr rows \<and> length rows = 2 \<and>
     routed rows ''LOCAL'' + routed rows ''REMOTE'' + routed rows ''QUEUE_LOCAL'' +
       (routed rows ''FAIL_FAST'' + routed rows ''ERROR'' + routed rows ''CONNECTION_ERROR'') = 2"
proof -
  have a: "reply_to rejecting_gateway req \<noteq> Inl CancelledError" "gateway_reply (reply_to rejecting_gateway req)" for req
    by (simp_all add: reply_to_def rejecting_gateway_def gateway_reply_def)
  have "length sample_batch = 2" by (simp add: sample_batch_def build_batch_def)
  with breakdown_complete [of sample_batch rejecting_gateway, OF a] show ?thesis
    by (metis length_map)
qed

section \<open>A run against a quiet service\<close>








end
