(* ===== verification/Event_Stream.thy ===== *)
theory Event_Stream
  imports Wire
begin

text \<open>
  The server-sent events of \<open>GET /events\<close> in \<open>app/main.py\<close>: the generator behind a
  dashboard's connection, as a machine.

  The endpoint subscribes and returns the generator unstarted (\<open>Opened\<close>); the first request for a
  chunk yields the greeting (\<open>Greeted\<close>, still before the \<open>try\<close>).  Inside the \<open>try\<close>, the
  generator is asking whether the client is gone (\<open>Checking\<close>), waiting for the queue
  (\<open>Waiting\<close>), or suspended at a \<open>yield\<close> (\<open>Sending\<close>).  The inputs are what the
  framework and the event loop do to it: ask for the next chunk, answer \<open>is_disconnected()\<close>, complete
  \<open>q.get()\<close>, let \<open>wait_for\<close> run into its timeout, or throw \<open>GeneratorExit\<close> or
  \<open>CancelledError\<close> in at the point where it is suspended (\<open>Stop\<close>).
\<close>

section \<open>The generator\<close>

datatype stream =
    Opened nat
  | Greeted nat
  | Checking nat
  | Waiting nat
  | Sending nat
  | Closed

datatype input = Next | Polled bool | Wakeup | Timeout | Stop

definition newline :: char where "newline = CHR 0x0A"

definition greeting :: string where
  "greeting = ''data: {'' @ dq # ''event'' @ dq # '': '' @ dq # ''connected'' @ dq # ''}'' @ [newline, newline]"

definition heartbeat :: string where
  "heartbeat = '': heartbeat'' @ [newline, newline]"

definition data_line :: "(flt \<Rightarrow> string) \<Rightarrow> payload \<Rightarrow> string" where
  "data_line rp p = ''data: '' @ dumps_payload rp p @ [newline, newline]"

definition sse_events :: "app \<Rightarrow> app \<times> stream" where
  "sse_events ap =
     (case subscribe (ob_bus (ap_obs ap)) of
        (bus, ref) \<Rightarrow> (on_obs (\<lambda>ob. ob\<lparr>ob_bus := bus\<rparr>) ap, Opened ref))"

text \<open>The route counter of the generator: \<open>if route in counts: counts[route] += 1\<close>.\<close>

definition count_payload :: "payload \<Rightarrow> app \<Rightarrow> app" where
  "count_payload p ap =
     (if map_of p ''event'' = Some (jstr ''route_decision'')
      then let route = (case map_of p ''route'' of Some (Json (JString r)) \<Rightarrow> r | _ \<Rightarrow> [])
           in ap\<lparr>ap_counts := bump route (ap_counts ap)\<rparr>
      else ap)"

text \<open>\<open>finally: event_bus.unsubscribe(q)\<close>\<close>

definition close_stream :: "nat \<Rightarrow> app \<Rightarrow> app" where
  "close_stream ref = on_obs (\<lambda>ob. ob\<lparr>ob_bus := unsubscribe ref (ob_bus ob)\<rparr>)"

text \<open>One step: the application, the generator and the chunks it yields.\<close>

fun stream_step :: "(flt \<Rightarrow> string) \<Rightarrow> app \<Rightarrow> stream \<Rightarrow> input \<Rightarrow> app \<times> stream \<times> string list" where
  "stream_step rp ap (Opened ref) Next = (ap, Greeted ref, [greeting])"
| "stream_step rp ap (Greeted ref) Next = (ap, Checking ref, [])"
| "stream_step rp ap (Sending ref) Next = (ap, Checking ref, [])"
| "stream_step rp ap (Checking ref) (Polled gone) =
     (if gone then (close_stream ref ap, Closed, []) else (ap, Waiting ref, []))"
| "stream_step rp ap (Waiting ref) Wakeup =
     (case take_event ref (ob_bus (ap_obs ap)) of
        None \<Rightarrow> (ap, Waiting ref, [])
      | Some (e, bus) \<Rightarrow>
          let p = payload e
          in (count_payload p (on_obs (\<lambda>ob. ob\<lparr>ob_bus := bus\<rparr>) ap), Sending ref, [data_line rp p]))"
| "stream_step rp ap (Waiting ref) Timeout = (ap, Sending ref, [heartbeat])"
| "stream_step rp ap (Opened ref) Stop = (ap, Closed, [])"
| "stream_step rp ap (Greeted ref) Stop = (ap, Closed, [])"
| "stream_step rp ap (Checking ref) Stop = (close_stream ref ap, Closed, [])"
| "stream_step rp ap (Waiting ref) Stop = (close_stream ref ap, Closed, [])"
| "stream_step rp ap (Sending ref) Stop = (close_stream ref ap, Closed, [])"
| "stream_step rp ap s _ = (ap, s, [])"

fun stream_queue :: "stream \<Rightarrow> nat option" where
  "stream_queue (Opened ref) = Some ref"
| "stream_queue (Greeted ref) = Some ref"
| "stream_queue (Checking ref) = Some ref"
| "stream_queue (Waiting ref) = Some ref"
| "stream_queue (Sending ref) = Some ref"
| "stream_queue Closed = None"

text \<open>Whether the generator is suspended inside its \<open>try\<close> block.\<close>

fun in_try :: "stream \<Rightarrow> bool" where
  "in_try (Checking ref) = True"
| "in_try (Waiting ref) = True"
| "in_try (Sending ref) = True"
| "in_try _ = False"

section \<open>The generator and the events of the service\<close>

text \<open>The events of \<open>System\<close> that a step of the generator stands for.\<close>

fun stream_events :: "stream \<Rightarrow> input \<Rightarrow> sys_event list" where
  "stream_events (Waiting ref) Wakeup = [Sse_read ref]"
| "stream_events (Checking ref) (Polled True) = [Sse_close ref]"
| "stream_events s Stop = (if in_try s then map Sse_close (case stream_queue s of None \<Rightarrow> [] | Some ref \<Rightarrow> [ref]) else [])"
| "stream_events s i = []"

lemma count_payload_event:
  "count_payload (payload e) ap =
     (case e of Route_decided rid r tier why est depth liquid p \<Rightarrow> count_route r ap | _ \<Rightarrow> ap)"
  by (cases e) (simp_all add: count_payload_def count_route_def)

lemma run_one: "run step s [e] = step s e"
  by simp

text \<open>
  C18: The generator does to the service what its events say.  Opening a stream is the event of a connecting
  client, and every step of the generator, whatever the framework does to it, is a sequence of the service's
  event-stream events; so the service stays in a reachable state.
\<close>

theorem stream_refines_events:
  assumes "reach cfg sy" and "stream_step rp (sy_app sy) s i = (ap', s', out)"
  shows "fst (sse_events (sy_app sy)) = sy_app (sys_step cfg sy Sse_connect) \<and>
         ap' = sy_app (run (sys_step cfg) sy (stream_events s i)) \<and>
         reach cfg (sy\<lparr>sy_app := ap'\<rparr>)"
proof -
  have c: "fst (sse_events (sy_app sy)) = sy_app (sys_step cfg sy Sse_connect)"
    by (simp add: sse_events_def subscribe_def Let_def on_obs_def)
  have ap': "sy\<lparr>sy_app := ap'\<rparr> = run (sys_step cfg) sy (stream_events s i)"
    using assms(2)
    by (cases s; cases i)
       (auto simp: close_stream_def sse_read_def count_payload_event Let_def split: option.splits if_splits)
  have ok: "permitted event_ok (sys_step cfg) sy (stream_events s i)"
    by (cases "(s, i)" rule: stream_events.cases) (auto split: option.splits)
  have "reach cfg (run (sys_step cfg) sy evs)" if "permitted event_ok (sys_step cfg) sy evs" for evs
    using assms(1) that by (induction evs arbitrary: sy) (auto intro: reach_step)
  from this [OF ok] c ap' show ?thesis by (metis system.select_convs(1) system.surjective system.update_convs(1))
qed

theorem stream_refines_events_witness:
  "reach sample_config ((sample_service QUALITY)\<lparr>sy_app :=
     fst (stream_step (\<lambda>_. []) (sy_app (sample_service QUALITY)) (Checking 0) (Polled True))\<rparr>)"
  using stream_refines_events [OF sample_reach, of "\<lambda>_. []" QUALITY "Checking 0" "Polled True"]
  by (simp add: close_stream_def)

section \<open>Leaving\<close>

lemma bus_of_steps [simp]:
  "ob_bus (ap_obs (on_obs f ap)) = ob_bus (f (ap_obs ap))"
  by (simp add: on_obs_def)

text \<open>
  C19: A stream that ends gives its queue back, if its loop had begun.  When the client is found to have
  disconnected, or the generator is cancelled or closed inside its \<open>try\<close>, exactly its queue leaves the
  list of subscribers.  A client that leaves before the loop, at the greeting or before it, is never
  unsubscribed: the queue stays registered, and every later event is still delivered to it.
\<close>

theorem stream_cleanup:
  assumes "bus_ok (ob_bus (ap_obs ap))" and "stream_step rp ap s i = (ap', Closed, out)" and "stream_queue s = Some ref"
    and "b = ob_bus (ap_obs ap)" and "b' = ob_bus (ap_obs ap')"
  shows "(if in_try s
          then bus_subscribers b' = filter (\<lambda>r. r \<noteq> ref) (bus_subscribers b)
          else b' = b \<and> (ref \<in> set (bus_subscribers b) \<longrightarrow>
                 bus_queues (fold publish es b') ! ref = take_last MAX_QUEUE_SIZE (bus_queues b ! ref @ es)))"
proof -
  have "bus_subscribers (unsubscribe r c) = filter (\<lambda>x. x \<noteq> r) (bus_subscribers c)" if "bus_ok c" for r and c :: "log_event bus"
    using that by (simp add: unsubscribe_def bus_ok_def distinct_remove1_removeAll removeAll_filter_not_eq eq_commute)
  then have in_loop: "in_try s \<Longrightarrow> bus_subscribers b' = filter (\<lambda>r. r \<noteq> ref) (bus_subscribers b)"
    and before: "\<not> in_try s \<Longrightarrow> b' = b"
    using assms by (cases s; cases i; auto simp: close_stream_def Let_def split: option.splits if_splits)+
  have "bus_queues (fold publish es b) ! ref = take_last MAX_QUEUE_SIZE (bus_queues b ! ref @ es)"
    if r: "ref \<in> set (bus_subscribers b)"
  proof -
    have ok: "bus_ok b" "ref < length (bus_queues b)" using assms(1,4) r by (simp_all add: bus_ok_def)
    then have "length (bus_queues b ! ref) \<le> MAX_QUEUE_SIZE" by (simp add: bus_ok_def)
    then show ?thesis using publishes_nth [OF ok, of es] r client.contents_pushes by simp
  qed
  with in_loop before show ?thesis by simp
qed

theorem stream_cleanup_witness:
  "bus_queues (fold publish [Run_started ''r'']
     (ob_bus (ap_obs (fst (stream_step (\<lambda>_. []) (fst (sse_events sample_app)) (Greeted 0) Stop))))) ! 0 = [Run_started ''r'']"
proof -
  let ?ap = "fst (sse_events sample_app)"
  have b: "ob_bus (ap_obs ?ap) = \<lparr> bus_queues = [[]], bus_subscribers = [0] \<rparr>"
    by (simp add: sse_events_def subscribe_def Let_def sample_app_def init_obs_def init_bus_def)
  then have "bus_ok (ob_bus (ap_obs ?ap))" by (simp add: bus_ok_def)
  moreover have "stream_step (\<lambda>_. []) ?ap (Greeted 0) Stop = (?ap, Closed, [])" by simp
  ultimately show ?thesis
    using stream_cleanup [of ?ap "\<lambda>_. []" "Greeted 0" Stop ?ap "[]" 0, OF _ _ _ refl refl, of "[Run_started ''r'']"] b
    by (simp add: take_last_def MAX_QUEUE_SIZE_def)
qed

section \<open>Framing\<close>

text \<open>A client cuts the stream into messages at the blank lines.\<close>

fun messages :: "string \<Rightarrow> string \<Rightarrow> string list" where
  "messages acc [] = []"
| "messages acc [c] = []"
| "messages acc (c # d # s) =
     (if c = newline \<and> d = newline then acc # messages [] s else messages (acc @ [c]) (d # s))"

lemma messages_body:
  "newline \<notin> set body \<Longrightarrow> messages acc (body @ newline # newline # s) = (acc @ body) # messages [] s"
proof (induction body arbitrary: acc)
  case (Cons c body)
  obtain d t where d: "body @ newline # newline # s = d # t" by (cases body) auto
  with Cons.prems have "messages acc ((c # body) @ newline # newline # s) = messages (acc @ [c]) (body @ newline # newline # s)"
    by auto
  with Cons show ?case by simp
qed simp

lemma printable_no_newline: "printable s \<Longrightarrow> newline \<notin> set s"
  by (auto simp: printable_def newline_def)

definition chunk_body :: "string \<Rightarrow> string" where
  "chunk_body chunk = take (length chunk - 2) chunk"

text \<open>What the generator may yield.\<close>

definition is_chunk :: "(flt \<Rightarrow> string) \<Rightarrow> string \<Rightarrow> bool" where
  "is_chunk rp c \<longleftrightarrow> c = greeting \<or> c = heartbeat \<or> c \<in> range (\<lambda>e. data_line rp (payload e))"

lemma chunk_shape:
  assumes "\<And>x. printable (rp x)" "is_chunk rp c"
  shows "\<exists>body. c = body @ [newline, newline] \<and> newline \<notin> set body"
proof -
  have "\<exists>body. greeting = body @ [newline, newline] \<and> newline \<notin> set body"
    by (intro exI [of _ "take (length greeting - 2) greeting"]) (simp add: greeting_def newline_def dq_def)
  moreover have "\<exists>body. heartbeat = body @ [newline, newline] \<and> newline \<notin> set body"
    by (intro exI [of _ "'': heartbeat''"]) (simp add: heartbeat_def newline_def)
  moreover have "\<exists>body. data_line rp p = body @ [newline, newline] \<and> newline \<notin> set body" for p
    using printable_no_newline [OF printable_payload [of rp p, OF assms(1)]]
    by (intro exI [of _ "''data: '' @ dumps_payload rp p"]) (auto simp: data_line_def newline_def)
  ultimately show ?thesis using assms(2) by (auto simp: is_chunk_def)
qed

lemma step_chunks: "stream_step rp ap s i = (ap', s', out) \<Longrightarrow> c \<in> set out \<Longrightarrow> is_chunk rp c"
  by (cases s; cases i) (auto simp: is_chunk_def Let_def split: option.splits if_splits)

lemma messages_concat:
  assumes "\<And>x. printable (rp x)" "\<forall>c \<in> set cs. is_chunk rp c"
  shows "messages [] (concat cs) = map chunk_body cs"
  using assms(2)
proof (induction cs)
  case (Cons c cs)
  obtain body where b: "c = body @ [newline, newline]" "newline \<notin> set body"
    using chunk_shape [of rp c] assms(1) Cons.prems by auto
  with messages_body [of body "[]"] Cons show ?case by (simp add: chunk_body_def)
qed simp

text \<open>
  Every input, with whatever the application has become in the meantime, and all the chunks yielded.
\<close>

fun stream_output :: "(flt \<Rightarrow> string) \<Rightarrow> stream \<Rightarrow> (app \<times> input) list \<Rightarrow> string list" where
  "stream_output rp s [] = []"
| "stream_output rp s ((ap, i) # steps) =
     (case stream_step rp ap s i of (ap', s', out) \<Rightarrow> out @ stream_output rp s' steps)"

text \<open>
  C17: Messages survive the wire.  Whatever is published, prompts with line breaks, quotes or control
  characters included, the client that cuts the byte stream at blank lines gets back exactly the chunks the
  generator yielded, one message for each.
\<close>

theorem stream_messages:
  assumes "\<And>x. printable (rp x)"
  shows "messages [] (concat (stream_output rp s steps)) = map chunk_body (stream_output rp s steps)"
proof (rule messages_concat [OF assms], rule ballI)
  fix c assume "c \<in> set (stream_output rp s steps)"
  then show "is_chunk rp c"
  proof (induction steps arbitrary: s)
    case (Cons step steps)
    obtain ap i ap' s' out where "step = (ap, i)" "stream_step rp ap s i = (ap', s', out)" by (metis prod_cases3 surj_pair)
    with Cons step_chunks show ?case by auto
  qed simp
qed

theorem stream_messages_witness:
  "messages [] (concat (stream_output (\<lambda>_. ''0.0'') (Waiting 0)
      [(on_obs (\<lambda>ob. ob\<lparr>ob_bus := \<lparr> bus_queues = [[Fail_fast_logged [newline] (Plain ''full'') 503]], bus_subscribers = [0] \<rparr>\<rparr>) sample_app,
        Wakeup)])) =
   [chunk_body (data_line (\<lambda>_. ''0.0'') (payload (Fail_fast_logged [newline] (Plain ''full'') 503)))]"
proof -
  let ?ap = "on_obs (\<lambda>ob. ob\<lparr>ob_bus := \<lparr> bus_queues = [[Fail_fast_logged [newline] (Plain ''full'') 503]], bus_subscribers = [0] \<rparr>\<rparr>) sample_app"
  have "printable ''0.0''" by simp
  from stream_messages [of "\<lambda>_. ''0.0''" "Waiting 0" "[(?ap, Wakeup)]", OF this] show ?thesis
    by (simp add: take_event_def Let_def)
qed

end
