(* ===== verification/Accounting.thy ===== *)
theory Accounting
  imports Deployment
begin

text \<open>
  The books of a run against its answers: the total the budget is checked against is the sum, in the order
  the calls returned, of the costs in the responses of the remote requests, and nothing else.
\<close>

section \<open>The costs that clients were told\<close>

fun told_cost :: "handler \<Rightarrow> flt list" where
  "told_cost (Responded r) = (if resp_route r = REMOTE then [resp_actual_cost r] else [])"
| "told_cost h = []"

definition told_costs :: "handler list \<Rightarrow> flt list" where
  "told_costs hs = concat (map told_cost hs)"

lemma told_costs_simps [simp]:
  "told_costs [] = []" "told_costs (hs @ [h]) = told_costs hs @ told_cost h"
  by (simp_all add: told_costs_def)

lemma told_costs_update:
  "i < length hs \<Longrightarrow>
     mset (told_costs (hs[i := h])) + mset (told_cost (hs ! i)) = mset (told_costs hs) + mset (told_cost h)"
  by (induction hs arbitrary: i) (auto simp: told_costs_def nth_Cons split: nat.splits)

text \<open>A request that executes locally was not routed to the remote backend.\<close>

fun local_route_ok :: "handler \<Rightarrow> bool" where
  "local_route_ok (Awaiting_local p) = (rd_route (p_dec p) \<noteq> REMOTE)"
| "local_route_ok h = True"

section \<open>One resumption\<close>

lemma resume_local_told:
  assumes "resume_local clock p out ap = (ap', h)" "rd_route (p_dec p) \<noteq> REMOTE"
  shows "told_cost h = []"
proof (cases h)
  case (Responded r)
  have "resp_route r = rd_route (p_dec p)"
  proof (cases out)
    case (Inl e)
    with assms(1) Responded on_exception_not_responded [of clock p e "leave_slot (p_gen p) ap" r]
    show ?thesis by (simp add: resume_local_def)
  next
    case (Inr res)
    obtain ap1 x where s: "settle_request clock p 0 (br_actual_latency_ms res) ap = (ap1, x)" by (rule prod.exhaust)
    show ?thesis
    proof (cases x)
      case (Inl e)
      with assms(1) Responded \<open>out = Inr res\<close> s on_exception_not_responded [of clock p e "leave_slot (p_gen p) ap1" r]
      show ?thesis by (simp add: resume_local_def)
    next
      case (Inr u)
      with assms(1) Responded \<open>out = Inr res\<close> s
      have "finish_request p (rd_route (p_dec p)) (br_actual_cost res) res ''committed'' (leave_slot (p_gen p) ap1) =
          (ap', Responded r)" by (simp add: resume_local_def)
      from finish_request_responds [OF this] show ?thesis by blast
    qed
  qed
  with Responded assms(2) show ?thesis by simp
qed simp_all

lemma resume_fallback_told:
  assumes "resume_fallback p out ap = (ap', h)" shows "told_cost h = []"
proof (cases out)
  case (Inl e)
  with assms show ?thesis by (cases e) (auto simp: resume_fallback_def Let_def)
next
  case (Inr res)
  with assms have "finish_request p QUEUE_LOCAL 0 res ''fallback_local'' (leave_slot (p_gen p) ap) = (ap', h)"
    by (simp add: resume_fallback_def Let_def)
  then show ?thesis using finish_request_responds [of p QUEUE_LOCAL 0 res] by (cases h) auto
qed

text \<open>What a resumption adds to the costs told is what it charges.\<close>

lemma resume_told:
  assumes inv: "sys_inv cfg \<lparr> sy_app = ap, sy_handlers = hs \<rparr>" and i: "i < length hs" and out: "result_ok out"
    and e: "resume_handler clock out ap (hs ! i) = (ap', h')" and loc: "local_route_ok (hs ! i)"
  shows "local_route_ok h' \<and>
    ((spent ap' = spent ap \<and> told_cost h' = told_cost (hs ! i)) \<or>
     (\<exists>g c. g < length (ap_gens ap) \<and> told_cost (hs ! i) = [] \<and> told_cost h' = [c] \<and>
            spent ap' = (spent ap)[g := fadd (spent ap ! g) c]))"
proof (cases "pending_of (hs ! i)")
  case None
  then have "ap' = ap" "h' = hs ! i" using e by (cases "hs ! i"; simp add: resume_handler_def)+
  with loc show ?thesis by simp
next
  case (Some p)
  have "handler_ok ap (hs ! i)" using sys_invD(3) [OF inv] i by simp
  then obtain ref where v: "valid_pending ap p ref" using Some by (cases "hs ! i") auto
  have ch: "changes (p_gen p) (after_resume p ref' (hs ! i) h') ap ap'" if "valid_pending ap p ref'" for ref'
    using resume_handler_changes [OF inv i out e Some] v that by (auto simp: valid_pending_def)
  then have "h' = Was_cancelled p \<or> h' = Awaiting_fallback p \<or> is_final h'"
    using v by (auto simp: changes_def after_resume_def)
  then have l: "local_route_ok h'" by (cases h') auto
  note sp = spent_resume [OF inv i out e]
  have none: "told_cost (hs ! i) = []" using Some by (cases "hs ! i") auto
  show ?thesis
  proof (cases "hs ! i")
    case (Awaiting_remote p')
    with Some e have r: "resume_remote clock p out ap = (ap', h')" by (simp add: resume_handler_def)
    show ?thesis
    proof (cases "\<exists>resp. h' = Responded resp")
      case True
      then obtain resp where resp: "h' = Responded resp" by blast
      with remote_answer_committed [OF v r [unfolded resp]] have "told_cost h' = [resp_actual_cost resp]" by auto
      with sp resp Awaiting_remote Some v none l show ?thesis by (auto simp: valid_pending_def)
    next
      case False
      then have "told_cost h' = []" by (cases h') auto
      with sp False none l show ?thesis by (simp add: charge_other)
    qed
  next
    case (Awaiting_local p')
    with Some e loc resume_local_told [of clock p out ap ap' h'] sp none l show ?thesis by (simp add: resume_handler_def)
  next
    case (Awaiting_fallback p')
    with Some e resume_fallback_told [of p out ap ap' h'] sp none l show ?thesis by (simp add: resume_handler_def)
  qed (use Some in simp_all)
qed

lemma arrive_told:
  assumes "config_ok cfg" and inv: "sys_inv cfg \<lparr> sy_app = ap, sy_handlers = hs \<rparr>"
    and e: "start_request cfg clock now uuid req ap = (ap', h)"
  shows "local_route_ok h \<and> told_cost h = []"
proof -
  let ?g = "current ap"
  have g: "?g < length (ap_gens ap)" using sys_invD(1) [OF inv] by (simp add: current_def)
  obtain d b c where "started ?g req d b h (ap_gens ap ! ?g) c"
    using start_request_effect [OF assms(1) sys_invD(1) [OF inv] sys_invD(7) [OF inv g] e] by (auto simp: changes_def)
  then show ?thesis by (cases "rd_route d") (auto simp: started_def pending_for_def)
qed

section \<open>The books of a run\<close>

definition explained :: "system \<Rightarrow> bool" where
  "explained sy \<longleftrightarrow>
     (\<forall>h \<in> set (sy_handlers sy). local_route_ok h) \<and>
     (length (ap_gens (sy_app sy)) = 1 \<longrightarrow>
       (\<exists>xs. mset xs = mset (told_costs (sy_handlers sy)) \<and> spent (sy_app sy) = [foldl fadd 0 xs]))"

lemma explained_same:
  assumes "explained sy" "sy_handlers sy' = sy_handlers sy" "spent (sy_app sy') = spent (sy_app sy)"
    "length (ap_gens (sy_app sy')) = 1 \<Longrightarrow> length (ap_gens (sy_app sy)) = 1"
  shows "explained sy'"
  using assms by (simp add: explained_def)

lemma explained_step:
  assumes cfg: "config_ok cfg" and r: "reach cfg sy" and ok: "event_ok sy ev" and ex: "explained sy"
  shows "explained (sys_step cfg sy ev)"
proof -
  obtain ap hs where sy: "sy = \<lparr> sy_app = ap, sy_handlers = hs \<rparr>" by (cases sy) simp
  note inv = reach_inv [OF r cfg, unfolded sy]
  have one: "length (ap_gens (sy_app (sys_step cfg sy ev))) = 1 \<Longrightarrow> length (ap_gens ap) = 1"
    using step_grows [OF cfg inv, of ev, folded sy, OF ok] sys_invD(1) [OF inv]
    by (cases "ap_gens ap") (auto simp: grows_def sy)
  note sp = only_charged [OF cfg r ok]
  show ?thesis
  proof (cases ev)
    case (Arrive clock now uuid req)
    obtain ap' h where e: "start_request cfg clock now uuid req ap = (ap', h)" by (rule prod.exhaust)
    with arrive_told [OF cfg inv e] ex one sp Arrive show ?thesis by (auto simp: explained_def sy)
  next
    case (Resume i clock out)
    show ?thesis
    proof (cases "i < length hs")
      case False
      with Resume ex show ?thesis by (simp add: sy)
    next
      case True
      obtain ap' h' where e: "resume_handler clock out ap (hs ! i) = (ap', h')" by (rule prod.exhaust)
      have "local_route_ok (hs ! i)" using ex True by (simp add: explained_def sy)
      note t = resume_told [OF inv True _ e this]
      have out: "result_ok out" using ok Resume by simp
      have step: "sys_step cfg sy ev = \<lparr> sy_app = ap', sy_handlers = hs[i := h'] \<rparr>" using e True Resume by (simp add: sy)
      have "\<forall>h \<in> set (hs[i := h']). local_route_ok h"
        using t [OF out] ex set_update_subset_insert by (fastforce simp: explained_def sy)
      moreover have "\<exists>xs. mset xs = mset (told_costs (hs[i := h'])) \<and> spent ap' = [foldl fadd 0 xs]"
        if len: "length (ap_gens ap') = 1"
      proof -
        have l1: "length (ap_gens ap) = 1" using one len step by simp
        with ex obtain xs where xs: "mset xs = mset (told_costs hs)" "spent ap = [foldl fadd 0 xs]"
          by (auto simp: explained_def sy)
        note u = told_costs_update [OF True, of h']
        from t [OF out] show ?thesis
        proof (elim conjE disjE exE)
          assume "spent ap' = spent ap" "told_cost h' = told_cost (hs ! i)"
          with u xs show ?thesis by (intro exI [of _ xs]) simp
        next
          fix g c
          assume "g < length (ap_gens ap)" "told_cost (hs ! i) = []" "told_cost h' = [c]"
            "spent ap' = (spent ap)[g := fadd (spent ap ! g) c]"
          with u xs l1 show ?thesis by (intro exI [of _ "xs @ [c]"]) simp
        qed
      qed
      ultimately show ?thesis by (simp add: explained_def step)
    qed
  next
    case (Start_run run_id reset)
    show ?thesis
    proof (cases reset)
      case True
      have "length (spent (sy_app (sys_step cfg sy ev))) = Suc (length (ap_gens ap))"
        using sp Start_run True by (simp add: sy spent_def)
      then have "length (ap_gens (sy_app (sys_step cfg sy ev))) \<noteq> 1"
        using sys_invD(1) [OF inv] by (simp add: spent_def)
      with ex Start_run show ?thesis by (simp add: explained_def sy)
    next
      case False
      with sp Start_run one show ?thesis by (intro explained_same [OF ex]) (simp_all add: sy)
    qed
  qed (use sp one in \<open>auto simp: sy intro!: explained_same [OF ex]\<close>)
qed

lemma reach_explained: "reach cfg sy \<Longrightarrow> config_ok cfg \<Longrightarrow> explained sy"
proof (induction rule: reach.induct)
  case (reach_start health ap)
  then obtain c where "new_components cfg = Inr c" "ap_gens ap = [start_reaper c]"
    by (auto simp: startup_def split: sum.splits)
  moreover from this have "cumulative_remote_cost (c_bm c) = 0"
    by (auto simp: new_components_def init_bm_def split: sum.splits if_splits)
  ultimately show ?case by (simp add: explained_def spent_def)
next
  case (reach_step sy ev)
  then show ?case using explained_step by blast
qed

text \<open>
  C13: The books are explained by the answers.  As long as no run has reset the service, the total the budget
  is checked against is the float sum, in some order, of the costs in the responses of the remote requests:
  no answer is charged twice or left out, and nothing but an answer is on the books.
\<close>

theorem books_explained:
  assumes "config_ok cfg" and "reach cfg sy" and "length (ap_gens (sy_app sy)) = 1"
  shows "\<exists>xs. mset xs = mset (told_costs (sy_handlers sy)) \<and>
              cumulative_remote_cost (gen_bm (sy_app sy) 0) = foldl fadd 0 xs"
proof -
  obtain xs where "mset xs = mset (told_costs (sy_handlers sy))" "spent (sy_app sy) = [foldl fadd 0 xs]"
    using reach_explained [OF assms(2,1)] assms(3) by (auto simp: explained_def)
  moreover from this(2) assms(3) have "cumulative_remote_cost (gen_bm (sy_app sy) 0) = foldl fadd 0 xs"
    by (cases "ap_gens (sy_app sy)") (simp_all add: spent_def)
  ultimately show ?thesis by blast
qed

theorem books_explained_witness:
  "\<exists>r. sy_handlers sample_done = [Responded r] \<and> told_costs (sy_handlers sample_done) = [resp_actual_cost r] \<and>
     cumulative_remote_cost (gen_bm (sy_app sample_done) 0) = foldl fadd 0 [resp_actual_cost r]"
proof -
  obtain r where r: "sy_handlers sample_done = [Responded r]" using sample_done_state(1) by blast
  have "ap_gens (sy_app sample_done) \<noteq> []"
    using reach_inv [OF sample_done_reach sample_config_ok] by (simp add: sys_inv_def Let_def)
  then have "length (ap_gens (sy_app sample_done)) = 1"
    using sample_done_state(2) by (cases "ap_gens (sy_app sample_done)") (simp_all add: current_def)
  from books_explained [OF sample_config_ok sample_done_reach this] r obtain xs where
    xs: "mset xs = mset (told_costs [Responded r])" "cumulative_remote_cost (gen_bm (sy_app sample_done) 0) = foldl fadd 0 xs"
    by auto
  have "resp_route r = REMOTE"
  proof (rule ccontr)
    assume "resp_route r \<noteq> REMOTE"
    with xs(1) have "xs = []" by (simp add: told_costs_def)
    with xs(2) sample_done_state(3) show False by simp
  qed
  with xs(1) have "xs = [resp_actual_cost r]" "told_costs [Responded r] = [resp_actual_cost r]"
    by (simp_all add: told_costs_def)
  with r xs(2) show ?thesis by (intro exI [of _ r]) simp
qed

end
