(* ===== verification/Classifier_Words.thy ===== *)
theory Classifier_Words
  imports Classifier
begin

text \<open>
  What \<open>app/complexity_classifier.py\<close> decides, in words: the patterns of the source, read as lists
  of words and phrases that occur in a prompt or begin it, without regular expressions.
\<close>

section \<open>The words of an expression\<close>

text \<open>An expression without anchors is a set of strings; \<open>low\<close> is that set in lower case.\<close>

primrec anchorless :: "rx \<Rightarrow> bool" where
  "anchorless (One p) \<longleftrightarrow> True"
| "anchorless (Many lo hi p) \<longleftrightarrow> True"
| "anchorless Boundary \<longleftrightarrow> False"
| "anchorless Begin \<longleftrightarrow> False"
| "anchorless Finish \<longleftrightarrow> False"
| "anchorless (Seq r q) \<longleftrightarrow> anchorless r \<and> anchorless q"
| "anchorless (Alt r q) \<longleftrightarrow> anchorless r \<and> anchorless q"
| "anchorless (Maybe r) \<longleftrightarrow> anchorless r"

definition conc :: "string set \<Rightarrow> string set \<Rightarrow> string set" where
  "conc A B = {u @ v | u v. u \<in> A \<and> v \<in> B}"

primrec lang :: "rx \<Rightarrow> string set" where
  "lang (One p) = {[c] | c. p c}"
| "lang (Many lo hi p) = {w. lo \<le> length w \<and> (\<forall>h. hi = Some h \<longrightarrow> length w \<le> h) \<and> (\<forall>c \<in> set w. p c)}"
| "lang Boundary = {}"
| "lang Begin = {}"
| "lang Finish = {}"
| "lang (Seq r q) = conc (lang r) (lang q)"
| "lang (Alt r q) = lang r \<union> lang q"
| "lang (Maybe r) = insert [] (lang r)"

definition low :: "rx \<Rightarrow> string set" where
  "low r = map to_lower ` lang r"

lemma conc_simps [simp]:
  "conc {} B = {}" "conc (insert u A) B = (\<lambda>v. u @ v) ` B \<union> conc A B" "conc A {[]} = A"
  by (auto simp: conc_def)

lemma match_lang:
  "anchorless r \<Longrightarrow> rx_match (u @ w @ v) r (length u) (length u + length w) \<longleftrightarrow> w \<in> lang r"
proof (induction r arbitrary: u w v)
  case (One p)
  then show ?case by (cases w) (auto simp: rx_match_simps)
next
  case (Many lo hi p)
  have "(\<forall>k < length w. p ((u @ w @ v) ! (length u + k))) \<longleftrightarrow> (\<forall>c \<in> set w. p c)"
    by (auto simp: all_set_conv_all_nth nth_append)
  then show ?case by (auto simp: rx_match_simps)
next
  case (Seq r q)
  show ?case
  proof
    assume "rx_match (u @ w @ v) (Seq r q) (length u) (length u + length w)"
    then obtain k where k: "rx_match (u @ w @ v) r (length u) k" "rx_match (u @ w @ v) q k (length u + length w)"
      by (auto simp: rx_match_simps)
    define x y where "x = take (k - length u) w" and "y = drop (k - length u) w"
    have "w = x @ y" "k = length u + length x" "length u + length w = length (u @ x) + length y"
      using k rx_match_range [OF k(1)] rx_match_range [OF k(2)] by (simp_all add: x_def y_def)
    with k Seq.IH(1) [of u x "y @ v"] Seq.IH(2) [of "u @ x" y v] Seq.prems show "w \<in> lang (Seq r q)"
      by (auto simp: conc_def add.assoc)
  next
    assume "w \<in> lang (Seq r q)"
    then obtain x y where "w = x @ y" "x \<in> lang r" "y \<in> lang q" by (auto simp: conc_def)
    with Seq.IH(1) [of u x "y @ v"] Seq.IH(2) [of "u @ x" y v] Seq.prems
    show "rx_match (u @ w @ v) (Seq r q) (length u) (length u + length w)"
      by (auto simp: rx_match_simps add.assoc)
  qed
qed (auto simp: rx_match_simps)

lemma lang_lower: "caseless r \<Longrightarrow> map to_lower w \<in> lang r \<longleftrightarrow> w \<in> lang r"
proof (induction r arbitrary: w)
  case (Seq r q)
  show ?case
  proof
    assume "map to_lower w \<in> lang (Seq r q)"
    then obtain u v where "w = u @ v" "map to_lower u \<in> lang r" "map to_lower v \<in> lang q"
      by (auto simp: conc_def map_eq_append_conv)
    with Seq show "w \<in> lang (Seq r q)" by (auto simp: conc_def)
  next
    assume "w \<in> lang (Seq r q)"
    with Seq show "map to_lower w \<in> lang (Seq r q)" by (fastforce simp: conc_def)
  qed
next
  case (One p)
  then show ?case by (cases w) auto
qed simp_all

lemma low_iff: "caseless r \<Longrightarrow> w \<in> lang r \<longleftrightarrow> map to_lower w \<in> low r"
  unfolding low_def using lang_lower by (metis imageE image_eqI)

lemma low_conc: "map to_lower ` conc A B = conc (map to_lower ` A) (map to_lower ` B)"
proof
  show "map to_lower ` conc A B \<subseteq> conc (map to_lower ` A) (map to_lower ` B)" by (fastforce simp: conc_def)
  show "conc (map to_lower ` A) (map to_lower ` B) \<subseteq> map to_lower ` conc A B"
  proof
    fix w assume "w \<in> conc (map to_lower ` A) (map to_lower ` B)"
    then obtain u v where w: "w = map to_lower (u @ v)" "u \<in> A" "v \<in> B" by (auto simp: conc_def)
    then have "u @ v \<in> conc A B" by (auto simp: conc_def)
    with w(1) show "w \<in> map to_lower ` conc A B" by blast
  qed
qed

lemma low_simps [simp]:
  "low (Seq r q) = conc (low r) (low q)" "low (Alt r q) = low r \<union> low q" "low (Maybe r) = insert [] (low r)"
  by (simp_all add: low_def low_conc image_Un)

lemma low_none: "low (Many 0 (Some 0) p) = {[]}"
proof -
  have "lang (Many 0 (Some 0) p) = {[]}" by auto
  then show ?thesis by (simp add: low_def)
qed

lemma low_seqs [simp]: "low (seqs []) = {[]}" "low (seqs (r # rs)) = conc (low r) (low (seqs rs))"
proof -
  show e: "low (seqs []) = {[]}" unfolding seqs.simps by (rule low_none)
  show "low (seqs (r # rs)) = conc (low r) (low (seqs rs))" using e by (cases rs) simp_all
qed

lemma low_alts [simp]: "low (alts []) = {}" "low (alts (r # rs)) = low r \<union> low (alts rs)"
proof -
  show e: "low (alts []) = {}" by (auto simp: low_def)
  show "low (alts (r # rs)) = low r \<union> low (alts rs)" using e by (cases rs) simp_all
qed

definition lower_case :: "string \<Rightarrow> bool" where
  "lower_case w \<longleftrightarrow> map to_lower w = w"

lemma low_ci: "to_lower c = c \<Longrightarrow> low (ci c) = {[c]}"
  by (auto simp: low_def ci_def intro!: image_eqI [of _ _ "[c]"])

lemma low_one: "(\<And>c. p (to_lower c) = p c) \<Longrightarrow> low (One p) = {[c] | c. p c \<and> to_lower c = c}"
  unfolding low_def
proof (intro equalityI subsetI)
  fix w
  assume p: "\<And>c. p (to_lower c) = p c"
  { assume "w \<in> map to_lower ` lang (One p)"
    then obtain c where "w = [to_lower c]" "p c" by auto
    with p show "w \<in> {[c] | c. p c \<and> to_lower c = c}" by simp }
  { assume "w \<in> {[c] | c. p c \<and> to_lower c = c}"
    then have "w = map to_lower w" "w \<in> lang (One p)" by auto
    then show "w \<in> map to_lower ` lang (One p)" by blast }
qed

lemma low_any_of: "lower_case cs \<Longrightarrow> low (any_of cs) = {[c] | c. c \<in> set cs}"
proof -
  assume "lower_case cs"
  then have l: "to_lower c = c" if "c \<in> set cs" for c
    using that unfolding lower_case_def by (metis map_eq_conv map_ident)
  have "low (any_of cs) = {[c] | c. to_lower c \<in> set cs \<and> to_lower c = c}"
    unfolding any_of_def by (rule low_one) simp
  also have "\<dots> = {[c] | c. c \<in> set cs}" using l by auto
  finally show ?thesis .
qed

lemma low_lit: "lower_case w \<Longrightarrow> low (lit w) = {w}"
  unfolding lit_def lower_case_def by (induction w) (simp_all add: low_ci low_none)

lemma low_dot: "low (One dot) = {[c] | c. ord c \<noteq> 10 \<and> to_lower c = c}"
  by (rule low_one) simp

lemma anchorless_seqs [simp]: "anchorless (seqs (r # rs)) \<longleftrightarrow> anchorless r \<and> anchorless (seqs rs)" "anchorless (seqs [])"
  by (cases rs) simp_all

lemma anchorless_alts [simp]: "anchorless (alts (r # rs)) \<longleftrightarrow> anchorless r \<and> anchorless (alts rs)" "anchorless (alts [])"
  by (cases rs) simp_all

lemma anchorless_lit [simp]: "anchorless (lit w)" "anchorless (ci c)" "anchorless (any_of cs)"
  by (induction w) (simp_all add: lit_def ci_def any_of_def)

section \<open>Searching for words\<close>

lemma match_split:
  assumes "anchorless r"
  shows "rx_match s r i j \<longleftrightarrow> (\<exists>u w v. s = u @ w @ v \<and> i = length u \<and> j = length u + length w \<and> w \<in> lang r)"
proof
  assume m: "rx_match s r i j"
  then have ij: "i \<le> j" "j \<le> length s" using rx_match_range by blast+
  have s: "s = take i s @ take (j - i) (drop i s) @ drop j s"
    using ij by (metis append_take_drop_id drop_drop le_add_diff_inverse2)
  have len: "length (take i s) = i" "i + length (take (j - i) (drop i s)) = j" using ij by simp_all
  have "take (j - i) (drop i s) \<in> lang r"
    using match_lang [OF assms, of "take i s" "take (j - i) (drop i s)" "drop j s"] m
    by (simp only: len s [symmetric])
  with s len show "\<exists>u w v. s = u @ w @ v \<and> i = length u \<and> j = length u + length w \<and> w \<in> lang r" by metis
qed (use match_lang [OF assms] in auto)

lemma boundary_before:
  "w \<noteq> [] \<Longrightarrow> is_word (hd w) \<Longrightarrow> boundary_at (u @ w @ v) (length u) \<longleftrightarrow> u = [] \<or> \<not> is_word (last u)"
  by (cases u rule: rev_cases; cases w) (auto simp: boundary_at_def word_at_def nth_append)

lemma boundary_after:
  assumes "w \<noteq> []" "is_word (last w)"
  shows "boundary_at (u @ w @ v) (length u + length w) \<longleftrightarrow> v = [] \<or> \<not> is_word (hd v)"
proof -
  obtain x c where w: "w = x @ [c]" using assms(1) by (cases w rule: rev_cases) auto
  then have "word_at (u @ w @ v) (length u + length w - 1)" using assms(2) by (simp add: word_at_def nth_append)
  moreover have "word_at (u @ w @ v) (length u + length w) \<longleftrightarrow> v \<noteq> [] \<and> is_word (hd v)"
    by (cases v) (simp_all add: word_at_def nth_append)
  ultimately show ?thesis using w by (auto simp: boundary_at_def)
qed

definition wordy :: "string \<Rightarrow> bool" where
  "wordy w \<longleftrightarrow> w \<noteq> [] \<and> is_word (hd w) \<and> is_word (last w)"

lemma wordy_lower [simp]: "wordy (map to_lower w) = wordy w"
  by (cases "w = []") (simp_all add: wordy_def hd_map last_map)

lemma occurs_lower: "occurs w s \<Longrightarrow> lower_case w"
  by (auto simp: occurs_def lower_case_def)

lemma boundary_match [simp]: "rx_match s Boundary i j \<longleftrightarrow> i = j \<and> i \<le> length s \<and> boundary_at s i"
  by (auto simp: rx_match_simps)

text \<open>Between two boundaries an expression finds its words as whole words.\<close>

lemma bounded_words:
  assumes "low (seqs rs) = A" "\<forall>w \<in> A. wordy w" "caseless (seqs rs)" "anchorless (seqs rs)"
  shows "search (bounded rs) s \<longleftrightarrow> (\<exists>w \<in> A. occurs w s)"
proof
  assume "search (bounded rs) s"
  then obtain i j where "boundary_at s i" "rx_match s (seqs rs) i j" "boundary_at s j"
    by (auto simp: search_iff bounded_def rx_match_simps)
  then obtain u w v where m: "s = u @ w @ v" "w \<in> lang (seqs rs)" "boundary_at s (length u)" "boundary_at s (length u + length w)"
    by (auto simp: match_split [OF assms(4)])
  then have A: "map to_lower w \<in> A" using low_iff [OF assms(3)] assms(1) by blast
  with assms(2) have "wordy w" by (metis wordy_lower)
  then have "u = [] \<or> \<not> is_word (last u)" "v = [] \<or> \<not> is_word (hd v)"
    using m boundary_before [of w u v] boundary_after [of w u v] by (auto simp: wordy_def)
  with m A show "\<exists>w \<in> A. occurs w s" unfolding occurs_def by blast
next
  assume "\<exists>w \<in> A. occurs w s"
  then obtain u w v where o: "s = u @ w @ v" "map to_lower w \<in> A" "u = [] \<or> \<not> is_word (last u)" "v = [] \<or> \<not> is_word (hd v)"
    by (auto simp: occurs_def)
  then have "w \<in> lang (seqs rs)" using low_iff [OF assms(3)] assms(1) by blast
  moreover have "wordy w" using o(2) assms(2) wordy_lower by blast
  ultimately have "rx_match s (bounded rs) (length u) (length u + length w)"
    using o boundary_before [of w u v] boundary_after [of w u v] match_lang [OF assms(4), of u w v]
    by (auto simp: bounded_def rx_match_simps wordy_def)
  then show "search (bounded rs) s" unfolding search_iff by blast
qed

text \<open>\<open>begins w s\<close>: \<open>s\<close> starts with the phrase \<open>w\<close>, in any case.\<close>

definition begins :: "string \<Rightarrow> string \<Rightarrow> bool" where
  "begins w s \<longleftrightarrow> (\<exists>mid post. s = mid @ post \<and> map to_lower mid = w \<and> (post = [] \<or> \<not> is_word (hd post)))"

lemma starts_match:
  assumes "low (seqs rs) = A" "\<forall>w \<in> A. wordy w" "caseless (seqs rs)" "anchorless (seqs rs)"
  shows "(\<exists>j. rx_match s (starts rs) i j) \<longleftrightarrow> i = 0 \<and> (\<exists>w \<in> A. begins w s)"
proof
  assume "\<exists>j. rx_match s (starts rs) i j"
  then obtain j where i: "i = 0" and "rx_match s (seqs rs) 0 j" "boundary_at s j"
    by (auto simp: starts_def rx_match_simps)
  then obtain w v where m: "s = w @ v" "w \<in> lang (seqs rs)" "boundary_at s (length w)"
    by (auto simp: match_split [OF assms(4)])
  then have A: "map to_lower w \<in> A" using low_iff [OF assms(3)] assms(1) by blast
  with assms(2) have "wordy w" by (metis wordy_lower)
  with m boundary_after [of w "[]" v] have "v = [] \<or> \<not> is_word (hd v)" by (auto simp: wordy_def)
  with i m A show "i = 0 \<and> (\<exists>w \<in> A. begins w s)" unfolding begins_def by blast
next
  assume b: "i = 0 \<and> (\<exists>w \<in> A. begins w s)"
  then obtain w v where o: "s = w @ v" "map to_lower w \<in> A" "v = [] \<or> \<not> is_word (hd v)"
    by (auto simp: begins_def)
  then have "w \<in> lang (seqs rs)" using low_iff [OF assms(3)] assms(1) by blast
  moreover have "wordy w" using o(2) assms(2) wordy_lower by blast
  ultimately have "rx_match s (starts rs) i (length w)"
    using o b boundary_after [of w "[]" v] match_lang [OF assms(4), of "[]" w v]
    by (auto simp: starts_def rx_match_simps wordy_def)
  then show "\<exists>j. rx_match s (starts rs) i j" ..
qed

lemma starts_words:
  assumes "low (seqs rs) = A" "\<forall>w \<in> A. wordy w" "caseless (seqs rs)" "anchorless (seqs rs)"
  shows "search (starts rs) s \<longleftrightarrow> (\<exists>w \<in> A. begins w s)"
  using starts_match [OF assms] by (auto simp: search_iff)

lemma letter_words:
  "is_word (CHR ''a'')" "is_word (CHR ''b'')" "is_word (CHR ''c'')" "is_word (CHR ''d'')" "is_word (CHR ''e'')" "is_word (CHR ''f'')"
  "is_word (CHR ''g'')" "is_word (CHR ''h'')" "is_word (CHR ''i'')" "is_word (CHR ''j'')" "is_word (CHR ''k'')" "is_word (CHR ''l'')"
  "is_word (CHR ''m'')" "is_word (CHR ''n'')" "is_word (CHR ''o'')" "is_word (CHR ''p'')" "is_word (CHR ''q'')" "is_word (CHR ''r'')"
  "is_word (CHR ''s'')" "is_word (CHR ''t'')" "is_word (CHR ''u'')" "is_word (CHR ''v'')" "is_word (CHR ''w'')" "is_word (CHR ''x'')"
  "is_word (CHR ''y'')" "is_word (CHR ''z'')"
  by code_simp+

lemma letter_lower:
  "to_lower (CHR ''a'') = CHR ''a''" "to_lower (CHR ''b'') = CHR ''b''" "to_lower (CHR ''c'') = CHR ''c''"
  "to_lower (CHR ''d'') = CHR ''d''" "to_lower (CHR ''e'') = CHR ''e''" "to_lower (CHR ''f'') = CHR ''f''"
  "to_lower (CHR ''g'') = CHR ''g''" "to_lower (CHR ''h'') = CHR ''h''" "to_lower (CHR ''i'') = CHR ''i''"
  "to_lower (CHR ''j'') = CHR ''j''" "to_lower (CHR ''k'') = CHR ''k''" "to_lower (CHR ''l'') = CHR ''l''"
  "to_lower (CHR ''m'') = CHR ''m''" "to_lower (CHR ''n'') = CHR ''n''" "to_lower (CHR ''o'') = CHR ''o''"
  "to_lower (CHR ''p'') = CHR ''p''" "to_lower (CHR ''q'') = CHR ''q''" "to_lower (CHR ''r'') = CHR ''r''"
  "to_lower (CHR ''s'') = CHR ''s''" "to_lower (CHR ''t'') = CHR ''t''" "to_lower (CHR ''u'') = CHR ''u''"
  "to_lower (CHR ''v'') = CHR ''v''" "to_lower (CHR ''w'') = CHR ''w''" "to_lower (CHR ''x'') = CHR ''x''"
  "to_lower (CHR ''y'') = CHR ''y''" "to_lower (CHR ''z'') = CHR ''z''" "to_lower (CHR '' '') = CHR '' ''"
  by code_simp+

lemmas letters = letter_words letter_lower lower_case_def wordy_def

lemma word_search: "lower_case w \<Longrightarrow> wordy w \<Longrightarrow> search (word w) s \<longleftrightarrow> occurs w s"
  using bounded_words [of "[lit w]" "{w}" s] by (simp add: word_def bounded_def low_lit)

section \<open>The signals in words\<close>

definition quality_words :: "string list" where
  "quality_words =
     [''explain'', ''why'', ''analyse'', ''analysi'', ''analyses'', ''analysis'', ''analyz'',
      ''analyze'', ''compare'', ''contrast'', ''design'', ''architect'', ''implement'', ''code'',
      ''prove'', ''derive'', ''optimis'', ''optimiz'', ''optimise'', ''optimize'', ''refactor'',
      ''debug'', ''breakdown'', ''summarise'', ''summarize'', ''how does'', ''how do'',
      ''what are the'', ''advantage'', ''advantages'', ''disadvantage'', ''disadvantages'',
      ''tradeoff'', ''tradeoffs'', ''recommend'', ''sugggest'', ''evaluate'', ''critique'']"

definition step_by_step :: "string \<Rightarrow> bool" where
  "step_by_step s \<longleftrightarrow> (\<exists>c d. ord c \<noteq> 10 \<and> ord d \<noteq> 10 \<and> occurs (''step'' @ [c] @ ''by'' @ [d] @ ''step'') s)"

definition trade_off :: "string \<Rightarrow> bool" where
  "trade_off s \<longleftrightarrow> (\<exists>c. ord c \<noteq> 10 \<and> (occurs (''trade'' @ [c] @ ''off'') s \<or> occurs (''trade'' @ [c] @ ''offs'') s))"

text \<open>The word "write", then on the same line within 40 characters a kind of text.\<close>

definition kinds_of_text :: "string list" where
  "kinds_of_text = [''essay'', ''report'', ''letter'', ''function'', ''class'', ''module'', ''script'']"

definition write_request :: "string \<Rightarrow> bool" where
  "write_request s \<longleftrightarrow>
     (\<exists>u a gap b v. s = u @ a @ gap @ b @ v \<and> map to_lower a = ''write'' \<and> map to_lower b \<in> set kinds_of_text \<and>
        (u = [] \<or> \<not> is_word (last u)) \<and> (v = [] \<or> \<not> is_word (hd v)) \<and>
        gap \<noteq> [] \<and> length gap \<le> 40 \<and> (\<forall>c \<in> set gap. ord c \<noteq> 10) \<and> \<not> is_word (hd gap) \<and> \<not> is_word (last gap))"

definition quality_signal :: "string \<Rightarrow> bool" where
  "quality_signal s \<longleftrightarrow> (\<exists>w \<in> set quality_words. occurs w s) \<or> step_by_step s \<or> trade_off s \<or> write_request s"

definition fast_openings :: "string list" where
  "fast_openings =
     [''what is'', ''who is'', ''who was'', ''when is'', ''when was'', ''when did'', ''where is'',
      ''where was'', ''hi'', ''hello'', ''hey'', ''good morning'', ''good evening'', ''thank'',
      ''thanks'', ''yes'', ''no'', ''ok'', ''okay'', ''sure'', ''list'']"

definition fast_words :: "string list" where
  "fast_words = [''define'', ''spell'', ''translate'', ''translati'']"

text \<open>A digit, then digits, operators and white space, perhaps an equals sign (and a newline).\<close>

definition arithmetic :: "string \<Rightarrow> bool" where
  "arithmetic s \<longleftrightarrow>
     (\<exists>d ms e n. s = [d] @ ms @ e @ n \<and> is_digit d \<and> ms \<noteq> [] \<and> (\<forall>c \<in> set ms. arith_char c) \<and>
        (e = [] \<or> e = ''='') \<and> (n = [] \<or> (\<exists>c. n = [c] \<and> ord c = 10)))"

definition fast_signal :: "string \<Rightarrow> bool" where
  "fast_signal s \<longleftrightarrow> (\<exists>w \<in> set fast_openings. begins w s) \<or> (\<exists>w \<in> set fast_words. occurs w s) \<or> arithmetic s"

section \<open>The patterns find exactly these\<close>

lemma low_classes:
  "low (any_of ''ei'') = {''e'', ''i''}" "low (any_of ''sz'') = {''s'', ''z''}"
  using low_any_of [of "''ei''"] low_any_of [of "''sz''"] by (auto simp: letters)

lemma conc_chars: "conc {[c] | c. P c} B = {c # v | c v. P c \<and> v \<in> B}"
  unfolding conc_def by (auto intro: exI [of _ "[_]"])

lemmas low_eval = low_lit low_classes low_dot letters

lemma quality_bounded:
  "search (bounded [lit ''analys'', any_of ''ei'', Maybe (lit ''s'')]) s \<longleftrightarrow>
     occurs ''analyse'' s \<or> occurs ''analysi'' s \<or> occurs ''analyses'' s \<or> occurs ''analysis'' s"
  "search (bounded [lit ''analyz'', Maybe (lit ''e'')]) s \<longleftrightarrow> occurs ''analyz'' s \<or> occurs ''analyze'' s"
  "search (bounded [lit ''optimi'', any_of ''sz'', Maybe (lit ''e'')]) s \<longleftrightarrow>
     occurs ''optimis'' s \<or> occurs ''optimiz'' s \<or> occurs ''optimise'' s \<or> occurs ''optimize'' s"
  "search (bounded [lit ''advantage'', Maybe (lit ''s'')]) s \<longleftrightarrow> occurs ''advantage'' s \<or> occurs ''advantages'' s"
  "search (bounded [lit ''disadvantage'', Maybe (lit ''s'')]) s \<longleftrightarrow>
     occurs ''disadvantage'' s \<or> occurs ''disadvantages'' s"
  by (auto simp: bounded_words [OF refl] low_eval)

text \<open>A dot stands for any character but a newline.\<close>

lemma occurs_dot: "occurs (u @ [c] @ v) s \<Longrightarrow> to_lower c = c"
  using occurs_lower [of "u @ [c] @ v" s] by (simp add: lower_case_def append_eq_append_conv)

lemma step_search:
  "search (bounded [lit ''step'', One dot, lit ''by'', One dot, lit ''step'']) s \<longleftrightarrow> step_by_step s"
proof -
  have low: "low (seqs [lit ''step'', One dot, lit ''by'', One dot, lit ''step'']) =
      {''step'' @ [c] @ ''by'' @ [d] @ ''step'' | c d. (ord c \<noteq> 10 \<and> to_lower c = c) \<and> (ord d \<noteq> 10 \<and> to_lower d = d)}"
    by (auto simp: low_eval conc_chars)
  have "search (bounded [lit ''step'', One dot, lit ''by'', One dot, lit ''step'']) s \<longleftrightarrow>
      (\<exists>c d. (ord c \<noteq> 10 \<and> to_lower c = c) \<and> (ord d \<noteq> 10 \<and> to_lower d = d) \<and>
         occurs (''step'' @ [c] @ ''by'' @ [d] @ ''step'') s)"
    by (subst bounded_words [OF low]) (auto simp: letters)
  also have "\<dots> \<longleftrightarrow> step_by_step s"
    unfolding step_by_step_def
    using occurs_dot [of "''step''" _ _ s] occurs_dot [of "''step'' @ [_] @ ''by''" _ "''step''" s]
    by (metis append.assoc)
  finally show ?thesis .
qed

lemma trade_search:
  "search (bounded [lit ''trade'', Maybe (One dot), lit ''off'', Maybe (lit ''s'')]) s \<longleftrightarrow>
     occurs ''tradeoff'' s \<or> occurs ''tradeoffs'' s \<or> trade_off s"
proof -
  have low: "low (seqs [lit ''trade'', Maybe (One dot), lit ''off'', Maybe (lit ''s'')]) =
      {''tradeoff'', ''tradeoffs''} \<union> {''trade'' @ [c] @ w | c w. ord c \<noteq> 10 \<and> to_lower c = c \<and> w \<in> {''off'', ''offs''}}"
    by (auto simp: low_eval conc_chars)
  have "search (bounded [lit ''trade'', Maybe (One dot), lit ''off'', Maybe (lit ''s'')]) s \<longleftrightarrow>
      occurs ''tradeoff'' s \<or> occurs ''tradeoffs'' s \<or>
      (\<exists>c. ord c \<noteq> 10 \<and> to_lower c = c \<and> (occurs (''trade'' @ [c] @ ''off'') s \<or> occurs (''trade'' @ [c] @ ''offs'') s))"
    by (subst bounded_words [OF low]) (auto simp: letters)
  also have "\<dots> \<longleftrightarrow> occurs ''tradeoff'' s \<or> occurs ''tradeoffs'' s \<or> trade_off s"
    unfolding trade_off_def using occurs_dot [of "''trade''" _ _ s] by blast
  finally show ?thesis .
qed

lemma low_texts: "low (alts (map lit kinds_of_text)) = set kinds_of_text"
  by (auto simp: kinds_of_text_def low_eval)

lemma texts_wordy: "\<forall>w \<in> set kinds_of_text. wordy w"
  by (simp add: kinds_of_text_def letters)

lemma texts_plain: "caseless (alts (map lit kinds_of_text))" "anchorless (alts (map lit kinds_of_text))"
  by (simp_all add: kinds_of_text_def)

lemma gap_match:
  "rx_match (u @ g @ v) (Many 0 (Some n) p) (length u) (length u + length g) \<longleftrightarrow> length g \<le> n \<and> (\<forall>c \<in> set g. p c)"
  using match_lang [of "Many 0 (Some n) p" u g v] by simp

lemma write_search:
  "search (Seq (word ''write'') (Seq (Many 0 (Some 40) dot) (bounded [alts (map lit kinds_of_text)]))) s \<longleftrightarrow>
     write_request s" (is "search ?r s \<longleftrightarrow> _")
proof
  assume "search ?r s"
  then obtain i k m j where m: "boundary_at s i" "rx_match s (lit ''write'') i k" "boundary_at s k"
      "rx_match s (Many 0 (Some 40) dot) k m" "boundary_at s m" "rx_match s (alts (map lit kinds_of_text)) m j" "boundary_at s j"
    by (auto simp: search_iff word_def bounded_def rx_match_simps(6))
  obtain u a x where a: "s = u @ a @ x" "i = length u" "k = length u + length a" "a \<in> lang (lit ''write'')"
    using m(2) by (auto simp: match_split)
  obtain y b v where b: "s = y @ b @ v" "m = length y" "j = length y + length b" "b \<in> lang (alts (map lit kinds_of_text))"
    using m(6) by (auto simp: match_split texts_plain)
  have "length (u @ a) \<le> length y" using rx_match_range [OF m(4)] a b by simp
  then obtain g where g: "y = (u @ a) @ g" "x = g @ b @ v"
    using a(1) b(1) by (auto simp: append_eq_append_conv2)
  have s: "s = u @ a @ g @ b @ v" using a g by simp
  have aw: "map to_lower a = ''write''" and bw: "map to_lower b \<in> set kinds_of_text"
    using a(4) b(4) low_iff [of "lit ''write''" a] low_iff [OF texts_plain(1), of b] low_texts by (auto simp: low_eval)
  have wa: "wordy a" using wordy_lower [of a] by (simp add: aw) (simp add: letters)
  have wb: "wordy b" using wordy_lower [of b] texts_wordy bw by blast
  have gap: "length g \<le> 40" "\<forall>c \<in> set g. ord c \<noteq> 10"
    using m(4) gap_match [of "u @ a" g "b @ v" 40 dot] a b g by (simp_all add: s add.assoc)
  note ba = boundary_before [of a u "g @ b @ v"] boundary_after [of a u "g @ b @ v"]
  note bb = boundary_before [of b "u @ a @ g" v] boundary_after [of b "u @ a @ g" v]
  have out: "u = [] \<or> \<not> is_word (last u)" "v = [] \<or> \<not> is_word (hd v)"
    and inn: "g @ b @ v = [] \<or> \<not> is_word (hd (g @ b @ v))" "u @ a @ g = [] \<or> \<not> is_word (last (u @ a @ g))"
    using m(1,3,5,7) ba bb wa wb a b g by (simp_all add: s wordy_def add.assoc)
  have g0: "g \<noteq> []" using inn(1) wb by (cases "g = []") (simp_all add: wordy_def)
  then have "\<not> is_word (hd g)" "\<not> is_word (last g)" using inn by simp_all
  with s aw bw gap out g0 show "write_request s" unfolding write_request_def by (intro exI conjI) assumption+
next
  assume "write_request s"
  then obtain u a g b v where s: "s = u @ a @ g @ b @ v" and aw: "map to_lower a = ''write''"
      and bw: "map to_lower b \<in> set kinds_of_text"
      and e: "u = [] \<or> \<not> is_word (last u)" "v = [] \<or> \<not> is_word (hd v)"
      and g: "g \<noteq> []" "length g \<le> 40" "\<forall>c \<in> set g. ord c \<noteq> 10" "\<not> is_word (hd g)" "\<not> is_word (last g)"
    unfolding write_request_def by (elim exE conjE) (rule that; assumption)
  have wa: "wordy a" using wordy_lower [of a] by (simp add: aw) (simp add: letters)
  have wb: "wordy b" using wordy_lower [of b] texts_wordy bw by blast
  have la: "a \<in> lang (lit ''write'')" and lb: "b \<in> lang (alts (map lit kinds_of_text))"
    using aw bw low_iff [of "lit ''write''" a] low_iff [OF texts_plain(1), of b] low_texts by (auto simp: low_eval)
  have "rx_match s (lit ''write'') (length u) (length u + length a)"
    using match_lang [of "lit ''write''" u a "g @ b @ v"] la by (simp add: s)
  moreover have "rx_match s (Many 0 (Some 40) dot) (length u + length a) (length u + length a + length g)"
    using gap_match [of "u @ a" g "b @ v" 40 dot] g by (simp add: s add.assoc)
  moreover have "rx_match s (alts (map lit kinds_of_text)) (length u + length a + length g) (length u + length a + length g + length b)"
    using match_lang [OF texts_plain(2), of "u @ a @ g" b v] lb by (simp add: s add.assoc)
  moreover have "rx_match s Boundary (length u) (length u)" "rx_match s Boundary (length u + length a) (length u + length a)"
      "rx_match s Boundary (length u + length a + length g) (length u + length a + length g)"
      "rx_match s Boundary (length u + length a + length g + length b) (length u + length a + length g + length b)"
    using boundary_before [of a u "g @ b @ v"] boundary_after [of a u "g @ b @ v"]
      boundary_before [of b "u @ a @ g" v] boundary_after [of b "u @ a @ g" v] wa wb e g
    by (simp_all add: s wordy_def add.assoc)
  ultimately have "rx_match s ?r (length u) (length u + length a + length g + length b)"
    unfolding word_def bounded_def seqs.simps by (blast intro: m_seq)
  then show "search ?r s" unfolding search_iff by blast
qed

lemma quality_search: "list_ex (\<lambda>r. search r s) QUALITY_PATTERNS \<longleftrightarrow> quality_signal s"
proof -
  have texts: "alts [lit ''essay'', lit ''report'', lit ''letter'', lit ''function'', lit ''class'', lit ''module'', lit ''script''] =
      alts (map lit kinds_of_text)"
    by (simp add: kinds_of_text_def)
  show ?thesis
    unfolding QUALITY_PATTERNS_def quality_signal_def texts
    by (simp add: quality_words_def quality_bounded step_search trade_search write_search word_search letters) blast
qed

lemma fast_starts:
  "search (starts [lit ''what is'']) s \<longleftrightarrow> begins ''what is'' s"
  "search (starts [lit ''who is'']) s \<longleftrightarrow> begins ''who is'' s"
  "search (starts [lit ''who was'']) s \<longleftrightarrow> begins ''who was'' s"
  "search (starts [lit ''when '', alts [lit ''is'', lit ''was'', lit ''did'']]) s \<longleftrightarrow>
     begins ''when is'' s \<or> begins ''when was'' s \<or> begins ''when did'' s"
  "search (starts [lit ''where '', alts [lit ''is'', lit ''was'']]) s \<longleftrightarrow> begins ''where is'' s \<or> begins ''where was'' s"
  "search (starts [alts [lit ''hi'', lit ''hello'', lit ''hey'', lit ''good morning'', lit ''good evening'']]) s \<longleftrightarrow>
     begins ''hi'' s \<or> begins ''hello'' s \<or> begins ''hey'' s \<or> begins ''good morning'' s \<or> begins ''good evening'' s"
  "search (starts [lit ''thank'', Maybe (lit ''s'')]) s \<longleftrightarrow> begins ''thank'' s \<or> begins ''thanks'' s"
  "search (starts [alts [lit ''yes'', lit ''no'', lit ''ok'', lit ''okay'', lit ''sure'']]) s \<longleftrightarrow>
     begins ''yes'' s \<or> begins ''no'' s \<or> begins ''ok'' s \<or> begins ''okay'' s \<or> begins ''sure'' s"
  by (auto simp: starts_words [OF refl] low_eval)

lemma translate_search:
  "search (bounded [lit ''translat'', any_of ''ei'']) s \<longleftrightarrow> occurs ''translate'' s \<or> occurs ''translati'' s"
  by (subst bounded_words [OF refl]; auto simp: low_eval)

text \<open>What follows "list" in its pattern may be empty, and so does not matter.\<close>

lemma list_search:
  "search (Seq (starts [lit ''list'']) (Seq (Many 0 (Some 20) dot) (Seq Boundary (Maybe (Seq (lit ''of'') Boundary))))) s \<longleftrightarrow>
     begins ''list'' s" (is "search (Seq ?r ?q) s \<longleftrightarrow> _")
proof -
  have b: "(\<exists>j. rx_match s ?r i j) \<longleftrightarrow> i = 0 \<and> begins ''list'' s" for i
    using starts_match [of "[lit ''list'']" "{''list''}" s i] by (simp add: low_eval)
  have "rx_match s ?q j j" if "rx_match s ?r i j" for i j
  proof -
    have j: "boundary_at s j" "j \<le> length s" using that by (auto simp: starts_def rx_match_simps(6))
    then have "rx_match s (Many 0 (Some 20) dot) j j"
      using m_many [of 0 0 "Some 20" j s dot] by simp
    with j show ?thesis by (auto simp: rx_match_simps(6,8))
  qed
  then have "search (Seq ?r ?q) s \<longleftrightarrow> (\<exists>i j. rx_match s ?r i j)"
    unfolding search_iff rx_match_simps(6) by blast
  with b show ?thesis by simp
qed

lemma equals_sign: "lang (lit ''='') = {''=''}"
proof -
  have o: "ord (CHR ''='') = 61" by code_simp
  have l: "to_lower d = CHR ''='' \<longleftrightarrow> d = CHR ''=''" for d
  proof
    assume "to_lower d = CHR ''=''"
    then have "ord (to_lower d) = 61" using o by simp
    then have "ord d = ord (CHR ''='')" unfolding o by (auto simp: ord_to_lower split: if_splits)
    moreover have "ord d = ord c \<longleftrightarrow> d = c" for c by (simp add: ord_def)
    ultimately show "d = CHR ''=''" by blast
  next
    assume "d = CHR ''=''"
    moreover have "to_lower (CHR ''='') = CHR ''=''" by code_simp
    ultimately show "to_lower d = CHR ''=''" by simp
  qed
  then show ?thesis by (auto simp: lit_def ci_def)
qed

lemma ex_append:
  "(\<exists>w v. s = w @ v \<and> (\<exists>d ms e. w = [d] @ ms @ e \<and> P d ms e) \<and> R v) \<longleftrightarrow>
   (\<exists>d ms e n. s = [d] @ ms @ e @ n \<and> P d ms e \<and> R n)"
proof
  assume "\<exists>d ms e n. s = [d] @ ms @ e @ n \<and> P d ms e \<and> R n"
  then obtain d ms e n where "s = ([d] @ ms @ e) @ n" "P d ms e" "R n" by auto
  then show "\<exists>w v. s = w @ v \<and> (\<exists>d ms e. w = [d] @ ms @ e \<and> P d ms e) \<and> R v" by blast
qed fastforce

lemma seq_begin: "rx_match s (Seq Begin r) i j \<longleftrightarrow> i = 0 \<and> rx_match s r 0 j"
  by (auto simp: rx_match_simps(4,6))

lemma seq_finish:
  "rx_match s (Seq a (Seq b (Seq c Finish))) i j \<longleftrightarrow> rx_match s (Seq a (Seq b c)) i j \<and> finish_at s j"
proof -
  have e: "rx_match s (Seq c Finish) k j \<longleftrightarrow> rx_match s c k j \<and> finish_at s j" for k
    using rx_match_range [of s c k j] by (auto simp: rx_match_simps(5,6))
  show ?thesis by (auto simp: rx_match_simps(6) [of s a] rx_match_simps(6) [of s b] e)
qed

lemma arithmetic_search:
  "search (seqs [Begin, One is_digit, Many 1 None arith_char, Maybe (lit ''=''), Finish]) s \<longleftrightarrow> arithmetic s"
proof -
  let ?r = "Seq (One is_digit) (Seq (Many 1 None arith_char) (Maybe (lit ''='')))"
  have l: "lang ?r = {[d] @ ms @ e | d ms e. is_digit d \<and> ms \<noteq> [] \<and> (\<forall>c \<in> set ms. arith_char c) \<and> (e = [] \<or> e = ''='')}"
  proof (intro set_eqI iffI)
    fix w
    assume "w \<in> lang ?r"
    then obtain u x where u: "w = u @ x" "u \<in> lang (One is_digit)"
        "x \<in> conc (lang (Many 1 None arith_char)) (lang (Maybe (lit ''='')))"
      unfolding lang.simps(6) conc_def by blast
    then obtain ms e where "x = ms @ e" "ms \<in> lang (Many 1 None arith_char)" "e \<in> lang (Maybe (lit ''=''))"
      unfolding conc_def by blast
    moreover from u(2) obtain d where "u = [d]" "is_digit d" by auto
    ultimately have "w = [d] @ ms @ e" "is_digit d" "ms \<noteq> []" "\<forall>c \<in> set ms. arith_char c" "e = [] \<or> e = ''=''"
      using u(1) by (auto simp: equals_sign)
    then show "w \<in> {[d] @ ms @ e | d ms e. is_digit d \<and> ms \<noteq> [] \<and> (\<forall>c \<in> set ms. arith_char c) \<and> (e = [] \<or> e = ''='')}"
      by blast
  next
    fix w
    assume "w \<in> {[d] @ ms @ e | d ms e. is_digit d \<and> ms \<noteq> [] \<and> (\<forall>c \<in> set ms. arith_char c) \<and> (e = [] \<or> e = ''='')}"
    then obtain d ms e where w: "w = [d] @ ms @ e" "is_digit d" "ms \<noteq> []" "\<forall>c \<in> set ms. arith_char c" "e \<in> {[], ''=''}"
      by blast
    then have "ms @ e \<in> lang (Seq (Many 1 None arith_char) (Maybe (lit ''='')))" "[d] \<in> lang (One is_digit)"
      by (auto simp: equals_sign conc_def Suc_le_eq)
    with w(1) show "w \<in> lang ?r" unfolding lang.simps(6) conc_def by blast
  qed
  have "search (seqs [Begin, One is_digit, Many 1 None arith_char, Maybe (lit ''=''), Finish]) s \<longleftrightarrow>
      (\<exists>j. rx_match s ?r 0 j \<and> finish_at s j)"
    by (simp only: search_iff seqs.simps seq_begin seq_finish) blast
  also have "\<dots> \<longleftrightarrow> (\<exists>w v. s = w @ v \<and> w \<in> lang ?r \<and> finish_at s (length w))"
    using match_split [of ?r s 0] by (auto simp del: lang.simps)
  also have "\<dots> \<longleftrightarrow> (\<exists>w v. s = w @ v \<and> w \<in> lang ?r \<and> (v = [] \<or> (\<exists>c. v = [c] \<and> ord c = 10)))"
  proof -
    have "finish_at (w @ v) (length w) \<longleftrightarrow> v = [] \<or> (\<exists>c. v = [c] \<and> ord c = 10)" for w v
      by (cases v) (auto simp: finish_at_def nth_append)
    then show ?thesis by metis
  qed
  also have "\<dots> \<longleftrightarrow> arithmetic s"
    unfolding l arithmetic_def mem_Collect_eq ex_append by (simp only: conj_assoc)
  finally show ?thesis .
qed

lemma fast_search: "list_ex (\<lambda>r. search r s) FAST_PATTERNS \<longleftrightarrow> fast_signal s"
  unfolding FAST_PATTERNS_def fast_signal_def
  by (simp add: fast_openings_def fast_words_def fast_starts translate_search list_search arithmetic_search [unfolded One_nat_def] word_search letters
        del: seqs.simps alts.simps) blast

section \<open>Classification\<close>

text \<open>
  C37: A prompt is classified by its words.  With the white space at its ends removed, it is
  \<open>QUALITY\<close> if one of the quality words or phrases occurs in it as a whole word (or one of the three
  open patterns: step-by-step, trade-off, and a request to write a text); otherwise it is \<open>FAST\<close> if it
  opens with one of the fast openings, has one of the four fast words or is an arithmetic expression; and
  otherwise its number of words decides, with \<open>QUALITY\<close> from 60 on.  Case never matters.
\<close>

theorem classify_by_words:
  "classify s =
     (if quality_signal (strip s) then QUALITY
      else if fast_signal (strip s) then FAST
      else if 60 \<le> length (split (strip s)) then QUALITY else FAST)"
  by (simp add: classify_def Let_def quality_search fast_search TOKEN_THRESHOLD_def)

end
