(* ===== verification/Spec2Isabelle.thy ===== *)
theory Spec2Isabelle
  imports Demo_Run Event_Stream Accounting Classifier_Words
begin

text \<open>
  Verification of the LEC AI inference router (\<open>src/app\<close> and \<open>src/load_generator.py\<close>).

  \<^bold>\<open>The program.\<close>  A FastAPI gateway routes each inference request to a local model or to
  a paid remote model.  \<open>main.py\<close> classifies the prompt (\<open>complexity_classifier.py\<close>), asks the
  decision agent (\<open>decision_agent.py\<close>) for a route, which it chooses from the estimates of the latency
  tracker (\<open>latency_tracker.py\<close>), the queue monitor (\<open>queue_monitor.py\<close>) and one atomic
  reservation on the budget manager (\<open>budget_manager.py\<close>); it awaits the backend
  (\<open>backends.py\<close>), commits or rolls back the reservation, and records the latency.
  \<open>observability.py\<close> logs each step and \<open>event_bus.py\<close> fans the records out to dashboard
  clients.  \<open>load_generator.py\<close> fires a batch of requests and judges the metrics.

  \<^bold>\<open>Theories.\<close>  Each imports the ones it calls.
  \<^item> \<open>Prelude\<close>: association lists as dictionaries, the interfaces \<open>bounded_buffer\<close> (every
    buffer that drops its oldest entry) and \<open>guarded_machine\<close> (invariants of runs).
  \<^item> \<open>PyFloat\<close>: doubles as rationals with \<open>rnd\<close>, round to nearest even with gradual
    underflow; the interface \<open>rounding\<close> bounds the drift of a running total.  \<open>PyText\<close>: the
    numbers of f-strings and the texts of exceptions.  \<open>Json\<close>: JSON documents and the dynamically typed
    operations on them.
  \<^item> \<open>Models\<close>: the schemas of \<open>models.py\<close>, the exceptions, the constants of
    \<open>config.py\<close> as a record.
  \<^item> \<open>Observability\<close>, \<open>Lifecycle_Log\<close>: the lock trace and every \<open>log_*\<close> function.
    \<open>Event_Bus\<close>: subscribers with queues of 64.
  \<^item> \<open>Budget_Manager\<close>: the two-phase reservation protocol, one function per method, over a record
    with the running totals, the dictionary of active reservations and all reservation objects ever made;
    well-formedness, settlement, and the refinement of an abstract table.  \<open>Budget_Ledger\<close>: the money:
    the float totals against the exact sums, the cap, admission.  \<open>Budget_Drift\<close>: a sharper bound on the
    rounding of the reserved latency, measured by what was reserved.
  \<^item> \<open>Queue_Monitor\<close>, \<open>Latency_Tracker\<close>, \<open>Classifier\<close> (regular expressions with
    an executable matcher; \<open>Classifier_Words\<close> says what the patterns find, in lists of words),
    \<open>Decision_Agent\<close> (both decision trees, and the order of routes they
    implement).
  \<^item> \<open>Inference\<close>: \<open>main.py\<close>'s lifespan, run markers and the inference handler as a machine
    that is suspended while it awaits a backend.  \<open>System\<close>: all requests, the reaper, runs and
    dashboard clients under any interleaving, and the interface \<open>backend_contract\<close> it asks of its
    backends; \<open>System_Invariant\<close>: the invariant of the reachable
    states; \<open>Service_Properties\<close>: a sample service and lemmas on top.
  \<^item> \<open>Backends\<close>: \<open>backends.py\<close> over what the network, the clock and the random numbers do.
    \<open>Deployment\<close>: the service with its own backends, seen by a client: which errors it can be answered
    with, what is charged, and answers that come after their reservation has expired.
    \<open>Endpoints\<close>: \<open>/status\<close>, \<open>/metrics\<close>, \<open>/trace\<close>, \<open>/summary\<close>.
    \<open>Accounting\<close>: the books of a manager against the costs its clients were told.
  \<^item> \<open>Wire\<close>: the texts and JSON documents that leave the service: reasons, error details, the payload of
    each log record, the reply of \<open>/inference\<close>, \<open>json.dumps\<close>.  \<open>Event_Stream\<close>: the generator
    behind \<open>/events\<close> as a machine, its refinement into the service's events, its cleanup and the framing
    of its messages.
  \<^item> \<open>Load_Generator\<close>: one request of the demo client, its row, the batch, the counters, the verdict, the
    lock timeline.  \<open>Demo_Run\<close>: \<open>run_demo\<close> and \<open>main\<close> with all they print, as
    computations that print lines and may raise.
  \<^item> This theory: the properties of the whole service.

  \<^bold>\<open>Modelling decisions.\<close>
  \<^item> Every lock of the program protects code without a suspension, so a method is one function on the
    state of its component; what other tasks can interleave is exactly a step of \<open>System.sys_step\<close>.
    The state of a waiting caller of the semaphore is part of the model (\<open>Suspended_on_slot\<close>) and
    shown unreachable.
  \<^item> Exceptions are values (\<open>exc + 'a\<close>); each \<open>except\<close> clause is a branch.
    \<open>CancelledError\<close> is not caught by \<open>except Exception\<close>, as in Python.
  \<^item> Clock readings, uuids, random draws, HTTP replies, \<open>tenacity\<close>, pydantic's token validation and
    \<open>repr\<close> are arguments.  What is assumed of them is \<open>event_ok\<close> (fresh uuids, results that
    satisfy \<open>result_ok\<close>), and for the backends \<open>clock_ok\<close>, \<open>sleeps_ok\<close>,
    \<open>draws_ok\<close>, \<open>provider_ok\<close> and \<open>retry_law\<close>;
    \<open>deployed_refines_service\<close> derives \<open>result_ok\<close> from them.
  \<^item> \<open>/run_start\<close> with \<open>reset\<close> replaces the components while old requests keep theirs: the
    application holds every generation of components and a request remembers its own.
  \<^item> Budgets and latencies are floats with their rounding.  Theorems about money state the tolerance:
    1e-12 at admission, 1e-9 at each commit, and half a unit in the last place for each operation made;
    \<open>caps_ok K T M L\<close> bounds the number of simultaneous (\<open>K\<close>) and of all (\<open>T\<close>)
    reservations so that these stay below the amounts themselves (for the shipped caps, \<open>T\<close> may be in the
    millions).
  \<^item> A Python string is a sequence of code points; a HOL \<open>string\<close> holds those below 256, and the texts
    with a further sign (in reasons, in the printed report) are lists of code points.
  \<^item> No fuel is used: every function terminates by structure.

  \<^bold>\<open>What the lemmas show.\<close>  Budget and latency caps hold and totals track reservations
  (\<open>Budget_Ledger\<close>, \<open>service_budget_safe\<close>); reservations are settled exactly once and only lost
  by cancellation, until the reaper finds them (\<open>Budget_Manager\<close>, \<open>reservations_owned\<close>); local
  concurrency is bounded and slots are given back (\<open>Queue_Monitor\<close>, \<open>service_slots\<close>); requests
  end (\<open>request_terminates\<close>) and a quiet service is empty (\<open>quiet_service_is_empty\<close>), which is
  what the demo's verdict sees (\<open>demo_passes_when_quiet\<close>); routing follows the order of the tier
  (\<open>Decision_Agent\<close>); estimates are a function of the history (\<open>Latency_Tracker\<close>); a prompt is
  classified by its words (\<open>classify_by_words\<close>, \<open>keyword_decides\<close>); backends make at most three attempts (\<open>remote_retries\<close>) and convert every error (\<open>Backends\<close>), so
  the deployed service never fails with an unhandled exception (\<open>deployed_answers\<close>) and charges exactly its
  remote answers (\<open>only_answers_charged\<close>, \<open>books_explained\<close>); what it answers is what the client reports
  (\<open>client_sees_answer\<close>, \<open>breakdown_complete\<close>), and what it publishes is what a dashboard reads (\<open>stream_messages\<close>).  Some
  theorems state where the code departs from its comments: \<open>cancelled_request_leaks\<close>,
  \<open>overrun_not_charged\<close>, \<open>expired_request_refused\<close>, \<open>stream_cleanup\<close>, \<open>fast_path_stops_at_latency_cap\<close>, \<open>new_backend_loses_spikes\<close>,
  \<open>dashboard_counts_twice\<close>, \<open>shutdown_leaves_reaper\<close>.

  \<^bold>\<open>Not modelled.\<close>  The dashboard page, the start script, static files, the set-up of the logger and
  the layout of its lines, the byte form of replies other than the event stream (the framework's serialiser),
  the parsing of the command line by \<open>argparse\<close>; infinities, NaN and overflow of floats; prompts with
  code points above 255; the tests.
\<close>

section \<open>Requests and slots\<close>

text \<open>
  C3: Local concurrency.  In every reachable state of the service, the counter of each queue
  monitor is the number of requests that are executing locally on it (first choice or fallback),
  it never passes the configured capacity, and no request ever waits for the semaphore.
\<close>

theorem service_slots:
  assumes "config_ok cfg" and "reach cfg sy" and "g < length (ap_gens (sy_app sy))"
  shows "active_count (gen_qm (sy_app sy) g) = int (length (filter (holds g) (sy_handlers sy))) \<and>
         active_count (gen_qm (sy_app sy) g) \<le> LOCAL_QUEUE_CAPACITY cfg \<and>
         (\<forall>p. Suspended_on_slot p \<notin> set (sy_handlers sy))"
proof -
  note inv = reach_inv [OF assms(2,1)]
  then have "gen_ok cfg (ap_gens (sy_app sy) ! g)" using assms(3) by (simp add: sys_inv_def Let_def)
  then have "active_count (gen_qm (sy_app sy) g) \<le> LOCAL_QUEUE_CAPACITY cfg"
    by (auto simp: gen_ok_def qm_ok_def)
  then show ?thesis using inv assms(3) by (fastforce simp: sys_inv_def slots_ok_def Let_def)
qed

theorem service_slots_witness:
  "active_count (gen_qm (sy_app (sample_service FAST)) 0) = 1 \<and> (1::int) \<le> LOCAL_QUEUE_CAPACITY sample_config"
  using service_slots [OF sample_config_ok sample_reach [of FAST], of 0] sample_local
  by (simp add: sample_pending_def)

text \<open>
  C30: An arriving request is rejected by the agent or starts, as the agent decided.  Its handler never fails
  for want of a slot between routing and execution and never ends in an unhandled exception.  On
  \<open>FAIL_FAST\<close> it answers 503 with the reason of the decision and leaves all components as they were.
  Otherwise it awaits the backend of the decision; the manager has one new reservation, pending and active under
  the fresh identifier with the amounts of the route, and a local request, and only a local one, has taken a
  slot of the queue monitor.
\<close>

theorem arrival_outcomes:
  assumes "config_ok cfg" and "reach cfg sy" and "ap = sy_app sy" and "g = current ap"
    and "start_request cfg clock now uuid req ap = (ap', h)"
  shows "\<exists>d b calls.
     route cfg now uuid (gen_qm ap g) (gen_lt ap g) (req\<lparr>req_complexity_tier := Some (tier_of req)\<rparr>) (gen_bm ap g) =
       (b, Inr d, calls) \<and>
     (case rd_route d of
        FAIL_FAST \<Rightarrow> h = Http_error 503 (Because (rd_reason d)) \<and> ap_gens ap' = ap_gens ap
      | REMOTE \<Rightarrow>
          h = Awaiting_remote (pending_for g req d) \<and> ap_gens ap' = (ap_gens ap)[g := (ap_gens ap ! g)\<lparr>c_bm := b\<rparr>]
      | _ \<Rightarrow>
          h = Awaiting_local (pending_for g req d) \<and>
          ap_gens ap' = (ap_gens ap)[g := (ap_gens ap ! g)\<lparr>c_bm := b,
            c_qm := (gen_qm ap g)\<lparr>active_count := active_count (gen_qm ap g) + 1,
                                 semaphore := semaphore (gen_qm ap g) - 1\<rparr>\<rparr>]) \<and>
     (rd_route d \<noteq> FAIL_FAST \<longrightarrow>
        rd_reservation d = Some (length (objects (gen_bm ap g))) \<and>
        map_of (active_reservations b) uuid = rd_reservation d \<and>
        objects b = objects (gen_bm ap g) @
          [\<lparr> reserved_cost = (if rd_route d = REMOTE then COST_PER_REMOTE_REQUEST cfg else 0),
             reserved_latency_ms = rd_estimated_latency_ms d,
             ttl_seconds = reservation_ttl_seconds (gen_bm ap g), res_id = uuid, created_at = now,
             res_state = Pending \<rparr>])"
proof -
  have inv: "sys_inv cfg sy" by (rule reach_inv [OF assms(2,1)])
  then have ne: "ap_gens ap \<noteq> []" and "gen_ok cfg (ap_gens ap ! current ap)"
    by (simp_all add: sys_inv_def Let_def current_def assms(3))
  then obtain d b calls where b: "backed cfg now uuid (gen_qm ap g) (gen_lt ap g) (latency_budget_ms req) (gen_bm ap g) b d"
      and ch: "changes g (started g req d b h) ap ap'"
      and r: "route cfg now uuid (gen_qm ap g) (gen_lt ap g) (req\<lparr>req_complexity_tier := Some (tier_of req)\<rparr>) (gen_bm ap g) =
        (b, Inr d, calls)"
    using start_request_effect [OF assms(1) ne _ assms(5)] unfolding assms(4) by blast
  obtain c where c: "ap_gens ap' = (ap_gens ap)[g := c]" "started g req d b h (ap_gens ap ! g) c"
    using ch by (auto simp: changes_def)
  have slot: "q' = q\<lparr>active_count := active_count q + 1, semaphore := semaphore q - 1\<rparr>"
    if "slot_enter q = Some (q', Inr ())" for q q'
    using that by (auto simp: slot_enter_def acquire_def sem_acquire_def split: if_splits)
  have res: "rd_reservation d = Some (length (objects (gen_bm ap g))) \<and>
        map_of (active_reservations b) uuid = rd_reservation d \<and>
        objects b = objects (gen_bm ap g) @
          [\<lparr> reserved_cost = (if rd_route d = REMOTE then COST_PER_REMOTE_REQUEST cfg else 0),
             reserved_latency_ms = rd_estimated_latency_ms d,
             ttl_seconds = reservation_ttl_seconds (gen_bm ap g), res_id = uuid, created_at = now,
             res_state = Pending \<rparr>]" if "rd_route d \<noteq> FAIL_FAST"
    using b that by (cases "rd_route d") (simp_all add: backed_def with_reservation_def update_conv')
  show ?thesis
    using r c res slot by (intro exI [of _ d] exI [of _ b] exI [of _ calls]) (cases "rd_route d"; auto simp: started_def)
qed

theorem arrival_outcomes_witness:
  "\<exists>d. rd_route d \<in> {LOCAL, QUEUE_LOCAL} \<and> rd_reservation d = Some 0 \<and>
       snd (start_request sample_config (\<lambda>_. 0) 3 ''b'' (sample_request FAST 3000) sample_app) =
         Awaiting_local (pending_for 0 (sample_request FAST 3000) d)"
proof -
  let ?r = "start_request sample_config (\<lambda>_. 0) 3 ''b'' (sample_request FAST 3000) sample_app"
  obtain p where p: "snd ?r = Awaiting_local p"
    using conjunct1 [OF sample_local] by (simp add: sample_service_def split_beta)
  have "sample_app = sy_app \<lparr> sy_app = sample_app, sy_handlers = [] \<rparr>" "?r = (fst ?r, snd ?r)" by simp_all
  from arrival_outcomes [OF sample_config_ok reach_start [OF sample_startup] this(1) refl this(2)] p
  show ?thesis
    by (elim exE) (rename_tac d b calls, case_tac "rd_route d"; fastforce simp: sample_manager_def)
qed

text \<open>
  C5: Every request ends.  From any reachable state and under any further schedule, a request
  whose backend calls return twice (its own and, after a remote failure, the local fallback) has
  a response, an HTTP error, an unhandled exception or was cancelled; until then each return
  brings it strictly closer.
\<close>

theorem request_terminates:
  assumes "config_ok cfg" and "reach cfg sy" and "permitted event_ok (sys_step cfg) sy evs"
    and "i < length (sy_handlers sy)" and "2 \<le> length (filter (is_resume i) evs)"
  shows "is_final (sy_handlers (run (sys_step cfg) sy evs) ! i) \<or>
         (\<exists>p. sy_handlers (run (sys_step cfg) sy evs) ! i = Was_cancelled p)"
proof -
  have "stage (sy_handlers (run (sys_step cfg) sy evs) ! i) \<le> 2 - length (filter (is_resume i) evs)"
    using stage_run [OF assms(1-4)] stage_le [of "sy_handlers sy ! i"] by linarith
  then have "stage (sy_handlers (run (sys_step cfg) sy evs) ! i) = 0" using assms(5) by simp
  then show ?thesis by (cases "sy_handlers (run (sys_step cfg) sy evs) ! i") simp_all
qed

theorem request_terminates_witness:
  "\<exists>h. sy_handlers (run (sys_step sample_config) (sample_service QUALITY)
     [Resume 0 (\<lambda>_. 0) (Inl (RemoteInferenceError ''boom'')), Sse_connect,
      Resume 0 (\<lambda>_. 0) (Inl (OtherException ''OSError'' ''gone''))]) ! 0 = h \<and> (is_final h \<or> (\<exists>p. h = Was_cancelled p))"
  using request_terminates [OF sample_config_ok sample_reach [of QUALITY], of
      "[Resume 0 (\<lambda>_. 0) (Inl (RemoteInferenceError ''boom'')), Sse_connect,
        Resume 0 (\<lambda>_. 0) (Inl (OtherException ''OSError'' ''gone''))]" 0] sample_remote
  by (simp add: result_ok_def)

section \<open>Reservations and money\<close>

text \<open>
  C2: No reservation is lost.  In every reachable state, each active reservation of each
  manager belongs to a request that is still in its first backend call, or to one whose call was
  cancelled; an error of any other kind leaves none behind.
\<close>

theorem reservations_owned:
  assumes "config_ok cfg" and "reach cfg sy" and "g < length (ap_gens (sy_app sy))"
    and "(rid, ref) \<in> set (active_reservations (gen_bm (sy_app sy) g))"
  shows "\<exists>h p. h \<in> set (sy_handlers sy) \<and> h \<in> {Awaiting_remote p, Awaiting_local p, Was_cancelled p} \<and>
           p_gen p = g \<and> rd_reservation (p_dec p) = Some ref"
proof -
  obtain h where "h \<in> set (sy_handlers sy)" "owns g ref h"
    using active_owned [OF reach_inv [OF assms(2,1)] assms(3,4)] by blast
  moreover from this(2) have "\<exists>p. h \<in> {Awaiting_remote p, Awaiting_local p, Was_cancelled p} \<and>
      p_gen p = g \<and> rd_reservation (p_dec p) = Some ref" by (cases h) simp_all
  ultimately show ?thesis by blast
qed

theorem reservations_owned_witness:
  "\<exists>h p. h \<in> set (sy_handlers (sample_service QUALITY)) \<and>
     h \<in> {Awaiting_remote p, Awaiting_local p, Was_cancelled p} \<and> rd_reservation (p_dec p) = Some 0"
proof -
  have "(''b'', 0) \<in> set (active_reservations (gen_bm (sy_app (sample_service QUALITY)) 0))"
    using sample_remote by (simp add: with_reservation_def sample_manager_def)
  moreover have "0 < length (ap_gens (sy_app (sample_service QUALITY)))" using sample_remote by simp
  ultimately show ?thesis
    using reservations_owned [OF sample_config_ok sample_reach [of QUALITY], of 0] by blast
qed

text \<open>
  C29: A quiet service is empty.  When every request it has seen was answered (with whatever
  response or error) and none was cancelled, no manager holds an active reservation, no slot
  is taken, and the totals reserved are zero up to the rounding of the operations made.
\<close>

theorem quiet_service_is_empty:
  assumes "config_ok cfg" and "reach cfg sy" and "g < length (ap_gens (sy_app sy))"
    and "\<forall>h \<in> set (sy_handlers sy). is_final h"
    and "caps_ok N N (MAX_REMOTE_BUDGET cfg) (MAX_CUMULATIVE_LATENCY_MS cfg)" and "length (sy_handlers sy) \<le> N"
  shows "active_reservation_count (gen_bm (sy_app sy) g) = 0 \<and> active_count (gen_qm (sy_app sy) g) = 0 \<and>
         \<bar>reserved_for_execution (gen_bm (sy_app sy) g)\<bar> \<le> of_nat (2 * N) * half_ulp (MAX_REMOTE_BUDGET cfg + 2) \<and>
         \<bar>bm_reserved_latency_ms (gen_bm (sy_app sy) g)\<bar> \<le> of_nat (2 * N) * half_ulp (MAX_CUMULATIVE_LATENCY_MS cfg + 2)"
  using quiet_totals(1,2) [OF assms] no_owner_no_reservation [OF reach_inv [OF assms(2,1)] assms(3,4)]
  by (simp add: active_reservation_count_def)

theorem quiet_service_is_empty_witness:
  "active_reservation_count (gen_bm (sy_app sample_done) 0) = 0 \<and> active_count (gen_qm (sy_app sample_done) 0) = 0"
proof -
  have "caps_ok 1 1 (MAX_REMOTE_BUDGET sample_config) (MAX_CUMULATIVE_LATENCY_MS sample_config)"
    using sample_caps1 by (simp add: sample_config_def default_config_def)
  moreover have "0 < length (ap_gens (sy_app sample_done))"
    using reach_inv [OF sample_done_reach sample_config_ok] by (simp add: sys_inv_def Let_def)
  ultimately show ?thesis
    using quiet_service_is_empty [OF sample_config_ok sample_done_reach, of 0 1] sample_done_state(1) by auto
qed

text \<open>
  C1: The service never overspends.  In every reachable state of a service that has seen at
  most \<open>N\<close> requests, for the managers of every run: the cost charged plus the cost still
  promised is at most the configured budget, up to the admission tolerance, 1e-9 per request and
  the rounding; and the latency charged is at most the configured cap plus 1e-9.
\<close>

theorem service_budget_safe:
  assumes "config_ok cfg" and "reach cfg sy" and "g < length (ap_gens (sy_app sy))"
    and "caps_ok N N (MAX_REMOTE_BUDGET cfg) (MAX_CUMULATIVE_LATENCY_MS cfg)" and "length (sy_handlers sy) \<le> N"
  shows "cumulative_remote_cost (gen_bm (sy_app sy) g) + held reserved_cost (gen_bm (sy_app sy) g)
           \<le> MAX_REMOTE_BUDGET cfg + eps12 + of_nat N * eps9 + of_nat (8 * N) * half_ulp (MAX_REMOTE_BUDGET cfg + 2) \<and>
         cumulative_actual_latency_ms (gen_bm (sy_app sy) g) \<le> fadd (MAX_CUMULATIVE_LATENCY_MS cfg) eps9"
proof -
  let ?b = "gen_bm (sy_app sy) g" and ?M = "MAX_REMOTE_BUDGET cfg"
  have inv: "sys_inv cfg sy" by (rule reach_inv [OF assms(2,1)])
  have L: "0 \<le> MAX_CUMULATIVE_LATENCY_MS cfg" using assms(1) by (simp add: config_ok_def)
  have "gen_ok cfg (ap_gens (sy_app sy) ! g)" "length (objects ?b) \<le> N"
    using inv assms(3,5) by (fastforce simp: sys_inv_def Let_def)+
  note b = booksD [OF gen_books [OF this L assms(4)]]
  have "of_nat (4 * touches ?b) * half_ulp (?M + 2) \<le> of_nat (8 * N) * half_ulp (?M + 2)"
    using touches_le [OF b(6)] smallD(3) [of N ?M] assms(4)
    by (intro mult_right_mono) (simp_all only: caps_ok_def of_nat_le_iff)
  moreover have "0 \<le> of_nat (length (active_reservations ?b)) * eps9"
    by (intro mult_nonneg_nonneg) simp_all
  ultimately show ?thesis using b(11,12) by linarith
qed

theorem service_budget_safe_witness:
  "cumulative_remote_cost (gen_bm (sy_app (sample_service QUALITY)) 0) +
     held reserved_cost (gen_bm (sy_app (sample_service QUALITY)) 0)
       \<le> 5 + eps12 + eps9 + 8 * half_ulp 7"
  using service_budget_safe [OF sample_config_ok sample_reach [of QUALITY], of 0 1] sample_remote sample_caps1
  by (simp add: sample_config_def default_config_def)

text \<open>
  C9: A remote answer was paid for.  When the handler of a remote request returns a response, its
  reservation was committed, within the reserved amount plus 1e-9, exactly the reported cost and
  latency were added to the manager's totals, and the response carries the backend's result.
\<close>

theorem remote_response_charged:
  assumes "valid_pending ap p ref" and "resume_remote clock p out ap = (ap', Responded r)"
  shows "\<exists>res. out = Inr res \<and> resp_route r = REMOTE \<and> resp_request_id r = p_id p \<and>
           resp_actual_cost r = br_actual_cost res \<and> resp_result r = br_result res \<and>
           br_actual_cost res \<le> fadd (reserved_cost (objects (gen_bm ap (p_gen p)) ! ref)) eps9 \<and>
           res_state (objects (gen_bm ap' (p_gen p)) ! ref) = Committed \<and>
           cumulative_remote_cost (gen_bm ap' (p_gen p)) =
             fadd (cumulative_remote_cost (gen_bm ap (p_gen p))) (br_actual_cost res) \<and>
           cumulative_actual_latency_ms (gen_bm ap' (p_gen p)) =
             fadd (cumulative_actual_latency_ms (gen_bm ap (p_gen p))) (br_actual_latency_ms res)"
  by (rule remote_answer_committed [OF assms])

theorem remote_response_charged_witness:
  "\<exists>ap' r. resume_remote (\<lambda>_. 0) (sample_pending QUALITY (decide REMOTE (Some 0) 800 (Quality_remote_preferred 800 3000)))
       (Inr sample_result) (sy_app (sample_service QUALITY)) = (ap', Responded r) \<and>
     resp_actual_cost r = 1 / 2 \<and> cumulative_remote_cost (gen_bm ap' 0) = fadd 0 (1 / 2)"
proof -
  let ?p = "sample_pending QUALITY (decide REMOTE (Some 0) 800 (Quality_remote_preferred 800 3000))"
  let ?ap = "sy_app (sample_service QUALITY)"
  have v: "valid_pending ?ap ?p 0"
    using sample_inv [of QUALITY] sample_remote by (auto simp: sys_inv_def Let_def sample_pending_def valid_pending_def)
  obtain ap' r where r: "resume_remote (\<lambda>_. 0) ?p (Inr sample_result) ?ap = (ap', Responded r)"
    using sample_answer by blast
  from remote_response_charged [OF v r] r sample_remote show ?thesis
    by (auto simp: sample_result_def sample_pending_def with_reservation_def sample_manager_def)
qed

text \<open>
  C34: Runs are isolated.  Resuming a request, in whatever way its backend call ends, touches only
  the components of the run it arrived in: after \<open>/run_start\<close> has replaced them, a request
  that was in flight still settles on its own manager, queue and tracker, and the new ones do not
  see it.
\<close>

theorem runs_isolated:
  assumes "config_ok cfg" and "reach cfg sy" and "result_ok out" and "i < length (sy_handlers sy)"
    and "pending_of (sy_handlers sy ! i) = Some p" and "g \<noteq> p_gen p"
  shows "ap_gens (sy_app (sys_step cfg sy (Resume i clock out))) ! g = ap_gens (sy_app sy) ! g"
proof -
  obtain ap hs where sy: "sy = \<lparr> sy_app = ap, sy_handlers = hs \<rparr>" by (cases sy) simp
  obtain ap' h' where e: "resume_handler clock out ap (hs ! i) = (ap', h')" by (rule prod.exhaust)
  obtain R where "changes (p_gen p) R ap ap'"
    using resume_handler_changes [OF reach_inv [OF assms(2,1), unfolded sy] _ assms(3) e] assms(4,5)
    by (auto simp: sy)
  with assms(4,6) e show ?thesis by (auto simp: sy changes_def)
qed

theorem runs_isolated_witness:
  "ap_gens (sy_app (sys_step sample_config (sys_step sample_config (sample_service QUALITY) (Start_run ''r2'' True))
      (Resume 0 (\<lambda>_. 0) (Inl (RemoteInferenceError ''boom''))))) ! 1 =
   ap_gens (sy_app (sys_step sample_config (sample_service QUALITY) (Start_run ''r2'' True))) ! 1"
proof (rule runs_isolated [OF sample_config_ok, where
      p = "sample_pending QUALITY (decide REMOTE (Some 0) 800 (Quality_remote_preferred 800 3000))"])
  show "reach sample_config (sys_step sample_config (sample_service QUALITY) (Start_run ''r2'' True))"
    by (rule reach_step [OF sample_reach]) simp
qed (use sample_remote in \<open>simp_all add: result_ok_def sample_pending_def\<close>)

section \<open>Where the schedules break a promise of the source\<close>

text \<open>
  C40: Cancellation leaks.  When the remote call of a request is cancelled, the handler ends
  without touching any component: its reservation stays pending and active, and its cost stays
  reserved, until the reaper finds it expired.
\<close>

theorem cancelled_request_leaks:
  assumes "config_ok cfg" and "reach cfg sy" and "i < length (sy_handlers sy)"
    and "sy_handlers sy ! i = Awaiting_remote p" and "rd_reservation (p_dec p) = Some ref"
    and "b = gen_bm (sy_app sy) (p_gen p)" and "res_state (objects b ! ref) = Pending"
    and "sy' = sys_step cfg sy (Resume i clock (Inl CancelledError))"
  shows "sy_app sy' = sy_app sy \<and> sy_handlers sy' ! i = Was_cancelled p \<and>
         map_of (active_reservations (gen_bm (sy_app sy') (p_gen p))) (res_id (objects b ! ref)) = Some ref"
proof -
  have inv: "sys_inv cfg sy" by (rule reach_inv [OF assms(2,1)])
  have "sy_handlers sy ! i \<in> set (sy_handlers sy)" using assms(3) by simp
  then have "handler_ok (sy_app sy) (sy_handlers sy ! i)"
    using inv by (simp add: sys_inv_def Let_def)
  then have "valid_pending (sy_app sy) p ref" using assms(4,5) by (auto simp: valid_pending_def)
  then have "map_of (active_reservations b) (res_id (objects b ! ref)) = Some ref"
    using pending_active assms(6,7) by (simp add: valid_pending_def)
  then show ?thesis
    using assms(3,4,6,8) by (simp add: resume_handler_def resume_remote_def on_exception_def)
qed

theorem cancelled_request_leaks_witness:
  "map_of (active_reservations (gen_bm (sy_app (sys_step sample_config (sample_service QUALITY)
      (Resume 0 (\<lambda>_. 0) (Inl CancelledError)))) 0)) ''b'' = Some 0"
  using cancelled_request_leaks [OF sample_config_ok sample_reach [of QUALITY], of 0 _ 0, OF _ _ _ refl _ refl] sample_remote
  by (simp add: sample_pending_def with_reservation_def sample_manager_def)

text \<open>
  Shutdown stops the wrong reaper after a reset.  \<open>lifespan\<close> stops the reaper of the
  manager it made itself; once \<open>/run_start\<close> has replaced the components, the reaper of the
  current manager is still running after shutdown.
\<close>

theorem shutdown_leaves_reaper:
  assumes "ap_gens ap \<noteq> []" and "run_start cfg run_id True ap = (ap', Inr ())"
  shows "c_reaper (ap_gens (shutdown ap') ! current (shutdown ap')) \<and>
         \<not> c_reaper (ap_gens ap' ! current ap)"
proof -
  obtain c where c: "new_components cfg = Inr c" "ap_gens ap' = ap_gens (stop_reaper (current ap) ap) @ [start_reaper c]"
    using assms(2) by (auto simp: run_start_def Let_def split: sum.splits)
  with assms(1) show ?thesis by (simp add: shutdown_def stop_reaper_def current_def nth_append)
qed

theorem shutdown_leaves_reaper_witness:
  "c_reaper (ap_gens (shutdown (fst (run_start sample_config ''r2'' True sample_app))) ! 1)"
proof -
  have "ap_gens sample_app \<noteq> []" by (simp add: sample_app_def)
  moreover have "new_components sample_config =
      Inr \<lparr> c_bm = sample_manager 1000, c_qm = sample_qm 0, c_lt = sample_tracker, c_reaper = False \<rparr>"
    by (rule sample_new_components)
  then have "run_start sample_config ''r2'' True sample_app =
      (fst (run_start sample_config ''r2'' True sample_app), Inr ())"
    and "length (ap_gens (fst (run_start sample_config ''r2'' True sample_app))) = 2"
    by (simp_all add: run_start_def Let_def stop_reaper_def)
  ultimately show ?thesis
    using shutdown_leaves_reaper [of sample_app] by (fastforce simp: current_def shutdown_def stop_reaper_def)
qed

end
